(* ===== verification/Prelude.thy ===== *)
theory Prelude
  imports Main "HOL-Library.Word" "HOL-Library.Code_Target_Nat"
begin

text \<open>
  Shared vocabulary of the development: the ways a run of the C++ program can stop
  abnormally (\<open>fault\<close>), the result type of an operation that may stop, sequencing and
  iteration of such operations, the arithmetic of \<open>size_t\<close>, the copy of a byte range
  (\<open>std::copy\<close>) and decimal printing (\<open>%d\<close>, \<open>%u\<close>).  The two collections
  \<open>size_simps\<close> and \<open>fault_simps\<close> gather the rewrite rules the component proofs share.
\<close>

named_theorems size_simps "size_t arithmetic that does not wrap"
named_theorems fault_simps "sequencing of operations that may fault"

section \<open>Faults and results\<close>

text \<open>
  A failing \<open>assert\<close>, an exception nobody catches, and the undefined behaviours that the
  code can reach are values; the rest of the operation is then not executed.
\<close>

datatype fault =
    Assertion_failed
  | Length_error
  | Null_dereference
  | Use_after_free
  | Bad_function_call
  | Bad_weak_ptr
  | Signed_overflow
  | Out_of_bounds
  | Process_exit int
  | Abort_called
  | Terminate_called
  | System_error
  | Indeterminate

type_synonym 'a res = "fault + 'a"

definition ebind :: "'a res \<Rightarrow> ('a \<Rightarrow> 'b res) \<Rightarrow> 'b res" where
  "ebind m f = (case m of Inl e \<Rightarrow> Inl e | Inr a \<Rightarrow> f a)"

definition eassert :: "bool \<Rightarrow> 'a res \<Rightarrow> 'a res" where
  "eassert b m = (if b then m else Inl Assertion_failed)"

fun foldE :: "('x \<Rightarrow> 's \<Rightarrow> 's res) \<Rightarrow> 'x list \<Rightarrow> 's \<Rightarrow> 's res" where
  "foldE f [] s = Inr s"
| "foldE f (x # xs) s = ebind (f x s) (foldE f xs)"

lemma ebind_Inl [simp]: "ebind (Inl e) f = Inl e"
  by (simp add: ebind_def)

lemma ebind_Inr [simp]: "ebind (Inr a) f = f a"
  by (simp add: ebind_def)

lemma eassert_True [simp]: "eassert True m = m"
  by (simp add: eassert_def)

lemma ebind_eq_Inr [fault_simps]:
  "ebind m f = Inr b \<longleftrightarrow> (\<exists>a. m = Inr a \<and> f a = Inr b)"
  by (cases m) auto

lemma ebind_eq_Inl [fault_simps]:
  "ebind m f = Inl e \<longleftrightarrow> m = Inl e \<or> (\<exists>a. m = Inr a \<and> f a = Inl e)"
  by (cases m) auto

lemma eassert_eq_Inr [fault_simps]: "eassert b m = Inr a \<longleftrightarrow> b \<and> m = Inr a"
  by (simp add: eassert_def)

lemma ebind_assoc: "ebind (ebind m f) g = ebind m (\<lambda>a. ebind (f a) g)"
  by (cases m) auto

lemma foldE_append: "foldE f (xs @ ys) s = ebind (foldE f xs s) (foldE f ys)"
proof (induction xs arbitrary: s)
  case Nil
  then show ?case by simp
next
  case (Cons x xs)
  then show ?case by (cases "f x s") auto
qed

text \<open>A fold keeps what each of its steps keeps.\<close>

lemma foldE_invariant:
  assumes "foldE f xs s = Inr t" and "I s"
    and "\<And>x u v. x \<in> set xs \<Longrightarrow> I u \<Longrightarrow> f x u = Inr v \<Longrightarrow> I v"
  shows "I t"
  using assms
proof (induction xs arbitrary: s)
  case Nil
  then show ?case by simp
next
  case (Cons x xs)
  from Cons.prems(1) obtain u where u: "f x s = Inr u" "foldE f xs u = Inr t"
    by (auto simp: fault_simps)
  have "I u" using Cons.prems(3)[of x s u] Cons.prems(2) u(1) by simp
  with u(2) Cons.IH Cons.prems(3) show ?case by (meson list.set_intros(2))
qed

text \<open>A fold whose steps never fault under an invariant they keep does not fault.\<close>

lemma foldE_total:
  assumes "I s" and "\<And>x u. x \<in> set xs \<Longrightarrow> I u \<Longrightarrow> \<exists>v. f x u = Inr v \<and> I v"
  shows "\<exists>t. foldE f xs s = Inr t \<and> I t"
  using assms
proof (induction xs arbitrary: s)
  case Nil
  then show ?case by simp
next
  case (Cons x xs)
  from Cons.prems(2)[of x s] Cons.prems(1) obtain u where "f x s = Inr u" "I u" by auto
  with Cons.IH[of u] Cons.prems(2) show ?case by auto
qed

section \<open>Arithmetic of size_t\<close>

text \<open>\<open>size_t\<close> has 64 bits; sums and differences of unsigned values wrap modulo \<open>2^64\<close>.\<close>

definition size_add :: "nat \<Rightarrow> nat \<Rightarrow> nat" where
  "size_add a b = (a + b) mod 2 ^ 64"

definition size_sub :: "nat \<Rightarrow> nat \<Rightarrow> nat" where
  "size_sub a b = (a + (2 ^ 64 - b)) mod 2 ^ 64"

lemma size_add_exact [size_simps]: "a + b < 2 ^ 64 \<Longrightarrow> size_add a b = a + b"
  by (simp add: size_add_def)

lemma size_sub_exact [size_simps]: "b \<le> a \<Longrightarrow> a < 2 ^ 64 \<Longrightarrow> size_sub a b = a - b"
proof -
  assume "b \<le> a" "a < 2 ^ 64"
  then have "a + (2 ^ 64 - b) = (a - b) + 2 ^ 64" and "a - b < 2 ^ 64" by auto
  then show ?thesis by (simp add: size_sub_def)
qed

text \<open>Sizes and offsets of objects in memory are below \<open>2^63\<close>, which is all the code needs.\<close>

lemma size_add_small: "a < 2 ^ 63 \<Longrightarrow> b < 2 ^ 63 \<Longrightarrow> size_add a b = a + b"
  by (rule size_add_exact) simp

lemma size_sub_small: "b \<le> a \<Longrightarrow> a < 2 ^ 63 \<Longrightarrow> size_sub a b = a - b"
  by (rule size_sub_exact) simp_all

text \<open>
  A \<open>size_t\<close> converted to \<open>int\<close> keeps its low 32 bits; an \<open>int\<close> compared with a \<open>size_t\<close> is
  converted to 64 unsigned bits, where a negative value is huge.
\<close>

definition size_to_int :: "nat \<Rightarrow> int" where
  "size_to_int n = (int n + 2 ^ 31) mod 2 ^ 32 - 2 ^ 31"

definition int_to_size :: "int \<Rightarrow> nat" where
  "int_to_size i = nat (i mod 2 ^ 64)"

lemma size_to_int_small [size_simps]: "n < 2 ^ 31 \<Longrightarrow> size_to_int n = int n"
  by (simp add: size_to_int_def)

lemma int_to_size_nonneg [size_simps]: "0 \<le> i \<Longrightarrow> i < 2 ^ 63 \<Longrightarrow> int_to_size i = nat i"
  by (simp add: int_to_size_def)

section \<open>Byte ranges\<close>

type_synonym byte = "8 word"

text \<open>
  \<open>std::copy(d, d + n, begin() + i)\<close> into a vector of bytes; a target range that leaves
  the vector is the undefined behaviour of writing out of bounds.
\<close>

definition blit :: "nat \<Rightarrow> 'a list \<Rightarrow> 'a list \<Rightarrow> 'a list res" where
  "blit i d xs =
     (if i + length d \<le> length xs
      then Inr (take i xs @ d @ drop (i + length d) xs)
      else Inl Out_of_bounds)"

definition slice :: "nat \<Rightarrow> nat \<Rightarrow> 'a list \<Rightarrow> 'a list" where
  "slice i j xs = take (j - i) (drop i xs)"

lemma length_slice [simp]: "j \<le> length xs \<Longrightarrow> length (slice i j xs) = j - i"
  by (simp add: slice_def)

lemma slice_self [simp]: "slice i i xs = []"
  by (simp add: slice_def)

lemma slice_split:
  assumes "i \<le> k" and "k \<le> j"
  shows "slice i j xs = slice i k xs @ slice k j xs"
proof -
  have "take (j - i) (drop i xs) = take (k - i) (drop i xs) @ take (j - k) (drop (k - i) (drop i xs))"
    using assms take_add[of "k - i" "j - k" "drop i xs"] by simp
  moreover have "drop (k - i) (drop i xs) = drop k xs" using assms by simp
  ultimately show ?thesis by (simp add: slice_def)
qed

lemma drop_slice: "drop n (slice i j xs) = slice (i + n) j xs"
  by (simp add: slice_def drop_take add.commute)

lemma take_slice: "i + n \<le> j \<Longrightarrow> take n (slice i j xs) = slice i (i + n) xs"
  by (simp add: slice_def min_def)

lemma slice_append_left: "j \<le> length xs \<Longrightarrow> slice i j (xs @ ys) = slice i j xs"
  by (cases "i \<le> length xs") (simp_all add: slice_def)

lemma blit_Inr:
  "blit i d xs = Inr ys \<longleftrightarrow>
     i + length d \<le> length xs \<and> ys = take i xs @ d @ drop (i + length d) xs"
  by (auto simp: blit_def)

lemma blit_length: "blit i d xs = Inr ys \<Longrightarrow> length ys = length xs"
  by (auto simp: blit_Inr)

lemma blit_slice_new:
  "blit i d xs = Inr ys \<Longrightarrow> slice i (i + length d) ys = d"
  by (auto simp: blit_Inr slice_def)

lemma blit_slice_before:
  "blit i d xs = Inr ys \<Longrightarrow> j \<le> i \<Longrightarrow> slice k j ys = slice k j xs"
  by (auto simp: blit_Inr slice_def drop_take min_def)

lemma blit_slice_after:
  "blit i d xs = Inr ys \<Longrightarrow> i + length d \<le> k \<Longrightarrow> slice k j ys = slice k j xs"
  by (auto simp: blit_Inr slice_def)

section \<open>Decimal printing\<close>

text \<open>The digits \<open>printf\<close> writes for \<open>%u\<close>, and for \<open>%d\<close> on a non-negative value.\<close>

definition digit_char :: "nat \<Rightarrow> char" where
  "digit_char d = char_of (48 + d)"

fun dec :: "nat \<Rightarrow> string" where
  "dec n = (if n < 10 then [digit_char n] else dec (n div 10) @ [digit_char (n mod 10)])"

declare dec.simps [simp del]

definition dec_int :: "int \<Rightarrow> string" where
  "dec_int i = (if i < 0 then CHR ''-'' # dec (nat (- i)) else dec (nat i))"

definition undigit :: "char \<Rightarrow> nat" where
  "undigit c = of_char c - 48"

fun undec :: "string \<Rightarrow> nat \<Rightarrow> nat" where
  "undec [] a = a"
| "undec (c # cs) a = undec cs (10 * a + undigit c)"

lemma undigit_digit_char: "d < 10 \<Longrightarrow> undigit (digit_char d) = d"
  by (simp add: undigit_def digit_char_def)

lemma undec_append: "undec (xs @ ys) a = undec ys (undec xs a)"
  by (induction xs arbitrary: a) auto

lemma undec_dec: "undec (dec n) 0 = n"
proof (induction n rule: dec.induct)
  case (1 n)
  show ?case
    by (cases "n < 10")
      (simp_all add: dec.simps[of n] undec_append undigit_digit_char 1)
qed

lemma dec_inject [simp]: "dec m = dec n \<longleftrightarrow> m = n"
  by (metis undec_dec)

lemma digit_char_in:
  assumes "d < 10" shows "digit_char d \<in> set ''0123456789''"
proof -
  have "\<forall>d \<in> set [0..<10]. digit_char d \<in> set ''0123456789''" by code_simp
  then show ?thesis using assms by simp
qed

lemma dec_digits: "set (dec n) \<subseteq> set ''0123456789''"
proof (induction n rule: dec.induct)
  case (1 n)
  show ?case
  proof (cases "n < 10")
    case True
    then show ?thesis using digit_char_in[of n] by (simp add: dec.simps[of n])
  next
    case False
    then show ?thesis using 1 digit_char_in[of "n mod 10"] by (simp add: dec.simps[of n])
  qed
qed

lemma length_dec_bound: "n < 10 ^ k \<Longrightarrow> 0 < k \<Longrightarrow> length (dec n) \<le> k"
proof (induction n arbitrary: k rule: dec.induct)
  case (1 n)
  show ?case
  proof (cases "n < 10")
    case True
    then show ?thesis using 1 by (simp add: dec.simps[of n])
  next
    case False
    have "k \<noteq> Suc 0" using False 1(2) by auto
    then obtain j where j: "k = Suc j" "0 < j" using 1(3) by (cases k) auto
    from 1(2) j have "n div 10 < 10 ^ j" by (simp add: less_mult_imp_div_less mult.commute)
    with 1(1)[OF False this j(2)] False j show ?thesis by (simp add: dec.simps[of n])
  qed
qed

end
