(* ===== verification/ByteOrder.thy ===== *)
theory ByteOrder
  imports Prelude
begin

text \<open>
  The byte-order conversions of \<open>SocketOps.h\<close> (\<open>hostToNetwork64/32/16\<close> and
  \<open>networkToHost64/32/16\<close>, that is \<open>htobe64\<close> and so on) and the memory image of an
  integer, which is what \<open>memcpy\<close> and \<open>append(&x, sizeof x)\<close> move.  The byte order of
  the host is the parameter \<open>big\<close> of every definition: \<open>True\<close> for a big-endian host.
  The locale \<open>wire_codec\<close> is what the buffer needs of an encoding of fixed width; it is
  interpreted on the four widths the code uses.
\<close>

section \<open>Memory image of an unsigned integer\<close>

fun le_bytes :: "nat \<Rightarrow> nat \<Rightarrow> byte list" where
  "le_bytes 0 x = []"
| "le_bytes (Suc n) x = word_of_nat (x mod 256) # le_bytes n (x div 256)"

fun le_value :: "byte list \<Rightarrow> nat" where
  "le_value [] = 0"
| "le_value (b # bs) = unat b + 256 * le_value bs"

definition be_bytes :: "nat \<Rightarrow> nat \<Rightarrow> byte list" where
  "be_bytes n x = rev (le_bytes n x)"

definition be_value :: "byte list \<Rightarrow> nat" where
  "be_value bs = le_value (rev bs)"

lemma length_le_bytes [simp]: "length (le_bytes n x) = n"
  by (induction n arbitrary: x) auto

lemma length_be_bytes [simp]: "length (be_bytes n x) = n"
  by (simp add: be_bytes_def)

lemma unat_byte_mod: "unat (word_of_nat (x mod 256) :: byte) = x mod 256"
  by (simp add: unat_of_nat)

lemma unat_byte_bound: "unat (b :: byte) < 256"
  using unsigned_less[where ?'a = nat, of b] by simp

lemma le_value_le_bytes: "le_value (le_bytes n x) = x mod 256 ^ n"
proof (induction n arbitrary: x)
  case 0
  then show ?case by simp
next
  case (Suc n)
  have "x mod 256 + 256 * (x div 256 mod 256 ^ n) = x mod (256 * 256 ^ n)"
    by (metis add.commute mod_mult2_eq)
  then show ?case using Suc by (simp add: unat_byte_mod)
qed

lemma be_value_be_bytes: "be_value (be_bytes n x) = x mod 256 ^ n"
  by (simp add: be_value_def be_bytes_def le_value_le_bytes)

lemma le_value_bound: "le_value bs < 256 ^ length bs"
proof (induction bs)
  case Nil
  then show ?case by simp
next
  case (Cons b bs)
  have "unat b < 256" using unat_byte_bound[of b] by simp
  with Cons show ?case by simp
qed

lemma le_bytes_le_value: "le_bytes (length bs) (le_value bs) = bs"
proof (induction bs)
  case Nil
  then show ?case by simp
next
  case (Cons b bs)
  have b: "unat b < 256" using unat_byte_bound[of b] by simp
  then have "(unat b + 256 * le_value bs) mod 256 = unat b"
    and "(unat b + 256 * le_value bs) div 256 = le_value bs" by auto
  with Cons show ?case by simp
qed

lemma be_bytes_be_value: "length bs = n \<Longrightarrow> be_bytes n (be_value bs) = bs"
  using le_bytes_le_value[of "rev bs"] by (simp add: be_value_def be_bytes_def)

section \<open>Host representation and the htobe/betoh conversions\<close>

text \<open>
  The bytes in memory of an \<open>n\<close>-byte unsigned integer on a host of byte order \<open>big\<close>,
  and the integer that such bytes represent.
\<close>

definition mem_image :: "bool \<Rightarrow> nat \<Rightarrow> nat \<Rightarrow> byte list" where
  "mem_image big n x = (if big then be_bytes n x else le_bytes n x)"

definition mem_value :: "bool \<Rightarrow> byte list \<Rightarrow> nat" where
  "mem_value big bs = (if big then be_value bs else le_value bs)"

definition bswap :: "nat \<Rightarrow> nat \<Rightarrow> nat" where
  "bswap n x = le_value (be_bytes n x)"

definition hostToNetwork64 :: "bool \<Rightarrow> 64 word \<Rightarrow> 64 word" where
  "hostToNetwork64 big x = (if big then x else word_of_nat (bswap 8 (unat x)))"

definition hostToNetwork32 :: "bool \<Rightarrow> 32 word \<Rightarrow> 32 word" where
  "hostToNetwork32 big x = (if big then x else word_of_nat (bswap 4 (unat x)))"

definition hostToNetwork16 :: "bool \<Rightarrow> 16 word \<Rightarrow> 16 word" where
  "hostToNetwork16 big x = (if big then x else word_of_nat (bswap 2 (unat x)))"

definition networkToHost64 :: "bool \<Rightarrow> 64 word \<Rightarrow> 64 word" where
  "networkToHost64 big x = (if big then x else word_of_nat (bswap 8 (unat x)))"

definition networkToHost32 :: "bool \<Rightarrow> 32 word \<Rightarrow> 32 word" where
  "networkToHost32 big x = (if big then x else word_of_nat (bswap 4 (unat x)))"

definition networkToHost16 :: "bool \<Rightarrow> 16 word \<Rightarrow> 16 word" where
  "networkToHost16 big x = (if big then x else word_of_nat (bswap 2 (unat x)))"

lemma bswap_bound: "bswap n x < 256 ^ n"
  using le_value_bound[of "be_bytes n x"] by (simp add: bswap_def)

lemma le_bytes_bswap: "le_bytes n (bswap n x) = be_bytes n x"
  using le_bytes_le_value[of "be_bytes n x"] by (simp add: bswap_def)

lemma bswap_bswap: "bswap n (bswap n x) = x mod 256 ^ n"
proof -
  have "be_bytes n (bswap n x) = le_bytes n x"
    by (simp add: be_bytes_def le_bytes_bswap[unfolded be_bytes_def])
  then show ?thesis by (simp add: bswap_def le_value_le_bytes)
qed

text \<open>Whatever the host, a converted integer lies in memory in network byte order.\<close>

lemma mem_image_hton64: "mem_image big 8 (unat (hostToNetwork64 big x)) = be_bytes 8 (unat x)"
  using bswap_bound[of 8 "unat x"]
  by (simp add: mem_image_def hostToNetwork64_def unat_of_nat le_bytes_bswap)

lemma mem_image_hton32: "mem_image big 4 (unat (hostToNetwork32 big x)) = be_bytes 4 (unat x)"
  using bswap_bound[of 4 "unat x"]
  by (simp add: mem_image_def hostToNetwork32_def unat_of_nat le_bytes_bswap)

lemma mem_image_hton16: "mem_image big 2 (unat (hostToNetwork16 big x)) = be_bytes 2 (unat x)"
  using bswap_bound[of 2 "unat x"]
  by (simp add: mem_image_def hostToNetwork16_def unat_of_nat le_bytes_bswap)

lemma bswap_le_value: "length bs = n \<Longrightarrow> bswap n (le_value bs) = be_value bs"
  using le_bytes_le_value[of bs] by (auto simp: bswap_def be_bytes_def be_value_def)

lemma be_value_bound: "be_value bs < 256 ^ length bs"
  using le_value_bound[of "rev bs"] by (simp add: be_value_def)

lemma ntoh64_mem_value:
  assumes "length bs = 8"
  shows "networkToHost64 big (word_of_nat (mem_value big bs)) = word_of_nat (be_value bs)"
  using assms le_value_bound[of bs]
  by (simp add: networkToHost64_def mem_value_def unat_of_nat bswap_le_value)

lemma ntoh32_mem_value:
  assumes "length bs = 4"
  shows "networkToHost32 big (word_of_nat (mem_value big bs)) = word_of_nat (be_value bs)"
  using assms le_value_bound[of bs]
  by (simp add: networkToHost32_def mem_value_def unat_of_nat bswap_le_value)

lemma ntoh16_mem_value:
  assumes "length bs = 2"
  shows "networkToHost16 big (word_of_nat (mem_value big bs)) = word_of_nat (be_value bs)"
  using assms le_value_bound[of bs]
  by (simp add: networkToHost16_def mem_value_def unat_of_nat bswap_le_value)

section \<open>Fixed-width codecs\<close>

text \<open>
  The interface between the integers and the byte queue: an encoding of fixed width and a
  decoding that inverts it, and a decoding all of whose inputs of that width are encodings.
\<close>

locale wire_codec =
  fixes width :: nat
    and enc :: "'v \<Rightarrow> byte list"
    and decode :: "byte list \<Rightarrow> 'v"
  assumes length_enc: "length (enc v) = width"
    and decode_enc: "decode (enc v) = v"
    and enc_decode: "length bs = width \<Longrightarrow> enc (decode bs) = bs"
begin

lemma enc_inj: "enc u = enc v \<longleftrightarrow> u = v"
  by (metis decode_enc)

lemma decode_prefix: "decode (take width (enc v @ bs)) = v"
  by (simp add: length_enc decode_enc)

lemma drop_prefix: "drop width (enc v @ bs) = bs"
  by (simp add: length_enc)

end

definition enc64 :: "bool \<Rightarrow> 64 word \<Rightarrow> byte list" where
  "enc64 big x = mem_image big 8 (unat (hostToNetwork64 big x))"

definition enc32 :: "bool \<Rightarrow> 32 word \<Rightarrow> byte list" where
  "enc32 big x = mem_image big 4 (unat (hostToNetwork32 big x))"

definition enc16 :: "bool \<Rightarrow> 16 word \<Rightarrow> byte list" where
  "enc16 big x = mem_image big 2 (unat (hostToNetwork16 big x))"

definition enc8 :: "8 word \<Rightarrow> byte list" where
  "enc8 x = [x]"

definition dec64 :: "bool \<Rightarrow> byte list \<Rightarrow> 64 word" where
  "dec64 big bs = networkToHost64 big (word_of_nat (mem_value big bs))"

definition dec32 :: "bool \<Rightarrow> byte list \<Rightarrow> 32 word" where
  "dec32 big bs = networkToHost32 big (word_of_nat (mem_value big bs))"

definition dec16 :: "bool \<Rightarrow> byte list \<Rightarrow> 16 word" where
  "dec16 big bs = networkToHost16 big (word_of_nat (mem_value big bs))"

definition dec8 :: "byte list \<Rightarrow> 8 word" where
  "dec8 bs = (case bs of [] \<Rightarrow> 0 | b # _ \<Rightarrow> b)"

lemma enc64_be: "enc64 big x = be_bytes 8 (unat x)"
  by (simp add: enc64_def mem_image_hton64)

lemma enc32_be: "enc32 big x = be_bytes 4 (unat x)"
  by (simp add: enc32_def mem_image_hton32)

lemma enc16_be: "enc16 big x = be_bytes 2 (unat x)"
  by (simp add: enc16_def mem_image_hton16)

interpretation codec64: wire_codec 8 "enc64 big" "dec64 big" for big
proof
  fix v :: "64 word"
  show "length (enc64 big v) = 8" by (simp add: enc64_be)
  show "dec64 big (enc64 big v) = v"
    using unsigned_less[where ?'a = nat, of v]
    by (simp add: enc64_be dec64_def ntoh64_mem_value be_value_be_bytes)
next
  fix bs :: "byte list"
  assume "length bs = 8"
  then show "enc64 big (dec64 big bs) = bs"
    using be_value_bound[of bs]
    by (simp add: enc64_be dec64_def ntoh64_mem_value unat_of_nat be_bytes_be_value)
qed

interpretation codec32: wire_codec 4 "enc32 big" "dec32 big" for big
proof
  fix v :: "32 word"
  show "length (enc32 big v) = 4" by (simp add: enc32_be)
  show "dec32 big (enc32 big v) = v"
    using unsigned_less[where ?'a = nat, of v]
    by (simp add: enc32_be dec32_def ntoh32_mem_value be_value_be_bytes)
next
  fix bs :: "byte list"
  assume "length bs = 4"
  then show "enc32 big (dec32 big bs) = bs"
    using be_value_bound[of bs]
    by (simp add: enc32_be dec32_def ntoh32_mem_value unat_of_nat be_bytes_be_value)
qed

interpretation codec16: wire_codec 2 "enc16 big" "dec16 big" for big
proof
  fix v :: "16 word"
  show "length (enc16 big v) = 2" by (simp add: enc16_be)
  show "dec16 big (enc16 big v) = v"
    using unsigned_less[where ?'a = nat, of v]
    by (simp add: enc16_be dec16_def ntoh16_mem_value be_value_be_bytes)
next
  fix bs :: "byte list"
  assume "length bs = 2"
  then show "enc16 big (dec16 big bs) = bs"
    using be_value_bound[of bs]
    by (simp add: enc16_be dec16_def ntoh16_mem_value unat_of_nat be_bytes_be_value)
qed

interpretation codec8: wire_codec 1 enc8 dec8
  by unfold_locales (auto simp: enc8_def dec8_def length_Suc_conv)

end
