(* ===== verification/Buffer.thy ===== *)
theory Buffer
  imports Prelude ByteOrder
begin

text \<open>
  The byte buffer of \<open>Buffer.h\<close> and \<open>Buffer.cpp\<close>: a vector of bytes with a reader and a
  writer index.  Pointers into the vector are their offsets from \<open>begin()\<close>.  \<open>content\<close> is
  the abstraction (the readable bytes), \<open>buffer_inv\<close> the representation invariant drawn in
  the comment of the class, and every operation is shown to act on the content as the
  corresponding operation on a byte queue.  The locale \<open>byte_queue\<close> is that contract, as a
  client (the output side of a connection) uses it, interpreted here on the buffer.
\<close>

section \<open>State\<close>

record buffer =
  storage :: "byte list"
  readerIndex :: nat
  writerIndex :: nat

definition kCheapPrepend :: nat where "kCheapPrepend = 8"
definition kInitialSize :: nat where "kInitialSize = 1024"

text \<open>\<open>std::vector<char>::max_size()\<close>: a resize beyond it throws \<open>std::length_error\<close>.\<close>

definition vector_max :: nat where "vector_max = 2 ^ 63 - 1"

definition vector_resize :: "nat \<Rightarrow> byte list \<Rightarrow> byte list res" where
  "vector_resize n xs =
     (if vector_max < n then Inl Length_error
      else Inr (take n xs @ replicate (n - length xs) 0))"

section \<open>Operations\<close>

definition readableBytes :: "buffer \<Rightarrow> nat" where
  "readableBytes b = size_sub (writerIndex b) (readerIndex b)"

definition writableBytes :: "buffer \<Rightarrow> nat" where
  "writableBytes b = size_sub (length (storage b)) (writerIndex b)"

definition prependableBytes :: "buffer \<Rightarrow> nat" where
  "prependableBytes b = readerIndex b"

definition peek :: "buffer \<Rightarrow> nat" where
  "peek b = readerIndex b"

definition beginWrite :: "buffer \<Rightarrow> nat" where
  "beginWrite b = writerIndex b"

definition new_buffer :: "nat \<Rightarrow> buffer res" where
  "new_buffer initialSize =
     ebind (vector_resize (size_add kCheapPrepend initialSize) [])
       (\<lambda>v. let b = \<lparr>storage = v, readerIndex = kCheapPrepend, writerIndex = kCheapPrepend\<rparr>
            in eassert (readableBytes b = 0)
               (eassert (writableBytes b = initialSize)
                 (eassert (prependableBytes b = kCheapPrepend) (Inr b))))"

definition buffer_swap :: "buffer \<Rightarrow> buffer \<Rightarrow> buffer \<times> buffer" where
  "buffer_swap a b =
     (a\<lparr>storage := storage b, readerIndex := readerIndex b, writerIndex := writerIndex b\<rparr>,
      b\<lparr>storage := storage a, readerIndex := readerIndex a, writerIndex := writerIndex a\<rparr>)"

subsection \<open>Searching\<close>

text \<open>\<open>std::search\<close>: the offset of the first occurrence of \<open>pat\<close>, or the length of the text.\<close>

fun search :: "byte list \<Rightarrow> byte list \<Rightarrow> nat" where
  "search pat [] = 0"
| "search pat (x # xs) = (if take (length pat) (x # xs) = pat then 0 else Suc (search pat xs))"

text \<open>\<open>memchr\<close>: the offset of the first occurrence of a byte, or a null pointer.\<close>

fun memchr :: "byte \<Rightarrow> byte list \<Rightarrow> nat option" where
  "memchr c [] = None"
| "memchr c (x # xs) = (if x = c then Some 0 else map_option Suc (memchr c xs))"

definition kCRLF :: "byte list" where "kCRLF = [0x0D, 0x0A]"

definition findCRLF :: "buffer \<Rightarrow> nat option" where
  "findCRLF b =
     (let crlf = peek b + search kCRLF (slice (peek b) (beginWrite b) (storage b))
      in if crlf = beginWrite b then None else Some crlf)"

definition findCRLF_from :: "nat \<Rightarrow> buffer \<Rightarrow> nat option res" where
  "findCRLF_from start b =
     eassert (peek b \<le> start) (eassert (start \<le> beginWrite b)
       (let crlf = start + search kCRLF (slice start (beginWrite b) (storage b))
        in Inr (if crlf = beginWrite b then None else Some crlf)))"

definition findEOL :: "buffer \<Rightarrow> nat option" where
  "findEOL b =
     map_option (\<lambda>k. peek b + k) (memchr 0x0A (slice (peek b) (peek b + readableBytes b) (storage b)))"

definition findEOL_from :: "nat \<Rightarrow> buffer \<Rightarrow> nat option res" where
  "findEOL_from start b =
     eassert (peek b \<le> start) (eassert (start \<le> beginWrite b)
       (Inr (map_option (\<lambda>k. start + k) (memchr 0x0A (slice start (beginWrite b) (storage b))))))"

subsection \<open>Retrieving\<close>

definition retrieveAll :: "buffer \<Rightarrow> buffer" where
  "retrieveAll b = b\<lparr>readerIndex := kCheapPrepend, writerIndex := kCheapPrepend\<rparr>"

definition retrieve :: "nat \<Rightarrow> buffer \<Rightarrow> buffer res" where
  "retrieve len b =
     eassert (len \<le> readableBytes b)
       (if len < readableBytes b
        then Inr (b\<lparr>readerIndex := size_add (readerIndex b) len\<rparr>)
        else Inr (retrieveAll b))"

definition retrieveUntil :: "nat \<Rightarrow> buffer \<Rightarrow> buffer res" where
  "retrieveUntil end' b =
     eassert (peek b \<le> end') (eassert (end' \<le> beginWrite b) (retrieve (end' - peek b) b))"

definition retrieveInt64 :: "buffer \<Rightarrow> buffer res" where "retrieveInt64 b = retrieve 8 b"
definition retrieveInt32 :: "buffer \<Rightarrow> buffer res" where "retrieveInt32 b = retrieve 4 b"
definition retrieveInt16 :: "buffer \<Rightarrow> buffer res" where "retrieveInt16 b = retrieve 2 b"
definition retrieveInt8 :: "buffer \<Rightarrow> buffer res" where "retrieveInt8 b = retrieve 1 b"

definition retrieveAsString :: "nat \<Rightarrow> buffer \<Rightarrow> (byte list \<times> buffer) res" where
  "retrieveAsString len b =
     eassert (len \<le> readableBytes b)
       (let result = slice (peek b) (peek b + len) (storage b)
        in ebind (retrieve len b) (\<lambda>b'. Inr (result, b')))"

definition retrieveAllAsString :: "buffer \<Rightarrow> (byte list \<times> buffer) res" where
  "retrieveAllAsString b = retrieveAsString (readableBytes b) b"

subsection \<open>Writing\<close>

definition makeSpace :: "nat \<Rightarrow> buffer \<Rightarrow> buffer res" where
  "makeSpace len b =
     (if size_add (writableBytes b) (prependableBytes b) < size_add len kCheapPrepend
      then ebind (vector_resize (size_add (writerIndex b) len) (storage b))
             (\<lambda>v. Inr (b\<lparr>storage := v\<rparr>))
      else eassert (kCheapPrepend < readerIndex b)
        (let readable = readableBytes b
         in ebind (blit kCheapPrepend (slice (readerIndex b) (writerIndex b) (storage b)) (storage b))
              (\<lambda>v. let b' = b\<lparr>storage := v, readerIndex := kCheapPrepend,
                             writerIndex := size_add kCheapPrepend readable\<rparr>
                   in eassert (readable = readableBytes b') (Inr b'))))"

definition ensureWritableBytes :: "nat \<Rightarrow> buffer \<Rightarrow> buffer res" where
  "ensureWritableBytes len b =
     ebind (if writableBytes b < len then makeSpace len b else Inr b)
       (\<lambda>b'. eassert (len \<le> writableBytes b') (Inr b'))"

definition hasWritten :: "nat \<Rightarrow> buffer \<Rightarrow> buffer res" where
  "hasWritten len b =
     eassert (len \<le> writableBytes b) (Inr (b\<lparr>writerIndex := size_add (writerIndex b) len\<rparr>))"

definition unwrite :: "nat \<Rightarrow> buffer \<Rightarrow> buffer res" where
  "unwrite len b =
     eassert (len \<le> readableBytes b) (Inr (b\<lparr>writerIndex := size_sub (writerIndex b) len\<rparr>))"

definition append_buf :: "byte list \<Rightarrow> buffer \<Rightarrow> buffer res" where
  "append_buf data b =
     ebind (ensureWritableBytes (length data) b)
       (\<lambda>b1. ebind (blit (beginWrite b1) data (storage b1))
         (\<lambda>v. hasWritten (length data) (b1\<lparr>storage := v\<rparr>)))"

definition prepend :: "byte list \<Rightarrow> buffer \<Rightarrow> buffer res" where
  "prepend data b =
     eassert (length data \<le> prependableBytes b)
       (let r = size_sub (readerIndex b) (length data)
        in ebind (blit r data (storage b))
             (\<lambda>v. Inr (b\<lparr>storage := v, readerIndex := r\<rparr>)))"

subsection \<open>Integers in network byte order\<close>

text \<open>
  \<open>int64_t\<close> and \<open>uint64_t\<close> differ in how the same 64 bits are read, so both are words;
  \<open>big\<close> is the byte order of the host (theory \<open>ByteOrder\<close>).
\<close>

definition appendInt64 :: "bool \<Rightarrow> 64 word \<Rightarrow> buffer \<Rightarrow> buffer res" where
  "appendInt64 big x b = (let be64 = hostToNetwork64 big x in append_buf (mem_image big 8 (unat be64)) b)"

definition appendInt32 :: "bool \<Rightarrow> 32 word \<Rightarrow> buffer \<Rightarrow> buffer res" where
  "appendInt32 big x b = (let be32 = hostToNetwork32 big x in append_buf (mem_image big 4 (unat be32)) b)"

definition appendInt16 :: "bool \<Rightarrow> 16 word \<Rightarrow> buffer \<Rightarrow> buffer res" where
  "appendInt16 big x b = (let be16 = hostToNetwork16 big x in append_buf (mem_image big 2 (unat be16)) b)"

definition appendInt8 :: "8 word \<Rightarrow> buffer \<Rightarrow> buffer res" where
  "appendInt8 x b = append_buf [x] b"

text \<open>\<open>memcpy\<close> from \<open>peek()\<close>: reading beyond the vector is out of bounds.\<close>

definition copy_out :: "nat \<Rightarrow> buffer \<Rightarrow> byte list res" where
  "copy_out n b =
     (if peek b + n \<le> length (storage b) then Inr (slice (peek b) (peek b + n) (storage b))
      else Inl Out_of_bounds)"

definition peekInt64 :: "bool \<Rightarrow> buffer \<Rightarrow> 64 word res" where
  "peekInt64 big b =
     eassert (8 \<le> readableBytes b)
       (ebind (copy_out 8 b) (\<lambda>m. Inr (networkToHost64 big (word_of_nat (mem_value big m)))))"

definition peekInt32 :: "bool \<Rightarrow> buffer \<Rightarrow> 32 word res" where
  "peekInt32 big b =
     eassert (4 \<le> readableBytes b)
       (ebind (copy_out 4 b) (\<lambda>m. Inr (networkToHost32 big (word_of_nat (mem_value big m)))))"

definition peekInt16 :: "bool \<Rightarrow> buffer \<Rightarrow> 16 word res" where
  "peekInt16 big b =
     eassert (2 \<le> readableBytes b)
       (ebind (copy_out 2 b) (\<lambda>m. Inr (networkToHost16 big (word_of_nat (mem_value big m)))))"

definition peekInt8 :: "buffer \<Rightarrow> 8 word res" where
  "peekInt8 b =
     eassert (1 \<le> readableBytes b)
       (ebind (copy_out 1 b) (\<lambda>m. Inr (hd m)))"

definition readInt64 :: "bool \<Rightarrow> buffer \<Rightarrow> (64 word \<times> buffer) res" where
  "readInt64 big b = ebind (peekInt64 big b) (\<lambda>x. ebind (retrieveInt64 b) (\<lambda>b'. Inr (x, b')))"

definition readInt32 :: "bool \<Rightarrow> buffer \<Rightarrow> (32 word \<times> buffer) res" where
  "readInt32 big b = ebind (peekInt32 big b) (\<lambda>x. ebind (retrieveInt32 b) (\<lambda>b'. Inr (x, b')))"

definition readInt16 :: "bool \<Rightarrow> buffer \<Rightarrow> (16 word \<times> buffer) res" where
  "readInt16 big b = ebind (peekInt16 big b) (\<lambda>x. ebind (retrieveInt16 b) (\<lambda>b'. Inr (x, b')))"

definition readInt8 :: "buffer \<Rightarrow> (8 word \<times> buffer) res" where
  "readInt8 b = ebind (peekInt8 b) (\<lambda>x. ebind (retrieveInt8 b) (\<lambda>b'. Inr (x, b')))"

definition prependInt64 :: "bool \<Rightarrow> 64 word \<Rightarrow> buffer \<Rightarrow> buffer res" where
  "prependInt64 big x b = (let be64 = hostToNetwork64 big x in prepend (mem_image big 8 (unat be64)) b)"

definition prependInt32 :: "bool \<Rightarrow> 32 word \<Rightarrow> buffer \<Rightarrow> buffer res" where
  "prependInt32 big x b = (let be32 = hostToNetwork32 big x in prepend (mem_image big 4 (unat be32)) b)"

definition prependInt16 :: "bool \<Rightarrow> 16 word \<Rightarrow> buffer \<Rightarrow> buffer res" where
  "prependInt16 big x b = (let be16 = hostToNetwork16 big x in prepend (mem_image big 2 (unat be16)) b)"

definition prependInt8 :: "8 word \<Rightarrow> buffer \<Rightarrow> buffer res" where
  "prependInt8 x b = prepend [x] b"

subsection \<open>Reading from a file descriptor\<close>

text \<open>
  \<open>readFd\<close> hands \<open>readv(2)\<close> the writable part of the vector and, when that is smaller
  than \<open>extrabuf\<close>, a stack buffer of 65536 bytes.  \<open>rv lens\<close> is the result of the call on
  buffers of these lengths: the return value, the bytes delivered in order, and \<open>errno\<close>.
\<close>

definition extrabuf_size :: nat where "extrabuf_size = 65536"

definition readFd :: "(nat list \<Rightarrow> int \<times> byte list \<times> 'e) \<Rightarrow> buffer \<Rightarrow> (int \<times> 'e option \<times> buffer) res" where
  "readFd rv b =
     (let writable = writableBytes b;
          iov = (if writable < extrabuf_size then [writable, extrabuf_size] else [writable]);
          (n, bytes, err) = rv iov
      in if n < 0 then Inr (n, Some err, b)
         else ebind (blit (writerIndex b) (take writable bytes) (storage b))
           (\<lambda>v. let b1 = b\<lparr>storage := v\<rparr>
                in if nat n \<le> writable
                   then Inr (n, None, b1\<lparr>writerIndex := size_add (writerIndex b) (nat n)\<rparr>)
                   else ebind (append_buf (take (nat n - writable) (drop writable bytes))
                                 (b1\<lparr>writerIndex := length v\<rparr>))
                          (\<lambda>b2. Inr (n, None, b2))))"

section \<open>Invariant and abstraction\<close>

definition buffer_inv :: "buffer \<Rightarrow> bool" where
  "buffer_inv b \<longleftrightarrow>
     readerIndex b \<le> writerIndex b \<and> writerIndex b \<le> length (storage b) \<and>
     kCheapPrepend \<le> length (storage b) \<and> length (storage b) \<le> vector_max"

definition content :: "buffer \<Rightarrow> byte list" where
  "content b = slice (readerIndex b) (writerIndex b) (storage b)"

lemma buffer_invD:
  assumes "buffer_inv b"
  shows "readerIndex b \<le> writerIndex b" "writerIndex b \<le> length (storage b)"
    "8 \<le> length (storage b)" "length (storage b) < 2 ^ 63"
  using assms by (auto simp: buffer_inv_def kCheapPrepend_def vector_max_def)

lemma readableBytes_eq: "buffer_inv b \<Longrightarrow> readableBytes b = writerIndex b - readerIndex b"
  using buffer_invD[of b] by (simp add: readableBytes_def size_sub_small)

lemma readableBytes_content: "buffer_inv b \<Longrightarrow> readableBytes b = length (content b)"
  by (simp add: readableBytes_eq content_def buffer_invD)

lemma writableBytes_eq: "buffer_inv b \<Longrightarrow> writableBytes b = length (storage b) - writerIndex b"
  using buffer_invD[of b] by (simp add: writableBytes_def size_sub_small)

lemma content_length_bound: "buffer_inv b \<Longrightarrow> length (content b) < 2 ^ 63"
  using buffer_invD[of b] readableBytes_content[of b] readableBytes_eq[of b] by linarith

lemma new_buffer_ok:
  assumes "initialSize < 2 ^ 62"
  shows "\<exists>b. new_buffer initialSize = Inr b \<and> buffer_inv b \<and> content b = []"
  using assms
  by (simp add: new_buffer_def size_add_def vector_resize_def vector_max_def kCheapPrepend_def
      readableBytes_def writableBytes_def prependableBytes_def size_sub_def buffer_inv_def
      content_def)

subsection \<open>Retrieving\<close>

lemma retrieveAll_ok: "buffer_inv b \<Longrightarrow> buffer_inv (retrieveAll b) \<and> content (retrieveAll b) = []"
  by (auto simp: retrieveAll_def buffer_inv_def content_def)

lemma retrieve_ok:
  assumes "buffer_inv b" and "len \<le> length (content b)"
  shows "\<exists>b'. retrieve len b = Inr b' \<and> buffer_inv b' \<and> content b' = drop len (content b)"
proof (cases "len < readableBytes b")
  case True
  let ?b = "b\<lparr>readerIndex := readerIndex b + len\<rparr>"
  have le: "readerIndex b + len < writerIndex b"
    using True assms(1) by (simp add: readableBytes_eq)
  then have "size_add (readerIndex b) len = readerIndex b + len"
    using buffer_invD[OF assms(1)] by (intro size_add_small) linarith+
  then have "retrieve len b = Inr ?b"
    using True by (simp add: retrieve_def eassert_def)
  moreover have "buffer_inv ?b" using assms(1) le by (simp add: buffer_inv_def)
  moreover have "content ?b = drop len (content b)" by (simp add: content_def drop_slice)
  ultimately show ?thesis by blast
next
  case False
  with assms have len: "len = length (content b)" by (simp add: readableBytes_content)
  then have "retrieve len b = Inr (retrieveAll b)"
    using assms False by (simp add: retrieve_def eassert_def readableBytes_content)
  then show ?thesis using retrieveAll_ok[OF assms(1)] len by simp
qed

lemma retrieve_too_much:
  "buffer_inv b \<Longrightarrow> length (content b) < len \<Longrightarrow> retrieve len b = Inl Assertion_failed"
  by (simp add: retrieve_def eassert_def readableBytes_content)

lemma peeked_bytes:
  assumes "buffer_inv b" and "len \<le> length (content b)"
  shows "slice (peek b) (peek b + len) (storage b) = take len (content b)"
  using assms buffer_invD[OF assms(1)]
  by (simp add: content_def peek_def take_slice readableBytes_content[symmetric] readableBytes_eq)

lemma retrieveAsString_ok:
  assumes "buffer_inv b" and "len \<le> length (content b)"
  shows "\<exists>b'. retrieveAsString len b = Inr (take len (content b), b') \<and> buffer_inv b' \<and>
           content b' = drop len (content b)"
  using retrieve_ok[OF assms] assms
  by (auto simp: retrieveAsString_def eassert_def readableBytes_content peeked_bytes)

subsection \<open>Making space and appending\<close>

text \<open>Growing keeps the indices and the bytes below them.\<close>

lemma makeSpace_grow:
  assumes inv: "buffer_inv b" and len: "len < 2 ^ 63"
    and small: "size_add (writableBytes b) (prependableBytes b) < size_add len kCheapPrepend"
    and need: "writableBytes b < len" and fits: "writerIndex b + len \<le> vector_max"
  shows "\<exists>b'. makeSpace len b = Inr b' \<and> buffer_inv b' \<and> content b' = content b \<and>
           len \<le> writableBytes b' \<and> readerIndex b' = readerIndex b"
proof -
  note i = buffer_invD[OF inv]
  let ?v = "storage b @ replicate (writerIndex b + len - length (storage b)) 0"
  let ?b = "b\<lparr>storage := ?v\<rparr>"
  have sz: "length (storage b) < writerIndex b + len"
    using need inv by (simp add: writableBytes_eq less_diff_conv2 i)
  have add: "size_add (writerIndex b) len = writerIndex b + len"
    using fits using buffer_invD[OF inv] len by (intro size_add_small) linarith+
  have "vector_resize (writerIndex b + len) (storage b) = Inr ?v"
    using fits sz by (simp add: vector_resize_def)
  with small add have mk: "makeSpace len b = Inr ?b" by (simp add: makeSpace_def)
  have inv': "buffer_inv ?b" using inv fits sz by (simp add: buffer_inv_def)
  have "content ?b = content b" using i by (simp add: content_def slice_append_left)
  moreover have "len \<le> writableBytes ?b" using inv' sz by (simp add: writableBytes_eq)
  ultimately show ?thesis using mk inv' by simp
qed

lemma makeSpace_grow_fails:
  assumes inv: "buffer_inv b" and len: "len < 2 ^ 63"
    and small: "size_add (writableBytes b) (prependableBytes b) < size_add len kCheapPrepend"
    and "vector_max < writerIndex b + len"
  shows "makeSpace len b = Inl Length_error"
proof -
  have "size_add (writerIndex b) len = writerIndex b + len"
    using buffer_invD[OF inv] len by (intro size_add_small) linarith+
  then show ?thesis using assms by (simp add: makeSpace_def vector_resize_def)
qed

text \<open>
  Sliding moves the content to offset \<open>kCheapPrepend\<close>; the assertion
  \<open>kCheapPrepend < readerIndex_\<close> of the code holds there.
\<close>

lemma makeSpace_slide:
  assumes inv: "buffer_inv b" and len: "len < 2 ^ 63"
    and large: "\<not> size_add (writableBytes b) (prependableBytes b) < size_add len kCheapPrepend"
    and need: "writableBytes b < len"
  shows "\<exists>b'. makeSpace len b = Inr b' \<and> buffer_inv b' \<and> content b' = content b \<and>
           len \<le> writableBytes b' \<and> length (storage b') = length (storage b)"
proof -
  note i = buffer_invD[OF inv]
  have w: "writableBytes b = length (storage b) - writerIndex b" using inv by (rule writableBytes_eq)
  have "size_add (writableBytes b) (prependableBytes b) = writableBytes b + readerIndex b"
    unfolding prependableBytes_def using i w by (intro size_add_small) linarith+
  moreover have "size_add len kCheapPrepend = len + 8"
    unfolding kCheapPrepend_def using len by (intro size_add_small) simp_all
  ultimately have room: "len + 8 \<le> length (storage b) - writerIndex b + readerIndex b"
    using large w by simp
  then have r: "8 < readerIndex b" using need w by linarith
  define n where "n = writerIndex b - readerIndex b"
  have lc: "length (content b) = n" using i by (simp add: n_def content_def)
  have bound: "8 + n \<le> length (storage b)" using r i by (simp add: n_def)
  then obtain v where v: "blit 8 (content b) (storage b) = Inr v"
    by (auto simp: blit_def lc)
  let ?b = "b\<lparr>storage := v, readerIndex := 8, writerIndex := 8 + n\<rparr>"
  have lv: "length v = length (storage b)" using v by (rule blit_length)
  have inv': "buffer_inv ?b" using inv lv bound by (simp add: buffer_inv_def kCheapPrepend_def)
  have add: "size_add 8 n = 8 + n" using bound i by (intro size_add_small) linarith+
  have c: "content ?b = content b" using blit_slice_new[OF v] lc by (simp add: content_def)
  have rd: "readableBytes b = n" using inv by (simp add: readableBytes_eq n_def)
  have rd': "readableBytes ?b = n" using inv' c lc by (simp add: readableBytes_content)
  have "makeSpace len b = Inr ?b"
    using large r v add rd rd'
    by (simp add: makeSpace_def kCheapPrepend_def content_def eassert_def Let_def)
  moreover have "len \<le> writableBytes ?b"
    using room i lv inv' by (simp add: writableBytes_eq n_def)
  ultimately show ?thesis using inv' c lv by auto
qed

text \<open>The whole of \<open>ensureWritableBytes\<close>: room is made, or the vector cannot grow any further.\<close>

definition out_of_room :: "buffer \<Rightarrow> nat \<Rightarrow> bool" where
  "out_of_room b len \<longleftrightarrow>
     length (storage b) < writerIndex b + len \<and>
     length (storage b) - writerIndex b + readerIndex b < len + kCheapPrepend \<and>
     vector_max < writerIndex b + len"

lemma ensureWritableBytes_cases:
  assumes inv: "buffer_inv b" and len: "len < 2 ^ 63"
  shows "if out_of_room b len then ensureWritableBytes len b = Inl Length_error
         else \<exists>b'. ensureWritableBytes len b = Inr b' \<and> buffer_inv b' \<and> content b' = content b \<and>
                len \<le> writableBytes b'"
proof (cases "writableBytes b < len")
  case False
  then show ?thesis
    using inv buffer_invD[OF inv]
    by (auto simp: ensureWritableBytes_def eassert_def out_of_room_def writableBytes_eq)
next
  case need: True
  note i = buffer_invD[OF inv]
  have "size_add (writableBytes b) (prependableBytes b) = length (storage b) - writerIndex b + readerIndex b"
    unfolding prependableBytes_def writableBytes_eq[OF inv] using i
    by (subst size_add_small) linarith+
  moreover have "size_add len kCheapPrepend = len + kCheapPrepend"
    using len by (intro size_add_small) (simp_all add: kCheapPrepend_def)
  ultimately have cond: "size_add (writableBytes b) (prependableBytes b) < size_add len kCheapPrepend \<longleftrightarrow>
      length (storage b) - writerIndex b + readerIndex b < len + kCheapPrepend" by simp
  have sz: "length (storage b) < writerIndex b + len"
    using need inv i by (simp add: writableBytes_eq)
  consider (slide) "\<not> size_add (writableBytes b) (prependableBytes b) < size_add len kCheapPrepend"
    | (grow) "size_add (writableBytes b) (prependableBytes b) < size_add len kCheapPrepend"
        "writerIndex b + len \<le> vector_max"
    | (fail) "size_add (writableBytes b) (prependableBytes b) < size_add len kCheapPrepend"
        "vector_max < writerIndex b + len"
    by linarith
  then show ?thesis
  proof cases
    case slide
    with makeSpace_slide[OF inv len slide need] need cond show ?thesis
      by (auto simp: ensureWritableBytes_def eassert_def out_of_room_def)
  next
    case grow
    with makeSpace_grow[OF inv len grow(1) need grow(2)] need show ?thesis
      by (auto simp: ensureWritableBytes_def eassert_def out_of_room_def)
  next
    case fail
    with makeSpace_grow_fails[OF inv len fail] need cond sz show ?thesis
      by (simp add: ensureWritableBytes_def out_of_room_def)
  qed
qed

lemma write_in_place:
  assumes inv: "buffer_inv b" and room: "length data \<le> writableBytes b"
  shows "\<exists>v b'. blit (writerIndex b) data (storage b) = Inr v \<and>
           hasWritten (length data) (b\<lparr>storage := v\<rparr>) = Inr b' \<and> buffer_inv b' \<and>
           content b' = content b @ data"
proof -
  note i = buffer_invD[OF inv]
  have fit: "writerIndex b + length data \<le> length (storage b)"
    using room inv i by (simp add: writableBytes_eq)
  then obtain v where v: "blit (writerIndex b) data (storage b) = Inr v"
    by (auto simp: blit_def)
  have lv: "length v = length (storage b)" using v by (rule blit_length)
  let ?b = "b\<lparr>storage := v, writerIndex := writerIndex b + length data\<rparr>"
  have inv1: "buffer_inv (b\<lparr>storage := v\<rparr>)" using inv lv by (simp add: buffer_inv_def)
  have add: "size_add (writerIndex b) (length data) = writerIndex b + length data"
    using fit i by (intro size_add_small) linarith+
  have "hasWritten (length data) (b\<lparr>storage := v\<rparr>) = Inr ?b"
    using add room inv inv1 lv by (simp add: hasWritten_def eassert_def writableBytes_eq)
  moreover have "buffer_inv ?b" using inv lv fit by (simp add: buffer_inv_def)
  moreover have "content ?b = content b @ data"
    using slice_split[of "readerIndex b" "writerIndex b" "writerIndex b + length data" v]
      blit_slice_new[OF v] blit_slice_before[OF v] i
    by (simp add: content_def)
  ultimately show ?thesis using v by auto
qed

lemma append_buf_cases:
  assumes inv: "buffer_inv b" and len: "length data < 2 ^ 63"
  shows "if out_of_room b (length data) then append_buf data b = Inl Length_error
         else \<exists>b'. append_buf data b = Inr b' \<and> buffer_inv b' \<and> content b' = content b @ data"
proof (cases "out_of_room b (length data)")
  case True
  then show ?thesis using ensureWritableBytes_cases[OF inv len] by (simp add: append_buf_def)
next
  case False
  then obtain b1 where b1: "ensureWritableBytes (length data) b = Inr b1" "buffer_inv b1"
    "content b1 = content b" "length data \<le> writableBytes b1"
    using ensureWritableBytes_cases[OF inv len] by auto
  from write_in_place[OF b1(2,4)] b1(1,3) False show ?thesis
    by (auto simp: append_buf_def beginWrite_def)
qed

text \<open>A buffer whose bytes, with the new ones, fit in half the address space never runs out.\<close>

lemma not_out_of_room:
  "writerIndex b + len \<le> vector_max \<Longrightarrow> \<not> out_of_room b len"
  by (simp add: out_of_room_def)

lemma append_buf_Inr:
  "buffer_inv b \<Longrightarrow> length data < 2 ^ 63 \<Longrightarrow> append_buf data b = Inr b' \<Longrightarrow>
    buffer_inv b' \<and> content b' = content b @ data"
  using append_buf_cases[of b data] by (auto split: if_splits)

subsection \<open>Prepending and unwriting\<close>

lemma prepend_ok:
  assumes inv: "buffer_inv b" and len: "length data \<le> readerIndex b"
  shows "\<exists>b'. prepend data b = Inr b' \<and> buffer_inv b' \<and> content b' = data @ content b"
proof -
  note i = buffer_invD[OF inv]
  define r where "r = readerIndex b - length data"
  have r: "size_sub (readerIndex b) (length data) = r"
    unfolding r_def using len i by (intro size_sub_small) linarith+
  have rl: "r + length data = readerIndex b" using len by (simp add: r_def)
  then obtain v where v: "blit r data (storage b) = Inr v" using i by (auto simp: blit_def)
  let ?b = "b\<lparr>storage := v, readerIndex := r\<rparr>"
  have "prepend data b = Inr ?b"
    using len r v by (simp add: prepend_def eassert_def prependableBytes_def)
  moreover have "buffer_inv ?b" using inv blit_length[OF v] rl by (simp add: buffer_inv_def)
  moreover have "content ?b = data @ content b"
    using slice_split[of r "readerIndex b" "writerIndex b" v] i rl
      blit_slice_new[OF v] blit_slice_after[OF v, of "readerIndex b" "writerIndex b"]
    by (simp add: content_def)
  ultimately show ?thesis by blast
qed

lemma unwrite_ok:
  assumes inv: "buffer_inv b" and len: "len \<le> length (content b)"
  shows "\<exists>b'. unwrite len b = Inr b' \<and> buffer_inv b' \<and>
           content b' = take (length (content b) - len) (content b)"
proof -
  note i = buffer_invD[OF inv]
  have lc: "length (content b) = writerIndex b - readerIndex b" using i by (simp add: content_def)
  have "size_sub (writerIndex b) len = writerIndex b - len"
    using len lc i by (intro size_sub_small) linarith+
  moreover have "take (writerIndex b - readerIndex b - len) (content b) =
      slice (readerIndex b) (writerIndex b - len) (storage b)"
    using len lc i take_slice[of "readerIndex b" "writerIndex b - readerIndex b - len" "writerIndex b" "storage b"]
    by (simp add: content_def)
  ultimately show ?thesis
    using len lc inv i
    by (auto simp: unwrite_def eassert_def readableBytes_content buffer_inv_def content_def)
qed

subsection \<open>Integers\<close>

lemma copy_out_ok:
  assumes "buffer_inv b" and "n \<le> length (content b)"
  shows "copy_out n b = Inr (take n (content b))"
  using peeked_bytes[OF assms] assms buffer_invD[OF assms(1)]
  by (simp add: copy_out_def peek_def readableBytes_content[symmetric] readableBytes_eq)

lemma dec8_take: "1 \<le> length xs \<Longrightarrow> dec8 (take 1 xs) = hd (take 1 xs)"
  by (cases xs) (simp_all add: dec8_def)

lemma peekInt_ok:
  assumes "buffer_inv b"
  shows "8 \<le> length (content b) \<Longrightarrow> peekInt64 big b = Inr (dec64 big (take 8 (content b)))"
    and "4 \<le> length (content b) \<Longrightarrow> peekInt32 big b = Inr (dec32 big (take 4 (content b)))"
    and "2 \<le> length (content b) \<Longrightarrow> peekInt16 big b = Inr (dec16 big (take 2 (content b)))"
    and "1 \<le> length (content b) \<Longrightarrow> peekInt8 b = Inr (dec8 (take 1 (content b)))"
  using assms
  by (auto simp: peekInt64_def peekInt32_def peekInt16_def peekInt8_def eassert_def
      readableBytes_content copy_out_ok dec64_def dec32_def dec16_def Let_def
      dec8_take[unfolded One_nat_def])

lemma readInt_ok:
  assumes "buffer_inv b"
  shows "8 \<le> length (content b) \<Longrightarrow>
      \<exists>b'. readInt64 big b = Inr (dec64 big (take 8 (content b)), b') \<and> buffer_inv b' \<and> content b' = drop 8 (content b)"
    and "4 \<le> length (content b) \<Longrightarrow>
      \<exists>b'. readInt32 big b = Inr (dec32 big (take 4 (content b)), b') \<and> buffer_inv b' \<and> content b' = drop 4 (content b)"
    and "2 \<le> length (content b) \<Longrightarrow>
      \<exists>b'. readInt16 big b = Inr (dec16 big (take 2 (content b)), b') \<and> buffer_inv b' \<and> content b' = drop 2 (content b)"
    and "1 \<le> length (content b) \<Longrightarrow>
      \<exists>b'. readInt8 b = Inr (dec8 (take 1 (content b)), b') \<and> buffer_inv b' \<and> content b' = drop 1 (content b)"
  using retrieve_ok[OF assms, of 8] retrieve_ok[OF assms, of 4] retrieve_ok[OF assms, of 2]
    retrieve_ok[OF assms, of 1] peekInt_ok[OF assms]
  by (auto simp: readInt64_def readInt32_def readInt16_def readInt8_def
      retrieveInt64_def retrieveInt32_def retrieveInt16_def retrieveInt8_def)

lemma appendInt_eq:
  "appendInt64 big x b = append_buf (enc64 big x) b" "appendInt32 big y b = append_buf (enc32 big y) b"
  "appendInt16 big z b = append_buf (enc16 big z) b" "appendInt8 w b = append_buf (enc8 w) b"
  by (simp_all add: appendInt64_def appendInt32_def appendInt16_def appendInt8_def enc64_def enc32_def
      enc16_def enc8_def Let_def)

lemma prependInt_eq:
  "prependInt64 big x b = prepend (enc64 big x) b" "prependInt32 big y b = prepend (enc32 big y) b"
  "prependInt16 big z b = prepend (enc16 big z) b" "prependInt8 w b = prepend (enc8 w) b"
  by (simp_all add: prependInt64_def prependInt32_def prependInt16_def prependInt8_def enc64_def enc32_def
      enc16_def enc8_def Let_def)

lemmas codec_lengths = codec64.length_enc codec32.length_enc codec16.length_enc codec8.length_enc
lemmas codec_prefixes = codec64.decode_prefix codec32.decode_prefix codec16.decode_prefix codec8.decode_prefix
lemmas codec_drops = codec64.drop_prefix codec32.drop_prefix codec16.drop_prefix codec8.drop_prefix

text \<open>What is put in front is read back first, by any reader of that many bytes.\<close>

lemma prepend_then_read:
  assumes inv: "buffer_inv b" and room: "length d \<le> readerIndex b"
    and read: "\<And>c. buffer_inv c \<Longrightarrow> length d \<le> length (content c) \<Longrightarrow>
      \<exists>c'. rd c = Inr (dc (take (length d) (content c)), c') \<and> buffer_inv c' \<and>
        content c' = drop (length d) (content c)"
  shows "\<exists>b1 b2. prepend d b = Inr b1 \<and> content b1 = d @ content b \<and> rd b1 = Inr (dc d, b2) \<and>
           buffer_inv b2 \<and> content b2 = content b"
proof -
  obtain b1 where b1: "prepend d b = Inr b1" "buffer_inv b1" "content b1 = d @ content b"
    using prepend_ok[OF inv room] by blast
  with read[OF b1(2)] show ?thesis by auto
qed

subsection \<open>Searching\<close>

lemma search_le: "search pat xs \<le> length xs"
  by (induction xs) auto

lemma search_found: "search pat xs < length xs \<Longrightarrow> take (length pat) (drop (search pat xs) xs) = pat"
  by (induction xs) (auto split: if_splits)

lemma search_first: "i < search pat xs \<Longrightarrow> take (length pat) (drop i xs) \<noteq> pat"
proof (induction xs arbitrary: i)
  case Nil
  then show ?case by simp
next
  case (Cons x xs)
  then show ?case by (cases i) (auto split: if_splits)
qed

lemma memchr_Some: "memchr c xs = Some k \<Longrightarrow> k < length xs \<and> xs ! k = c \<and> (\<forall>i<k. xs ! i \<noteq> c)"
proof (induction xs arbitrary: k)
  case Nil
  then show ?case by simp
next
  case (Cons x xs)
  show ?case
  proof (cases "x = c")
    case True
    with Cons.prems show ?thesis by auto
  next
    case False
    with Cons.prems obtain j where j: "memchr c xs = Some j" "k = Suc j" by auto
    with Cons.IH[OF j(1)] False show ?thesis by (auto simp: nth_Cons split: nat.splits)
  qed
qed

lemma memchr_None: "memchr c xs = None \<longleftrightarrow> c \<notin> set xs"
  by (induction xs) auto

section \<open>The byte queue as an interface\<close>

text \<open>
  What a client of a byte queue relies on: \<open>put\<close> adds at the back, \<open>discard n\<close> drops at the
  front, \<open>fetch n\<close> also returns what it drops, \<open>size\<close> counts, and each keeps the invariant.
\<close>

datatype queue_op = Put "byte list" | Fetch nat | Discard nat

fun run_queue :: "(byte list \<Rightarrow> 'b \<Rightarrow> 'b res) \<Rightarrow> (nat \<Rightarrow> 'b \<Rightarrow> (byte list \<times> 'b) res) \<Rightarrow>
    (nat \<Rightarrow> 'b \<Rightarrow> 'b res) \<Rightarrow> queue_op list \<Rightarrow> 'b \<Rightarrow> (byte list \<times> 'b) res" where
  "run_queue put fetch discard [] b = Inr ([], b)"
| "run_queue put fetch discard (Put d # ops) b =
     ebind (put d b) (run_queue put fetch discard ops)"
| "run_queue put fetch discard (Fetch n # ops) b =
     ebind (fetch n b) (\<lambda>(out, b'). ebind (run_queue put fetch discard ops b')
       (\<lambda>(rest, b''). Inr (out @ rest, b'')))"
| "run_queue put fetch discard (Discard n # ops) b =
     ebind (discard n b) (run_queue put fetch discard ops)"

text \<open>The abstract queue, on which the same operations are list operations.\<close>

fun run_list :: "queue_op list \<Rightarrow> byte list \<Rightarrow> (byte list \<times> byte list) res" where
  "run_list [] xs = Inr ([], xs)"
| "run_list (Put d # ops) xs = run_list ops (xs @ d)"
| "run_list (Fetch n # ops) xs =
     (if length xs < n then Inl Assertion_failed
      else ebind (run_list ops (drop n xs)) (\<lambda>(rest, ys). Inr (take n xs @ rest, ys)))"
| "run_list (Discard n # ops) xs =
     (if length xs < n then Inl Assertion_failed else run_list ops (drop n xs))"

fun puts :: "queue_op list \<Rightarrow> byte list" where
  "puts [] = []"
| "puts (Put d # ops) = d @ puts ops"
| "puts (_ # ops) = puts ops"

definition small_puts :: "queue_op list \<Rightarrow> bool" where
  "small_puts ops \<longleftrightarrow> (\<forall>op \<in> set ops. case op of Put d \<Rightarrow> length d < 2 ^ 63 | _ \<Rightarrow> True)"

locale byte_queue =
  fixes inv :: "'b \<Rightarrow> bool"
    and abs :: "'b \<Rightarrow> byte list"
    and size :: "'b \<Rightarrow> nat"
    and put :: "byte list \<Rightarrow> 'b \<Rightarrow> 'b res"
    and fetch :: "nat \<Rightarrow> 'b \<Rightarrow> (byte list \<times> 'b) res"
    and discard :: "nat \<Rightarrow> 'b \<Rightarrow> 'b res"
  assumes size_abs: "inv b \<Longrightarrow> size b = length (abs b)"
    and put_abs: "inv b \<Longrightarrow> length d < 2 ^ 63 \<Longrightarrow> put d b = Inr b' \<Longrightarrow> inv b' \<and> abs b' = abs b @ d"
    and put_fault: "inv b \<Longrightarrow> length d < 2 ^ 63 \<Longrightarrow> put d b = Inl e \<Longrightarrow> e = Length_error"
    and fetch_abs: "inv b \<Longrightarrow> n \<le> length (abs b) \<Longrightarrow>
      \<exists>b'. fetch n b = Inr (take n (abs b), b') \<and> inv b' \<and> abs b' = drop n (abs b)"
    and fetch_fault: "inv b \<Longrightarrow> length (abs b) < n \<Longrightarrow> fetch n b = Inl Assertion_failed"
    and discard_abs: "inv b \<Longrightarrow> n \<le> length (abs b) \<Longrightarrow>
      \<exists>b'. discard n b = Inr b' \<and> inv b' \<and> abs b' = drop n (abs b)"
    and discard_fault: "inv b \<Longrightarrow> length (abs b) < n \<Longrightarrow> discard n b = Inl Assertion_failed"
begin

text \<open>A run on the queue is the run on its abstraction, unless the vector cannot grow.\<close>

lemma run_refines:
  "inv b \<Longrightarrow> small_puts ops \<Longrightarrow>
    (case run_queue put fetch discard ops b of
       Inr (out, b') \<Rightarrow> inv b' \<and> run_list ops (abs b) = Inr (out, abs b')
     | Inl e \<Rightarrow> e = Length_error \<or> run_list ops (abs b) = Inl e)"
proof (induction ops arbitrary: b)
  case Nil
  then show ?case by simp
next
  case (Cons op ops)
  have sp: "small_puts ops" using Cons.prems(2) by (simp add: small_puts_def)
  show ?case
  proof (cases op)
    case (Put d)
    then have d: "length d < 2 ^ 63" using Cons.prems(2) by (simp add: small_puts_def)
    show ?thesis
    proof (cases "put d b")
      case (Inl e)
      then show ?thesis using put_fault[OF Cons.prems(1) d] Put by simp
    next
      case (Inr b1)
      with put_abs[OF Cons.prems(1) d] Cons.IH[OF _ sp, of b1] Put show ?thesis
        by (simp split: sum.splits prod.splits)
    qed
  next
    case (Fetch n)
    show ?thesis
    proof (cases "n \<le> length (abs b)")
      case True
      then obtain b1 where b1: "fetch n b = Inr (take n (abs b), b1)" "inv b1" "abs b1 = drop n (abs b)"
        using fetch_abs[OF Cons.prems(1)] by blast
      from Cons.IH[OF b1(2) sp] b1 Fetch True show ?thesis
        by (auto split: sum.splits simp: fault_simps)
    next
      case False
      then show ?thesis using fetch_fault[OF Cons.prems(1)] Fetch by simp
    qed
  next
    case (Discard n)
    show ?thesis
    proof (cases "n \<le> length (abs b)")
      case True
      then obtain b1 where b1: "discard n b = Inr b1" "inv b1" "abs b1 = drop n (abs b)"
        using discard_abs[OF Cons.prems(1)] by blast
      from Cons.IH[OF b1(2) sp] b1 Discard True show ?thesis by (auto split: sum.splits)
    next
      case False
      then show ?thesis using discard_fault[OF Cons.prems(1)] Discard by simp
    qed
  qed
qed

text \<open>Flushing a prefix to a wire moves the border between what is sent and what is queued.\<close>

lemma flush:
  assumes "inv b" and "discard n b = Inr b'"
  shows "n \<le> size b \<and> inv b' \<and> take n (abs b) @ abs b' = abs b"
proof -
  have "n \<le> length (abs b)"
    using assms discard_fault[OF assms(1), of n] by (cases "n \<le> length (abs b)") auto
  with discard_abs[OF assms(1) this] assms show ?thesis by (auto simp: size_abs)
qed

end

interpretation bq: byte_queue buffer_inv content readableBytes append_buf retrieveAsString retrieve
proof
  fix b b' :: buffer and d :: "byte list" and e
  assume inv: "buffer_inv b"
  show "readableBytes b = length (content b)" using inv by (rule readableBytes_content)
  assume d: "length d < 2 ^ 63"
  show "append_buf d b = Inr b' \<Longrightarrow> buffer_inv b' \<and> content b' = content b @ d"
    using append_buf_Inr[OF inv d] .
  show "append_buf d b = Inl e \<Longrightarrow> e = Length_error"
    using append_buf_cases[OF inv d] by (auto split: if_splits)
next
  fix b :: buffer and n
  assume inv: "buffer_inv b"
  show "n \<le> length (content b) \<Longrightarrow>
      \<exists>b'. retrieveAsString n b = Inr (take n (content b), b') \<and> buffer_inv b' \<and> content b' = drop n (content b)"
    using retrieveAsString_ok[OF inv] .
  show "n \<le> length (content b) \<Longrightarrow>
      \<exists>b'. retrieve n b = Inr b' \<and> buffer_inv b' \<and> content b' = drop n (content b)"
    using retrieve_ok[OF inv] .
  show "length (content b) < n \<Longrightarrow> retrieveAsString n b = Inl Assertion_failed"
    using inv by (simp add: retrieveAsString_def eassert_def readableBytes_content)
  show "length (content b) < n \<Longrightarrow> retrieve n b = Inl Assertion_failed"
    using retrieve_too_much[OF inv] .
qed

section \<open>Properties\<close>

definition sample_buffer :: buffer where
  "sample_buffer = \<lparr>storage = replicate 12 0, readerIndex = 8, writerIndex = 8\<rparr>"

lemma sample_buffer_inv: "buffer_inv sample_buffer"
  by (simp add: sample_buffer_def buffer_inv_def kCheapPrepend_def vector_max_def)

text \<open>C15: Appending to a well-formed buffer succeeds, keeps it well-formed and adds exactly the
  given bytes behind the readable ones, on every path of \<open>makeSpace\<close> (in place, sliding the content
  to the front, growing the vector); the only failure is the vector exceeding its maximal size, and
  it happens exactly when neither sliding nor growing gives room.\<close>

theorem append_functional:
  assumes "buffer_inv b" and "length data < 2 ^ 63"
  shows "if out_of_room b (length data) then append_buf data b = Inl Length_error
         else \<exists>b'. append_buf data b = Inr b' \<and> buffer_inv b' \<and> content b' = content b @ data"
  using assms by (rule append_buf_cases)

theorem append_functional_witness:
  "\<exists>b'. append_buf [1, 2, 3, 4, 5, 6] sample_buffer = Inr b' \<and> buffer_inv b' \<and>
     content b' = content sample_buffer @ [1, 2, 3, 4, 5, 6]"
  using append_functional[OF sample_buffer_inv, of "[1, 2, 3, 4, 5, 6]"]
  by (simp add: out_of_room_def sample_buffer_def kCheapPrepend_def vector_max_def)

text \<open>C14: The buffer implements a byte queue.  Any sequence of appends, retrievals and discards on a
  well-formed buffer yields the bytes, the failures and the final content that the same sequence
  yields on the plain list of its readable bytes, except that the vector may be unable to grow.\<close>

theorem buffer_refines_queue:
  assumes "buffer_inv b" and "small_puts ops"
  shows "case run_queue append_buf retrieveAsString retrieve ops b of
           Inr (out, b') \<Rightarrow> buffer_inv b' \<and> run_list ops (content b) = Inr (out, content b')
         | Inl e \<Rightarrow> e = Length_error \<or> run_list ops (content b) = Inl e"
  using assms by (rule bq.run_refines)

theorem buffer_refines_queue_witness:
  "case run_queue append_buf retrieveAsString retrieve [Put [1, 2, 3], Fetch 2, Put [4], Discard 1] sample_buffer of
     Inr (out, b') \<Rightarrow> buffer_inv b' \<and>
       run_list [Put [1, 2, 3], Fetch 2, Put [4], Discard 1] (content sample_buffer) = Inr (out, content b')
   | Inl e \<Rightarrow> e = Length_error \<or>
       run_list [Put [1, 2, 3], Fetch 2, Put [4], Discard 1] (content sample_buffer) = Inl e"
  by (rule buffer_refines_queue[OF sample_buffer_inv]) (simp add: small_puts_def)

text \<open>C17: A length or type field put in front of a message with \<open>prependInt64/32/16/8\<close> lies there in
  network byte order whatever the byte order of the host, and \<open>readInt64/32/16/8\<close> gives it back and
  leaves the message as it was.\<close>

theorem prepend_read_roundtrip:
  assumes "buffer_inv b" and "8 \<le> readerIndex b"
  shows "(\<exists>b1 b2. prependInt64 big x b = Inr b1 \<and> content b1 = be_bytes 8 (unat x) @ content b \<and>
            readInt64 big b1 = Inr (x, b2) \<and> buffer_inv b2 \<and> content b2 = content b) \<and>
         (\<exists>b1 b2. prependInt32 big y b = Inr b1 \<and> content b1 = be_bytes 4 (unat y) @ content b \<and>
            readInt32 big b1 = Inr (y, b2) \<and> buffer_inv b2 \<and> content b2 = content b) \<and>
         (\<exists>b1 b2. prependInt16 big z b = Inr b1 \<and> content b1 = be_bytes 2 (unat z) @ content b \<and>
            readInt16 big b1 = Inr (z, b2) \<and> buffer_inv b2 \<and> content b2 = content b) \<and>
         (\<exists>b1 b2. prependInt8 w b = Inr b1 \<and> content b1 = w # content b \<and>
            readInt8 b1 = Inr (w, b2) \<and> buffer_inv b2 \<and> content b2 = content b)"
proof (intro conjI)
  have le: "n \<le> 8 \<Longrightarrow> n \<le> readerIndex b" for n using assms(2) by simp
  note pr = prepend_then_read[OF assms(1)]
  show "\<exists>b1 b2. prependInt64 big x b = Inr b1 \<and> content b1 = be_bytes 8 (unat x) @ content b \<and>
            readInt64 big b1 = Inr (x, b2) \<and> buffer_inv b2 \<and> content b2 = content b"
    using pr[of "enc64 big x" "readInt64 big" "dec64 big"] readInt_ok(1)[of _ big]
    by (simp add: prependInt_eq codec_lengths codec64.decode_enc enc64_be[of big, symmetric] le)
  show "\<exists>b1 b2. prependInt32 big y b = Inr b1 \<and> content b1 = be_bytes 4 (unat y) @ content b \<and>
            readInt32 big b1 = Inr (y, b2) \<and> buffer_inv b2 \<and> content b2 = content b"
    using pr[of "enc32 big y" "readInt32 big" "dec32 big"] readInt_ok(2)[of _ big]
    by (simp add: prependInt_eq codec_lengths codec32.decode_enc enc32_be[of big, symmetric] le)
  show "\<exists>b1 b2. prependInt16 big z b = Inr b1 \<and> content b1 = be_bytes 2 (unat z) @ content b \<and>
            readInt16 big b1 = Inr (z, b2) \<and> buffer_inv b2 \<and> content b2 = content b"
    using pr[of "enc16 big z" "readInt16 big" "dec16 big"] readInt_ok(3)[of _ big]
    by (simp add: prependInt_eq codec_lengths codec16.decode_enc enc16_be[of big, symmetric] le)
  show "\<exists>b1 b2. prependInt8 w b = Inr b1 \<and> content b1 = w # content b \<and>
            readInt8 b1 = Inr (w, b2) \<and> buffer_inv b2 \<and> content b2 = content b"
    using pr[of "enc8 w" readInt8 dec8] readInt_ok(4)
    by (simp add: prependInt_eq enc8_def dec8_def le)
qed

theorem prepend_read_roundtrip_witness:
  "\<exists>b1 b2. prependInt64 True 5 sample_buffer = Inr b1 \<and>
     content b1 = be_bytes 8 5 @ content sample_buffer \<and>
     readInt64 True b1 = Inr (5, b2) \<and> buffer_inv b2 \<and> content b2 = content sample_buffer"
  using prepend_read_roundtrip[OF sample_buffer_inv, of True 5]
  by (simp add: sample_buffer_def)

text \<open>What \<open>readv(2)\<close> guarantees: an error, or as many bytes as it says, within the buffers given.\<close>

definition readv_ok :: "(nat list \<Rightarrow> int \<times> byte list \<times> 'e) \<Rightarrow> bool" where
  "readv_ok rv \<longleftrightarrow> (\<forall>iov. case rv iov of (n, bytes, _) \<Rightarrow>
      n < 0 \<or> (length bytes = nat n \<and> nat n \<le> sum_list iov))"

text \<open>C16: \<open>readFd\<close> delivers every byte \<open>readv(2)\<close> returns behind the bytes already readable, in
  order, whether they land in the vector alone or spill into the stack buffer; an error leaves the
  buffer untouched and hands \<open>errno\<close> to the caller.\<close>

theorem readFd_delivers:
  assumes "buffer_inv b" and "readv_ok rv" and "length (storage b) + 2 * extrabuf_size \<le> vector_max"
  shows "\<exists>n err b' bytes e. readFd rv b = Inr (n, err, b') \<and> buffer_inv b' \<and>
           rv (if writableBytes b < extrabuf_size then [writableBytes b, extrabuf_size] else [writableBytes b])
             = (n, bytes, e) \<and>
           (if n < 0 then b' = b \<and> err = Some e else err = None \<and> content b' = content b @ bytes)"
proof -
  let ?iov = "if writableBytes b < extrabuf_size then [writableBytes b, extrabuf_size] else [writableBytes b]"
  let ?w = "writableBytes b"
  obtain n bytes e where rv: "rv ?iov = (n, bytes, e)" by (cases "rv ?iov") auto
  note i = buffer_invD[OF assms(1)]
  have w: "?w = length (storage b) - writerIndex b" using assms(1) by (rule writableBytes_eq)
  show ?thesis
  proof (cases "n < 0")
    case True
    then show ?thesis using rv assms(1) by (simp add: readFd_def Let_def)
  next
    case False
    with rv assms(2) have lb: "length bytes = nat n" and sum: "nat n \<le> sum_list ?iov"
      by (auto simp: readv_ok_def dest!: spec[where x = "?iov"])
    have tk: "length (take ?w bytes) \<le> ?w" by simp
    obtain v b1 where v: "blit (writerIndex b) (take ?w bytes) (storage b) = Inr v"
      and b1: "hasWritten (length (take ?w bytes)) (b\<lparr>storage := v\<rparr>) = Inr b1" "buffer_inv b1"
        "content b1 = content b @ take ?w bytes"
      using write_in_place[OF assms(1) tk] by blast
    have b1': "b1 = b\<lparr>storage := v, writerIndex := size_add (writerIndex b) (length (take ?w bytes))\<rparr>"
      using b1(1) by (simp add: hasWritten_def fault_simps)
    show ?thesis
    proof (cases "nat n \<le> ?w")
      case True
      then have "readFd rv b = Inr (n, None, b1)" and "take ?w bytes = bytes"
        using rv v False b1' lb by (simp_all add: readFd_def Let_def)
      then show ?thesis using b1 rv False by simp
    next
      case spill: False
      let ?rest = "take (nat n - ?w) (drop ?w bytes)"
      have rest: "take ?w bytes @ ?rest = bytes" and lt: "length (take ?w bytes) = ?w"
        using spill lb by simp_all
      have "nat n \<le> ?w + extrabuf_size" using sum spill by (auto split: if_splits)
      then have lr: "length ?rest \<le> extrabuf_size" by simp
      have lv: "length v = length (storage b)" using v by (rule blit_length)
      have "size_add (writerIndex b) ?w = length v"
        using i w lv by (subst size_add_small) linarith+
      then have b1eq: "b\<lparr>storage := v, writerIndex := length v\<rparr> = b1" using b1' lt by simp
      have "writerIndex b1 + length ?rest \<le> vector_max"
        using b1eq[symmetric] lv lr assms(3) by simp
      then obtain b2 where b2: "append_buf ?rest b1 = Inr b2" "buffer_inv b2" "content b2 = content b1 @ ?rest"
        using append_buf_cases[OF b1(2), of ?rest] not_out_of_room[of b1 "length ?rest"]
        by (auto simp: vector_max_def)
      have "readFd rv b = Inr (n, None, b2)"
        using rv v False spill b1eq b2(1) by (simp add: readFd_def Let_def)
      then show ?thesis using b2 b1(3) rest rv False by simp
    qed
  qed
qed

theorem readFd_delivers_witness:
  "\<exists>n err b' bytes e. readFd (\<lambda>iov. (6, [1, 2, 3, 4, 5, 6], ())) sample_buffer = Inr (n, err, b') \<and>
     buffer_inv b' \<and> (n, bytes, e) = (6, [1, 2, 3, 4, 5, 6], ()) \<and>
     (if n < 0 then b' = sample_buffer \<and> err = Some e else err = None \<and> content b' = content sample_buffer @ bytes)"
proof -
  let ?rv = "\<lambda>iov::nat list. (if 6 \<le> sum_list iov then (6::int, [1, 2, 3, 4, 5, 6], ()) else (-1, [], ()))"
  have "readv_ok ?rv" by (auto simp: readv_ok_def)
  then have "\<exists>n err b' bytes e. readFd ?rv sample_buffer = Inr (n, err, b') \<and> buffer_inv b' \<and>
      ?rv [4, extrabuf_size] = (n, bytes, e) \<and>
      (if n < 0 then b' = sample_buffer \<and> err = Some e else err = None \<and> content b' = content sample_buffer @ bytes)"
    using readFd_delivers[OF sample_buffer_inv, of ?rv]
    by (simp add: sample_buffer_def vector_max_def extrabuf_size_def writableBytes_def size_sub_def)
  moreover have "readFd ?rv sample_buffer = readFd (\<lambda>iov. (6, [1, 2, 3, 4, 5, 6], ())) sample_buffer"
    by (simp add: readFd_def extrabuf_size_def writableBytes_def sample_buffer_def size_sub_def)
  ultimately show ?thesis by (auto simp: extrabuf_size_def)
qed

text \<open>\<open>findCRLF\<close> points at the first line end in the readable bytes, inside them, and returns a
  null pointer exactly when they contain none.\<close>

lemma findCRLF_first:
  assumes "buffer_inv b"
  shows "case findCRLF b of
      Some k \<Rightarrow> readerIndex b \<le> k \<and> k + 2 \<le> writerIndex b \<and>
        take 2 (drop (k - readerIndex b) (content b)) = kCRLF \<and>
        (\<forall>i < k - readerIndex b. take 2 (drop i (content b)) \<noteq> kCRLF)
    | None \<Rightarrow> \<forall>i. take 2 (drop i (content b)) \<noteq> kCRLF"
proof -
  let ?c = "content b" and ?k = "search kCRLF (content b)"
  have lc: "length ?c = writerIndex b - readerIndex b" and le: "readerIndex b \<le> writerIndex b"
    using buffer_invD[OF assms] by (simp_all add: content_def)
  have two: "length kCRLF = 2" by (simp add: kCRLF_def)
  have find: "findCRLF b = (if readerIndex b + ?k = writerIndex b then None else Some (readerIndex b + ?k))"
    by (simp add: findCRLF_def peek_def beginWrite_def content_def Let_def)
  have none: "take 2 (drop i ?c) \<noteq> kCRLF" if "length ?c \<le> i" for i
    using that by (simp add: kCRLF_def)
  show ?thesis
  proof (cases "readerIndex b + ?k = writerIndex b")
    case True
    then have "?k = length ?c" using lc by simp
    then have "take 2 (drop i ?c) \<noteq> kCRLF" for i
      using search_first[of i kCRLF ?c] none[of i] two by (cases "i < length ?c") auto
    then show ?thesis using find True by simp
  next
    case False
    then have lt: "?k < length ?c" using search_le[of kCRLF ?c] lc le by linarith
    have found: "take 2 (drop ?k ?c) = kCRLF" using search_found[OF lt] two by simp
    then have "2 \<le> length (drop ?k ?c)" by (metis length_take min.cobounded1 two)
    then have "readerIndex b + ?k + 2 \<le> writerIndex b" using lc lt by simp
    then show ?thesis using find False found search_first[of _ kCRLF ?c] two by simp
  qed
qed

lemma findCRLF_first_witness:
  "findCRLF (\<lparr>storage = [0,0,0,0,0,0,0,0, 0x47, 0x0D, 0x0D, 0x0A], readerIndex = 8, writerIndex = 12\<rparr>) = Some 10 \<and>
   take 2 (drop 2 (content (\<lparr>storage = [0,0,0,0,0,0,0,0, 0x47, 0x0D, 0x0D, 0x0A], readerIndex = 8, writerIndex = 12\<rparr>))) = kCRLF"
proof -
  let ?b = "\<lparr>storage = [0,0,0,0,0,0,0,0, 0x47, 0x0D, 0x0D, 0x0A], readerIndex = 8, writerIndex = 12\<rparr>"
  have "buffer_inv ?b" by (simp add: buffer_inv_def kCheapPrepend_def vector_max_def)
  moreover have find: "findCRLF ?b = Some 10"
    by (simp add: findCRLF_def peek_def beginWrite_def slice_def kCRLF_def)
  ultimately show ?thesis using findCRLF_first[of ?b] by simp
qed

end
