(* ===== verification/InetAddress.thy ===== *)
theory InetAddress
  imports ByteOrder
begin

text \<open>
  IPv4 endpoints: the class \<open>InetAddress\<close> (InetAddress.cpp) over \<open>struct sockaddr_in\<close>, and
  the printing and parsing helpers of \<open>SocketOps.cpp\<close> it uses (\<open>toIp\<close>, \<open>toIpPort\<close>,
  \<open>fromIpPort\<close>).  The address and the port of the structure are in network byte order;
  \<open>big\<close> is the byte order of the host.  \<open>inet_ntop\<close> is the dotted decimal of the four
  address bytes in memory; \<open>inet_pton\<close> is a parameter that may reject its input.
\<close>

section \<open>The address structure\<close>

record sockaddr_in =
  sin_family :: "16 word"
  sin_port :: "16 word"
  s_addr :: "32 word"

definition AF_INET :: "16 word" where "AF_INET = 2"
definition AF_INET6 :: "16 word" where "AF_INET6 = 10"
definition INADDR_ANY :: "32 word" where "INADDR_ANY = 0"
definition INET_ADDRSTRLEN :: nat where "INET_ADDRSTRLEN = 16"

definition zero_addr :: sockaddr_in where
  "zero_addr = \<lparr>sin_family = 0, sin_port = 0, s_addr = 0\<rparr>"

section \<open>Printing\<close>

definition dotted :: "byte list \<Rightarrow> string" where
  "dotted bs = (case map (dec \<circ> unat) bs of
      [a, b, c, d] \<Rightarrow> a @ ''.'' @ b @ ''.'' @ c @ ''.'' @ d
    | _ \<Rightarrow> [])"

definition inet_ntop :: "bool \<Rightarrow> 32 word \<Rightarrow> string" where
  "inet_ntop big a = dotted (mem_image big 4 (unat a))"

text \<open>
  \<open>toIp\<close> writes nothing for a family other than \<open>AF_INET\<close>: \<open>None\<close> is then a buffer that
  still holds indeterminate bytes.
\<close>

definition toIp :: "bool \<Rightarrow> nat \<Rightarrow> sockaddr_in \<Rightarrow> string option res" where
  "toIp big bufsize addr =
     (if sin_family addr = AF_INET
      then eassert (INET_ADDRSTRLEN \<le> bufsize) (Inr (Some (inet_ntop big (s_addr addr))))
      else Inr None)"

text \<open>\<open>snprintf(buf + end, size - end, ":%u", port)\<close> keeps at most \<open>size - end - 1\<close> characters.\<close>

definition toIpPort :: "bool \<Rightarrow> nat \<Rightarrow> sockaddr_in \<Rightarrow> string res" where
  "toIpPort big bufsize addr =
     ebind (toIp big bufsize addr) (\<lambda>ip. case ip of
        None \<Rightarrow> Inl Out_of_bounds
      | Some s \<Rightarrow>
         (let end' = length s; port = networkToHost16 big (sin_port addr)
          in eassert (end' < bufsize)
               (Inr (s @ take (bufsize - end' - 1) ('':'' @ dec (unat port))))))"

section \<open>Construction\<close>

definition fromIpPort :: "bool \<Rightarrow> (string \<Rightarrow> 32 word option) \<Rightarrow> string \<Rightarrow> 16 word \<Rightarrow> sockaddr_in \<Rightarrow> sockaddr_in" where
  "fromIpPort big inet_pton ip port addr =
     (let addr1 = addr\<lparr>sin_family := AF_INET, sin_port := hostToNetwork16 big port\<rparr>
      in case inet_pton ip of None \<Rightarrow> addr1 | Some a \<Rightarrow> addr1\<lparr>s_addr := a\<rparr>)"

definition InetAddress_port :: "bool \<Rightarrow> 16 word \<Rightarrow> sockaddr_in" where
  "InetAddress_port big port =
     zero_addr\<lparr>sin_family := AF_INET, s_addr := hostToNetwork32 big INADDR_ANY,
       sin_port := hostToNetwork16 big port\<rparr>"

definition InetAddress_cstr :: "bool \<Rightarrow> (string \<Rightarrow> 32 word option) \<Rightarrow> string \<Rightarrow> 16 word \<Rightarrow> sockaddr_in" where
  "InetAddress_cstr big inet_pton ip port = fromIpPort big inet_pton ip port zero_addr"

text \<open>
  The constructor from a \<open>std::string\<close> builds an unnamed temporary and drops it; the member
  keeps the bytes the storage held before, here \<open>indeterminate\<close>.
\<close>

definition InetAddress_string ::
    "bool \<Rightarrow> (string \<Rightarrow> 32 word option) \<Rightarrow> sockaddr_in \<Rightarrow> string \<Rightarrow> 16 word \<Rightarrow> sockaddr_in" where
  "InetAddress_string big inet_pton indeterminate ip port =
     (let temporary = InetAddress_cstr big inet_pton ip port in indeterminate)"

definition InetAddress_addr :: "sockaddr_in \<Rightarrow> sockaddr_in" where
  "InetAddress_addr addr = addr"

definition setSockAddr :: "sockaddr_in \<Rightarrow> sockaddr_in \<Rightarrow> sockaddr_in" where
  "setSockAddr addr self = addr"

definition getSockAddr :: "sockaddr_in \<Rightarrow> sockaddr_in" where
  "getSockAddr self = self"

definition InetAddress_toIpPort :: "bool \<Rightarrow> sockaddr_in \<Rightarrow> string res" where
  "InetAddress_toIpPort big self = toIpPort big 32 self"

section \<open>Lemmas\<close>

lemma unat_inject [simp]: "unat (a :: 'a::len word) = unat b \<longleftrightarrow> a = b"
  by (simp add: word_eq_iff_unsigned[where ?'a = nat])

lemma four_bytes: "length bs = 4 \<Longrightarrow> \<exists>a b c d. bs = [a, b, c, d]"
  by (auto simp: length_Suc_conv numeral_eq_Suc)

lemma dec_byte_length: "length (dec (unat (b :: byte))) \<le> 3"
  using length_dec_bound[of "unat b" 3] unat_byte_bound[of b] by simp

lemma dec_port_length: "length (dec (unat (p :: 16 word))) \<le> 5"
proof -
  have "unat p < 10 ^ 5" using unsigned_less[where ?'a = nat, of p] by simp
  then show ?thesis using length_dec_bound[of "unat p" 5] by simp
qed

lemma dotted_bytes:
  "dotted [a, b, c, d] =
    dec (unat a) @ ''.'' @ dec (unat b) @ ''.'' @ dec (unat c) @ ''.'' @ dec (unat d)"
  by (simp add: dotted_def)

lemma length_mem_image [simp]: "length (mem_image big n x) = n"
  by (simp add: mem_image_def)

lemma inet_ntop_length: "length (inet_ntop big a) \<le> 15"
proof -
  obtain b0 b1 b2 b3 where b: "mem_image big 4 (unat a) = [b0, b1, b2, b3]"
    using four_bytes[of "mem_image big 4 (unat a)"] by auto
  show ?thesis
    using dec_byte_length[of b0] dec_byte_length[of b1] dec_byte_length[of b2] dec_byte_length[of b3]
    by (simp add: inet_ntop_def b dotted_bytes)
qed

text \<open>The 32 bytes of \<open>InetAddress::toIpPort\<close> always suffice: nothing is cut and no assertion fails.\<close>

lemma toIpPort_full:
  assumes "sin_family addr = AF_INET"
  shows "InetAddress_toIpPort big addr =
    Inr (inet_ntop big (s_addr addr) @ '':'' @ dec (unat (networkToHost16 big (sin_port addr))))"
proof -
  have "length (inet_ntop big (s_addr addr)) \<le> 15" by (rule inet_ntop_length)
  moreover have "length (dec (unat (networkToHost16 big (sin_port addr)))) \<le> 5"
    by (rule dec_port_length)
  ultimately show ?thesis
    using assms by (simp add: InetAddress_toIpPort_def toIpPort_def toIp_def eassert_def INET_ADDRSTRLEN_def)
qed

lemma ntoh_hton16: "networkToHost16 big (hostToNetwork16 big p) = p"
  using codec16.decode_enc[of big p] unsigned_less[where ?'a = nat, of p]
    bswap_bound[of 2 "unat p"]
  by (simp add: networkToHost16_def hostToNetwork16_def unat_of_nat bswap_bswap)

subsection \<open>Addresses print injectively\<close>

fun split_at :: "char \<Rightarrow> string \<Rightarrow> string list" where
  "split_at sep [] = [[]]"
| "split_at sep (c # cs) =
     (if c = sep then [] # split_at sep cs
      else case split_at sep cs of [] \<Rightarrow> [[c]] | w # ws \<Rightarrow> (c # w) # ws)"

lemma split_at_word: "sep \<notin> set w \<Longrightarrow> split_at sep (w @ sep # rest) = w # split_at sep rest"
  by (induction w) auto

lemma split_at_last: "sep \<notin> set w \<Longrightarrow> split_at sep w = [w]"
  by (induction w) auto

lemma dec_no_sep: "c \<notin> set ''0123456789'' \<Longrightarrow> c \<notin> set (dec n)"
  using dec_digits[of n] by blast

lemma dotted_inject:
  assumes "length bs = 4" "length cs = 4" and "dotted bs = dotted cs"
  shows "bs = cs"
proof -
  obtain b0 b1 b2 b3 where b: "bs = [b0, b1, b2, b3]" using four_bytes[OF assms(1)] by auto
  obtain c0 c1 c2 c3 where c: "cs = [c0, c1, c2, c3]" using four_bytes[OF assms(2)] by auto
  have nodot: "CHR ''.'' \<notin> set (dec n)" for n by (rule dec_no_sep) simp
  have "split_at (CHR ''.'') (dotted [a0, a1, a2, a3]) = map (dec \<circ> unat) [a0, a1, a2, a3]"
    for a0 a1 a2 a3
    by (simp add: dotted_bytes split_at_word split_at_last nodot)
  then have "map (dec \<circ> unat) bs = map (dec \<circ> unat) cs" using assms(3) b c by metis
  then show ?thesis by (simp add: b c)
qed

lemma mem_image_inject: "x < 256 ^ n \<Longrightarrow> y < 256 ^ n \<Longrightarrow> mem_image big n x = mem_image big n y \<Longrightarrow> x = y"
  by (metis be_value_be_bytes le_value_le_bytes mem_image_def mod_less)

lemma inet_ntop_inject: "inet_ntop big a = inet_ntop big b \<Longrightarrow> a = b"
proof -
  assume "inet_ntop big a = inet_ntop big b"
  then have "mem_image big 4 (unat a) = mem_image big 4 (unat b)"
    by (simp add: inet_ntop_def dotted_inject)
  then have "unat a = unat b"
    using mem_image_inject[of "unat a" 4 "unat b" big] unsigned_less[where ?'a = nat, of a]
      unsigned_less[where ?'a = nat, of b] by simp
  then show ?thesis by simp
qed

lemma inet_ntop_no_colon: "CHR '':'' \<notin> set (inet_ntop big a)"
proof -
  obtain b0 b1 b2 b3 where b: "mem_image big 4 (unat a) = [b0, b1, b2, b3]"
    using four_bytes[of "mem_image big 4 (unat a)"] by auto
  have "CHR '':'' \<notin> set (dec n)" for n by (rule dec_no_sep) simp
  then show ?thesis by (simp add: inet_ntop_def b dotted_bytes)
qed

section \<open>Properties\<close>

text \<open>C19: Printing an IPv4 endpoint with \<open>InetAddress::toIpPort\<close> never fails and loses nothing: two
  endpoints with the same text have the same address and port.\<close>

theorem toIpPort_injective:
  assumes "sin_family a = AF_INET" and "sin_family b = AF_INET"
    and "InetAddress_toIpPort big a = InetAddress_toIpPort big b"
  shows "(\<exists>s. InetAddress_toIpPort big a = Inr s \<and> length s \<le> 21) \<and>
         s_addr a = s_addr b \<and> sin_port a = sin_port b"
proof -
  let ?ip = "\<lambda>x. inet_ntop big (s_addr x)" and ?p = "\<lambda>x. dec (unat (networkToHost16 big (sin_port x)))"
  have nc: "CHR '':'' \<notin> set (dec n)" for n by (rule dec_no_sep) simp
  have split: "split_at (CHR '':'') (?ip x @ '':'' @ ?p x) = [?ip x, ?p x]" for x
    by (simp add: split_at_word split_at_last nc inet_ntop_no_colon)
  have "?ip a @ '':'' @ ?p a = ?ip b @ '':'' @ ?p b" using assms by (simp add: toIpPort_full)
  then have "?ip a = ?ip b" and "?p a = ?p b" using split by (metis list.inject)+
  then have addr: "s_addr a = s_addr b"
    and port: "networkToHost16 big (sin_port a) = networkToHost16 big (sin_port b)"
    using inet_ntop_inject by auto
  have hton: "hostToNetwork16 big (networkToHost16 big p) = p" for p
    using ntoh_hton16[of big p] by (simp add: networkToHost16_def hostToNetwork16_def)
  have "sin_port a = sin_port b" using port hton by metis
  moreover have "\<exists>s. InetAddress_toIpPort big a = Inr s \<and> length s \<le> 21"
    using inet_ntop_length[of big "s_addr a"] dec_port_length[of "networkToHost16 big (sin_port a)"]
    by (simp add: toIpPort_full[OF assms(1)])
  ultimately show ?thesis using addr by simp
qed

theorem toIpPort_injective_witness:
  "\<exists>s. InetAddress_toIpPort False (InetAddress_port False 55266) = Inr s \<and> length s \<le> 21"
  using toIpPort_injective[of "InetAddress_port False 55266" "InetAddress_port False 55266" False]
  by (simp add: InetAddress_port_def)

text \<open>The constructor of \<open>InetAddress\<close> that takes a \<open>std::string\<close> ignores both of its
  arguments: the address it leaves behind is whatever the storage held, while the constructor from a
  C string on the same arguments stores the address that \<open>inet_pton\<close> parsed and the port.\<close>

theorem string_constructor_ignores_arguments:
  "InetAddress_string big inet_pton junk ip port = InetAddress_string big inet_pton junk ip' port' \<and>
   s_addr (InetAddress_cstr big inet_pton ip port) = (case inet_pton ip of None \<Rightarrow> 0 | Some a \<Rightarrow> a) \<and>
   networkToHost16 big (sin_port (InetAddress_cstr big inet_pton ip port)) = port"
  by (simp add: InetAddress_string_def InetAddress_cstr_def fromIpPort_def zero_addr_def ntoh_hton16
      split: option.splits)

end
