(* ===== verification/System.thy ===== *)
theory System
  imports InetAddress
begin

text \<open>
  The boundary to the operating system and the shared ownership of objects.  The kernel is
  not part of the repository: each system call the program makes is a field of the record
  \<open>os_calls\<close>, a function on an arbitrary kernel state \<open>'o\<close>, and is a parameter of every
  definition that uses it.  The process state records the calls made, with their arguments
  and results, in the order they were made (\<open>trace\<close>); the properties that speak of what
  reaches the kernel are statements about that list.

  A \<open>std::shared_ptr\<close> is the count \<open>refs\<close> of the pointers to an object; the object dies,
  and its destructor runs, when the count falls to zero.
\<close>

section \<open>System calls\<close>

datatype errno = EWOULDBLOCK | EPIPE | ECONNRESET | EINTR | EOTHER nat

datatype shut_how = SHUT_RD | SHUT_WR | SHUT_RDWR

datatype ctl_op = EPOLL_CTL_ADD | EPOLL_CTL_MOD | EPOLL_CTL_DEL

datatype sysev =
    Sys_socket int
  | Sys_eventfd int
  | Sys_epoll_create int
  | Sys_setsockopt int string bool int
  | Sys_bind int sockaddr_in int
  | Sys_listen int int
  | Sys_accept int int
  | Sys_getsockname int int
  | Sys_read int nat int "byte list"
  | Sys_write int "byte list" int
  | Sys_shutdown int shut_how int
  | Sys_close int int
  | Sys_epoll_ctl int ctl_op int "32 word" nat int
  | Sys_epoll_wait int nat int
  | Sys_send int "byte list" int
  | Sys_connect int sockaddr_in int
  | Sys_recvfrom int nat int "byte list"
  | Sys_sendto int "byte list" sockaddr_in int
  | Sys_select int int
  | Sys_bind_un int string int
  | Sys_connect_un int string int
  | Sys_access string int
  | Sys_unlink string int
  | Sys_open string int
  | Sys_ioctl int string int
  | Sys_mkfifo string int
  | Sys_poll int int
  | Sys_system string int

text \<open>
  Each call takes its arguments and the kernel state and returns its result.  \<open>epoll_wait\<close>
  returns the events it stored: each an event mask and the pointer registered with it.
\<close>

record 'o os_calls =
  os_socket :: "'o \<Rightarrow> int \<times> 'o"
  os_eventfd :: "'o \<Rightarrow> int \<times> 'o"
  os_epoll_create :: "'o \<Rightarrow> int \<times> 'o"
  os_setsockopt :: "int \<Rightarrow> string \<Rightarrow> bool \<Rightarrow> 'o \<Rightarrow> int \<times> 'o"
  os_bind :: "int \<Rightarrow> sockaddr_in \<Rightarrow> 'o \<Rightarrow> int \<times> 'o"
  os_listen :: "int \<Rightarrow> 'o \<Rightarrow> int \<times> 'o"
  os_accept :: "int \<Rightarrow> 'o \<Rightarrow> (int \<times> sockaddr_in) \<times> 'o"
  os_getsockname :: "int \<Rightarrow> 'o \<Rightarrow> (int \<times> sockaddr_in) \<times> 'o"
  os_read :: "int \<Rightarrow> nat \<Rightarrow> 'o \<Rightarrow> (int \<times> byte list \<times> errno) \<times> 'o"
  os_write :: "int \<Rightarrow> byte list \<Rightarrow> 'o \<Rightarrow> (int \<times> errno) \<times> 'o"
  os_shutdown :: "int \<Rightarrow> shut_how \<Rightarrow> 'o \<Rightarrow> int \<times> 'o"
  os_close :: "int \<Rightarrow> 'o \<Rightarrow> int \<times> 'o"
  os_epoll_ctl :: "int \<Rightarrow> ctl_op \<Rightarrow> int \<Rightarrow> 32 word \<Rightarrow> nat \<Rightarrow> 'o \<Rightarrow> int \<times> 'o"
  os_epoll_wait :: "int \<Rightarrow> nat \<Rightarrow> int \<Rightarrow> 'o \<Rightarrow> (int \<times> (32 word \<times> nat) list) \<times> 'o"

record 'o process =
  os :: 'o
  trace :: "sysev list"

definition log_call :: "sysev \<Rightarrow> 'o \<Rightarrow> ('o, 'z) process_scheme \<Rightarrow> ('o, 'z) process_scheme" where
  "log_call e k w = w\<lparr>os := k, trace := trace w @ [e]\<rparr>"

definition sys_socket :: "('o, 'y) os_calls_scheme \<Rightarrow> ('o, 'z) process_scheme \<Rightarrow> int \<times> ('o, 'z) process_scheme" where
  "sys_socket S w = (case os_socket S (os w) of (r, k) \<Rightarrow> (r, log_call (Sys_socket r) k w))"

definition sys_eventfd :: "('o, 'y) os_calls_scheme \<Rightarrow> ('o, 'z) process_scheme \<Rightarrow> int \<times> ('o, 'z) process_scheme" where
  "sys_eventfd S w = (case os_eventfd S (os w) of (r, k) \<Rightarrow> (r, log_call (Sys_eventfd r) k w))"

definition sys_epoll_create :: "('o, 'y) os_calls_scheme \<Rightarrow> ('o, 'z) process_scheme \<Rightarrow> int \<times> ('o, 'z) process_scheme" where
  "sys_epoll_create S w = (case os_epoll_create S (os w) of (r, k) \<Rightarrow> (r, log_call (Sys_epoll_create r) k w))"

definition sys_setsockopt :: "('o, 'y) os_calls_scheme \<Rightarrow> int \<Rightarrow> string \<Rightarrow> bool \<Rightarrow>
    ('o, 'z) process_scheme \<Rightarrow> int \<times> ('o, 'z) process_scheme" where
  "sys_setsockopt S fd opt on w =
     (case os_setsockopt S fd opt on (os w) of (r, k) \<Rightarrow> (r, log_call (Sys_setsockopt fd opt on r) k w))"

definition sys_bind :: "('o, 'y) os_calls_scheme \<Rightarrow> int \<Rightarrow> sockaddr_in \<Rightarrow>
    ('o, 'z) process_scheme \<Rightarrow> int \<times> ('o, 'z) process_scheme" where
  "sys_bind S fd addr w = (case os_bind S fd addr (os w) of (r, k) \<Rightarrow> (r, log_call (Sys_bind fd addr r) k w))"

definition sys_listen :: "('o, 'y) os_calls_scheme \<Rightarrow> int \<Rightarrow> ('o, 'z) process_scheme \<Rightarrow> int \<times> ('o, 'z) process_scheme" where
  "sys_listen S fd w = (case os_listen S fd (os w) of (r, k) \<Rightarrow> (r, log_call (Sys_listen fd r) k w))"

definition sys_accept :: "('o, 'y) os_calls_scheme \<Rightarrow> int \<Rightarrow>
    ('o, 'z) process_scheme \<Rightarrow> (int \<times> sockaddr_in) \<times> ('o, 'z) process_scheme" where
  "sys_accept S fd w =
     (case os_accept S fd (os w) of ((r, addr), k) \<Rightarrow> ((r, addr), log_call (Sys_accept fd r) k w))"

definition sys_getsockname :: "('o, 'y) os_calls_scheme \<Rightarrow> int \<Rightarrow>
    ('o, 'z) process_scheme \<Rightarrow> (int \<times> sockaddr_in) \<times> ('o, 'z) process_scheme" where
  "sys_getsockname S fd w =
     (case os_getsockname S fd (os w) of ((r, addr), k) \<Rightarrow> ((r, addr), log_call (Sys_getsockname fd r) k w))"

definition sys_read :: "('o, 'y) os_calls_scheme \<Rightarrow> int \<Rightarrow> nat \<Rightarrow>
    ('o, 'z) process_scheme \<Rightarrow> (int \<times> byte list \<times> errno) \<times> ('o, 'z) process_scheme" where
  "sys_read S fd n w =
     (case os_read S fd n (os w) of ((r, bs, e), k) \<Rightarrow> ((r, bs, e), log_call (Sys_read fd n r bs) k w))"

definition sys_write :: "('o, 'y) os_calls_scheme \<Rightarrow> int \<Rightarrow> byte list \<Rightarrow>
    ('o, 'z) process_scheme \<Rightarrow> (int \<times> errno) \<times> ('o, 'z) process_scheme" where
  "sys_write S fd bs w =
     (case os_write S fd bs (os w) of ((r, e), k) \<Rightarrow> ((r, e), log_call (Sys_write fd bs r) k w))"

definition sys_shutdown :: "('o, 'y) os_calls_scheme \<Rightarrow> int \<Rightarrow> shut_how \<Rightarrow>
    ('o, 'z) process_scheme \<Rightarrow> int \<times> ('o, 'z) process_scheme" where
  "sys_shutdown S fd how w =
     (case os_shutdown S fd how (os w) of (r, k) \<Rightarrow> (r, log_call (Sys_shutdown fd how r) k w))"

definition sys_close :: "('o, 'y) os_calls_scheme \<Rightarrow> int \<Rightarrow> ('o, 'z) process_scheme \<Rightarrow> int \<times> ('o, 'z) process_scheme" where
  "sys_close S fd w = (case os_close S fd (os w) of (r, k) \<Rightarrow> (r, log_call (Sys_close fd r) k w))"

definition sys_epoll_ctl :: "('o, 'y) os_calls_scheme \<Rightarrow> int \<Rightarrow> ctl_op \<Rightarrow> int \<Rightarrow> 32 word \<Rightarrow> nat \<Rightarrow>
    ('o, 'z) process_scheme \<Rightarrow> int \<times> ('o, 'z) process_scheme" where
  "sys_epoll_ctl S ep operation fd ev ptr w =
     (case os_epoll_ctl S ep operation fd ev ptr (os w) of
        (r, k) \<Rightarrow> (r, log_call (Sys_epoll_ctl ep operation fd ev ptr r) k w))"

definition sys_epoll_wait :: "('o, 'y) os_calls_scheme \<Rightarrow> int \<Rightarrow> nat \<Rightarrow> int \<Rightarrow>
    ('o, 'z) process_scheme \<Rightarrow> (int \<times> (32 word \<times> nat) list) \<times> ('o, 'z) process_scheme" where
  "sys_epoll_wait S ep maxevents timeout w =
     (case os_epoll_wait S ep maxevents timeout (os w) of
        ((r, evs), k) \<Rightarrow> ((r, evs), log_call (Sys_epoll_wait ep maxevents r) k w))"

lemmas sys_defs = sys_socket_def sys_eventfd_def sys_epoll_create_def sys_setsockopt_def sys_bind_def
  sys_listen_def sys_accept_def sys_getsockname_def sys_read_def sys_write_def sys_shutdown_def
  sys_close_def sys_epoll_ctl_def sys_epoll_wait_def

text \<open>
  Every call changes the kernel state and appends one event to the trace, and nothing else:
  stated once on \<open>log_call\<close>, with the equations \<open>sys_eqs\<close> that show each call in this form.
\<close>

lemma log_call_simps [simp]:
  "os (log_call e k w) = k" "trace (log_call e k w) = trace w @ [e]"
  by (simp_all add: log_call_def)

lemma sys_socket_eq: "sys_socket S w = (let r = os_socket S (os w) in (fst r, log_call (Sys_socket (fst r)) (snd r) w))"
  by (simp add: sys_socket_def case_prod_beta Let_def)
lemma sys_eventfd_eq: "sys_eventfd S w = (let r = os_eventfd S (os w) in (fst r, log_call (Sys_eventfd (fst r)) (snd r) w))"
  by (simp add: sys_eventfd_def case_prod_beta Let_def)
lemma sys_epoll_create_eq:
  "sys_epoll_create S w = (let r = os_epoll_create S (os w) in (fst r, log_call (Sys_epoll_create (fst r)) (snd r) w))"
  by (simp add: sys_epoll_create_def case_prod_beta Let_def)
lemma sys_setsockopt_eq:
  "sys_setsockopt S sfd opt on w =
     (let r = os_setsockopt S sfd opt on (os w) in (fst r, log_call (Sys_setsockopt sfd opt on (fst r)) (snd r) w))"
  by (simp add: sys_setsockopt_def case_prod_beta Let_def)
lemma sys_bind_eq:
  "sys_bind S sfd addr w =
     (let r = os_bind S sfd addr (os w) in (fst r, log_call (Sys_bind sfd addr (fst r)) (snd r) w))"
  by (simp add: sys_bind_def case_prod_beta Let_def)
lemma sys_listen_eq:
  "sys_listen S sfd w = (let r = os_listen S sfd (os w) in (fst r, log_call (Sys_listen sfd (fst r)) (snd r) w))"
  by (simp add: sys_listen_def case_prod_beta Let_def)
lemma sys_accept_eq:
  "sys_accept S sfd w =
     (let r = os_accept S sfd (os w) in (fst r, log_call (Sys_accept sfd (fst (fst r))) (snd r) w))"
  by (simp add: sys_accept_def case_prod_beta Let_def)
lemma sys_getsockname_eq:
  "sys_getsockname S sfd w =
     (let r = os_getsockname S sfd (os w) in (fst r, log_call (Sys_getsockname sfd (fst (fst r))) (snd r) w))"
  by (simp add: sys_getsockname_def case_prod_beta Let_def)
lemma sys_read_eq:
  "sys_read S sfd n w =
     (let r = os_read S sfd n (os w)
      in (fst r, log_call (Sys_read sfd n (fst (fst r)) (fst (snd (fst r)))) (snd r) w))"
  by (simp add: sys_read_def case_prod_beta Let_def)
lemma sys_write_eq:
  "sys_write S sfd bs w =
     (let r = os_write S sfd bs (os w) in (fst r, log_call (Sys_write sfd bs (fst (fst r))) (snd r) w))"
  by (simp add: sys_write_def case_prod_beta Let_def)
lemma sys_shutdown_eq:
  "sys_shutdown S sfd how w =
     (let r = os_shutdown S sfd how (os w) in (fst r, log_call (Sys_shutdown sfd how (fst r)) (snd r) w))"
  by (simp add: sys_shutdown_def case_prod_beta Let_def)
lemma sys_close_eq:
  "sys_close S sfd w = (let r = os_close S sfd (os w) in (fst r, log_call (Sys_close sfd (fst r)) (snd r) w))"
  by (simp add: sys_close_def case_prod_beta Let_def)
lemma sys_epoll_ctl_eq:
  "sys_epoll_ctl S ep q sfd ev ptr w =
     (let r = os_epoll_ctl S ep q sfd ev ptr (os w)
      in (fst r, log_call (Sys_epoll_ctl ep q sfd ev ptr (fst r)) (snd r) w))"
  by (simp add: sys_epoll_ctl_def case_prod_beta Let_def)
lemma sys_epoll_wait_eq:
  "sys_epoll_wait S ep n t w =
     (let r = os_epoll_wait S ep n t (os w)
      in (fst r, log_call (Sys_epoll_wait ep n (fst (fst r))) (snd r) w))"
  by (simp add: sys_epoll_wait_def case_prod_beta Let_def)

lemmas sys_eqs = sys_socket_eq sys_eventfd_eq sys_epoll_create_eq sys_setsockopt_eq sys_bind_eq sys_listen_eq
  sys_accept_eq sys_getsockname_eq sys_read_eq sys_write_eq sys_shutdown_eq sys_close_eq sys_epoll_ctl_eq
  sys_epoll_wait_eq Let_def

subsection \<open>Helpers of SocketOps.cpp and the class Socket\<close>

text \<open>The wrappers log failures and otherwise only pass the call on.\<close>

definition bindOrDie :: "('o, 'y) os_calls_scheme \<Rightarrow> int \<Rightarrow> sockaddr_in \<Rightarrow> ('o, 'z) process_scheme \<Rightarrow> ('o, 'z) process_scheme" where
  "bindOrDie S fd addr w = snd (sys_bind S fd addr w)"

definition listenOrDie :: "('o, 'y) os_calls_scheme \<Rightarrow> int \<Rightarrow> ('o, 'z) process_scheme \<Rightarrow> ('o, 'z) process_scheme" where
  "listenOrDie S fd w = snd (sys_listen S fd w)"

definition createNonblockingOrDie :: "('o, 'y) os_calls_scheme \<Rightarrow> ('o, 'z) process_scheme \<Rightarrow> int \<times> ('o, 'z) process_scheme" where
  "createNonblockingOrDie S w = sys_socket S w"

definition sock_accept :: "('o, 'y) os_calls_scheme \<Rightarrow> int \<Rightarrow>
    ('o, 'z) process_scheme \<Rightarrow> (int \<times> sockaddr_in) \<times> ('o, 'z) process_scheme" where
  "sock_accept S fd w = sys_accept S fd w"

definition sock_read :: "('o, 'y) os_calls_scheme \<Rightarrow> int \<Rightarrow> nat \<Rightarrow>
    ('o, 'z) process_scheme \<Rightarrow> (int \<times> byte list \<times> errno) \<times> ('o, 'z) process_scheme" where
  "sock_read S fd n w = sys_read S fd n w"

definition sock_write :: "('o, 'y) os_calls_scheme \<Rightarrow> int \<Rightarrow> byte list \<Rightarrow>
    ('o, 'z) process_scheme \<Rightarrow> (int \<times> errno) \<times> ('o, 'z) process_scheme" where
  "sock_write S fd bs w = sys_write S fd bs w"

definition sock_close :: "('o, 'y) os_calls_scheme \<Rightarrow> int \<Rightarrow> ('o, 'z) process_scheme \<Rightarrow> ('o, 'z) process_scheme" where
  "sock_close S fd w = snd (sys_close S fd w)"

definition shutdownWrite :: "('o, 'y) os_calls_scheme \<Rightarrow> int \<Rightarrow> ('o, 'z) process_scheme \<Rightarrow> ('o, 'z) process_scheme" where
  "shutdownWrite S fd w = snd (sys_shutdown S fd SHUT_WR w)"

definition shutdownReadWrite :: "('o, 'y) os_calls_scheme \<Rightarrow> int \<Rightarrow> ('o, 'z) process_scheme \<Rightarrow> ('o, 'z) process_scheme" where
  "shutdownReadWrite S fd w = snd (sys_shutdown S fd SHUT_RDWR w)"

text \<open>A failing \<open>getsockname\<close> leaves the zeroed structure.\<close>

definition getLocalAddr :: "('o, 'y) os_calls_scheme \<Rightarrow> int \<Rightarrow>
    ('o, 'z) process_scheme \<Rightarrow> sockaddr_in \<times> ('o, 'z) process_scheme" where
  "getLocalAddr S fd w =
     (case sys_getsockname S fd w of ((r, addr), w1) \<Rightarrow> (if r < 0 then zero_addr else addr, w1))"

text \<open>The methods of \<open>Socket\<close> (socket.cpp), on the descriptor the object holds.\<close>

definition Socket_destroy :: "('o, 'y) os_calls_scheme \<Rightarrow> int \<Rightarrow> ('o, 'z) process_scheme \<Rightarrow> ('o, 'z) process_scheme" where
  "Socket_destroy S fd w = sock_close S fd w"

definition Socket_Listen :: "('o, 'y) os_calls_scheme \<Rightarrow> int \<Rightarrow> ('o, 'z) process_scheme \<Rightarrow> ('o, 'z) process_scheme" where
  "Socket_Listen S fd w = listenOrDie S fd w"

definition Socket_Bind :: "('o, 'y) os_calls_scheme \<Rightarrow> int \<Rightarrow> sockaddr_in \<Rightarrow> ('o, 'z) process_scheme \<Rightarrow> ('o, 'z) process_scheme" where
  "Socket_Bind S fd addr w = bindOrDie S fd (getSockAddr addr) w"

text \<open>\<open>Accept\<close> assigns \<open>*peeraddr\<close> only on success; the result is the new value of \<open>*peeraddr\<close>.\<close>

definition Socket_Accept :: "('o, 'y) os_calls_scheme \<Rightarrow> int \<Rightarrow> sockaddr_in \<Rightarrow>
    ('o, 'z) process_scheme \<Rightarrow> (int \<times> sockaddr_in) \<times> ('o, 'z) process_scheme" where
  "Socket_Accept S fd peeraddr w =
     (case sock_accept S fd w of ((connfd, addr), w1) \<Rightarrow>
        ((connfd, if 0 \<le> connfd then setSockAddr addr peeraddr else peeraddr), w1))"

definition Socket_ShutdownWrite :: "('o, 'y) os_calls_scheme \<Rightarrow> int \<Rightarrow> ('o, 'z) process_scheme \<Rightarrow> ('o, 'z) process_scheme" where
  "Socket_ShutdownWrite S fd w = shutdownWrite S fd w"

definition Socket_ShutdownReadWrite :: "('o, 'y) os_calls_scheme \<Rightarrow> int \<Rightarrow> ('o, 'z) process_scheme \<Rightarrow> ('o, 'z) process_scheme" where
  "Socket_ShutdownReadWrite S fd w = shutdownReadWrite S fd w"

definition setReuseAddr :: "('o, 'y) os_calls_scheme \<Rightarrow> int \<Rightarrow> bool \<Rightarrow> ('o, 'z) process_scheme \<Rightarrow> ('o, 'z) process_scheme" where
  "setReuseAddr S fd on w = snd (sys_setsockopt S fd ''SO_REUSEADDR'' on w)"

definition setReusePort :: "('o, 'y) os_calls_scheme \<Rightarrow> int \<Rightarrow> bool \<Rightarrow> ('o, 'z) process_scheme \<Rightarrow> ('o, 'z) process_scheme" where
  "setReusePort S fd on w = snd (sys_setsockopt S fd ''SO_REUSEPORT'' on w)"

lemmas socket_defs = bindOrDie_def listenOrDie_def createNonblockingOrDie_def sock_accept_def sock_read_def
  sock_write_def sock_close_def shutdownWrite_def shutdownReadWrite_def getLocalAddr_def Socket_destroy_def Socket_Listen_def
  Socket_Bind_def Socket_Accept_def Socket_ShutdownWrite_def Socket_ShutdownReadWrite_def
  setReuseAddr_def setReusePort_def

section \<open>What was written to a descriptor\<close>

text \<open>
  The bytes the kernel accepted on a descriptor: of each successful \<open>write\<close> the prefix whose
  length it returned.
\<close>

fun wire :: "int \<Rightarrow> sysev list \<Rightarrow> byte list" where
  "wire fd [] = []"
| "wire fd (Sys_write f bs n # es) = (if f = fd \<and> 0 \<le> n then take (nat n) bs else []) @ wire fd es"
| "wire fd (_ # es) = wire fd es"

lemma wire_append: "wire fd (es @ fs) = wire fd es @ wire fd fs"
  by (induction fd es rule: wire.induct) auto

lemma wire_nonwrite: "(\<And>f bs n. e \<noteq> Sys_write f bs n) \<Longrightarrow> wire fd [e] = []"
  by (cases e) auto

section \<open>Shared ownership\<close>

record 'o shared = "'o process" +
  refs :: "nat \<Rightarrow> nat"

lemma refs_log_call [simp]: "refs (log_call e k w) = refs w"
  by (simp add: log_call_def)

definition acquire :: "nat \<Rightarrow> ('o, 'z) shared_scheme \<Rightarrow> ('o, 'z) shared_scheme" where
  "acquire p w = w\<lparr>refs := (refs w)(p := Suc (refs w p))\<rparr>"

text \<open>\<open>dtor p\<close> is the destructor of the object \<open>p\<close>.\<close>

definition release :: "(nat \<Rightarrow> ('o, 'z) shared_scheme \<Rightarrow> ('o, 'z) shared_scheme) \<Rightarrow> nat \<Rightarrow>
    ('o, 'z) shared_scheme \<Rightarrow> ('o, 'z) shared_scheme" where
  "release dtor p w =
     (let w1 = w\<lparr>refs := (refs w)(p := refs w p - 1)\<rparr>
      in if refs w p = 1 then dtor p w1 else w1)"

definition acquire_opt :: "nat option \<Rightarrow> ('o, 'z) shared_scheme \<Rightarrow> ('o, 'z) shared_scheme" where
  "acquire_opt p w = (case p of None \<Rightarrow> w | Some q \<Rightarrow> acquire q w)"

definition release_opt :: "(nat \<Rightarrow> ('o, 'z) shared_scheme \<Rightarrow> ('o, 'z) shared_scheme) \<Rightarrow> nat option \<Rightarrow>
    ('o, 'z) shared_scheme \<Rightarrow> ('o, 'z) shared_scheme" where
  "release_opt dtor p w = (case p of None \<Rightarrow> w | Some q \<Rightarrow> release dtor q w)"

text \<open>\<open>weak_ptr::lock\<close> yields a pointer to a living object only.\<close>

definition expired :: "nat option \<Rightarrow> ('o, 'z) shared_scheme \<Rightarrow> bool" where
  "expired p w = (case p of None \<Rightarrow> True | Some q \<Rightarrow> refs w q = 0)"

end
