(* ===== verification/Channel.thy ===== *)
theory Channel
  imports System
begin

text \<open>
  A \<open>Channel\<close> (Channel.h, Channel.cpp) is a descriptor, the events its owner wants, the
  events the poller saw, its registration state and its four callbacks.  This theory holds
  the data and the operations on one channel alone; the operations that go on to the event
  loop (\<open>update\<close>, \<open>remove\<close>, \<open>handleEvent\<close>) are in \<open>ChannelEvents\<close>.  A callback is a value
  of the type \<open>'t\<close>: the function object with its bound arguments, whose execution the
  program defines.  The member \<open>logHup_\<close> is never initialised and only decides whether a
  line is logged; it is not modelled.
\<close>

unbundle bit_operations_syntax

section \<open>Event masks\<close>

definition EPOLLIN :: "32 word" where "EPOLLIN = 0x001"
definition EPOLLPRI :: "32 word" where "EPOLLPRI = 0x002"
definition EPOLLOUT :: "32 word" where "EPOLLOUT = 0x004"
definition EPOLLERR :: "32 word" where "EPOLLERR = 0x008"
definition EPOLLHUP :: "32 word" where "EPOLLHUP = 0x010"
definition EPOLLRDHUP :: "32 word" where "EPOLLRDHUP = 0x2000"

definition kNoneEvent :: "32 word" where "kNoneEvent = 0"
definition kReadEvent :: "32 word" where "kReadEvent = EPOLLIN OR EPOLLPRI"
definition kWriteEvent :: "32 word" where "kWriteEvent = EPOLLOUT"

lemmas event_defs = EPOLLIN_def EPOLLPRI_def EPOLLOUT_def EPOLLERR_def EPOLLHUP_def EPOLLRDHUP_def
  kNoneEvent_def kReadEvent_def kWriteEvent_def

section \<open>Channel data\<close>

text \<open>\<open>index_\<close> holds a value of \<open>Poller::ChannelIndex\<close>.\<close>

datatype channel_index = cNew | cAdded | cDeleted

record 't channel =
  fd :: int
  events :: "32 word"
  revents :: "32 word"
  index :: channel_index
  tied :: bool
  tie :: "nat option"
  ch_eventHandling :: bool
  addedToLoop :: bool
  readCallback :: "'t option"
  writeCallback :: "'t option"
  closeCallback :: "'t option"
  errorCallback :: "'t option"

definition new_channel :: "int \<Rightarrow> 't channel" where
  "new_channel sockfd =
     \<lparr>fd = sockfd, events = 0, revents = 0, index = cNew, tied = False, tie = None,
      ch_eventHandling = False, addedToLoop = False,
      readCallback = None, writeCallback = None, closeCallback = None, errorCallback = None\<rparr>"

definition channel_tie :: "nat \<Rightarrow> 't channel \<Rightarrow> 't channel" where
  "channel_tie obj ch = ch\<lparr>tie := Some obj, tied := True\<rparr>"

definition setReadCallback :: "'t \<Rightarrow> 't channel \<Rightarrow> 't channel" where
  "setReadCallback cb ch = ch\<lparr>readCallback := Some cb\<rparr>"
definition setWriteCallback :: "'t \<Rightarrow> 't channel \<Rightarrow> 't channel" where
  "setWriteCallback cb ch = ch\<lparr>writeCallback := Some cb\<rparr>"
definition setCloseCallback :: "'t \<Rightarrow> 't channel \<Rightarrow> 't channel" where
  "setCloseCallback cb ch = ch\<lparr>closeCallback := Some cb\<rparr>"
definition setErrorCallback :: "'t \<Rightarrow> 't channel \<Rightarrow> 't channel" where
  "setErrorCallback cb ch = ch\<lparr>errorCallback := Some cb\<rparr>"

lemmas callback_defs = setReadCallback_def setWriteCallback_def setCloseCallback_def setErrorCallback_def

definition set_revents :: "32 word \<Rightarrow> 't channel \<Rightarrow> 't channel" where
  "set_revents revt ch = ch\<lparr>revents := revt\<rparr>"

definition set_index :: "channel_index \<Rightarrow> 't channel \<Rightarrow> 't channel" where
  "set_index idx ch = ch\<lparr>index := idx\<rparr>"

definition isWriting :: "'t channel \<Rightarrow> bool" where
  "isWriting ch \<longleftrightarrow> events ch AND kWriteEvent \<noteq> 0"

definition isReading :: "'t channel \<Rightarrow> bool" where
  "isReading ch \<longleftrightarrow> events ch AND kReadEvent \<noteq> 0"

definition isNoneEvent :: "'t channel \<Rightarrow> bool" where
  "isNoneEvent ch \<longleftrightarrow> events ch = kNoneEvent"

definition want_reading :: "'t channel \<Rightarrow> 't channel" where
  "want_reading ch = ch\<lparr>events := events ch OR kReadEvent\<rparr>"

definition unwant_reading :: "'t channel \<Rightarrow> 't channel" where
  "unwant_reading ch = ch\<lparr>events := events ch AND NOT kReadEvent\<rparr>"

definition want_writing :: "'t channel \<Rightarrow> 't channel" where
  "want_writing ch = ch\<lparr>events := events ch OR kWriteEvent\<rparr>"

definition unwant_writing :: "'t channel \<Rightarrow> 't channel" where
  "unwant_writing ch = ch\<lparr>events := events ch AND NOT kWriteEvent\<rparr>"

definition want_nothing :: "'t channel \<Rightarrow> 't channel" where
  "want_nothing ch = ch\<lparr>events := kNoneEvent\<rparr>"

lemmas want_defs = want_reading_def unwant_reading_def want_writing_def unwant_writing_def want_nothing_def

definition eventsToString :: "int \<Rightarrow> 32 word \<Rightarrow> string" where
  "eventsToString f ev =
     dec_int f @ '': '' @
     (if ev AND EPOLLIN \<noteq> 0 then ''IN '' else []) @
     (if ev AND EPOLLPRI \<noteq> 0 then ''PRI '' else []) @
     (if ev AND EPOLLOUT \<noteq> 0 then ''OUT '' else []) @
     (if ev AND EPOLLHUP \<noteq> 0 then ''HUP '' else []) @
     (if ev AND EPOLLRDHUP \<noteq> 0 then ''RDHUP '' else []) @
     (if ev AND EPOLLERR \<noteq> 0 then ''ERR '' else [])"

definition Channel_reventsToString :: "'t channel \<Rightarrow> string" where
  "Channel_reventsToString ch = eventsToString (fd ch) (revents ch)"

definition Channel_eventsToString :: "'t channel \<Rightarrow> string" where
  "Channel_eventsToString ch = eventsToString (fd ch) (events ch)"

section \<open>Interest flags\<close>

text \<open>Reading and writing interest are independent bits of the mask.\<close>

lemma read_write_disjoint: "kReadEvent AND kWriteEvent = 0"
  by (simp add: event_defs)

lemma isWriting_simps [simp]:
  "isWriting (want_writing ch)" "\<not> isWriting (unwant_writing ch)" "\<not> isWriting (want_nothing ch)"
  "isWriting (want_reading ch) = isWriting ch" "isWriting (unwant_reading ch) = isWriting ch"
proof -
  have rw: "kReadEvent AND kWriteEvent = 0" by (rule read_write_disjoint)
  have k: "kWriteEvent = 4" "kReadEvent = 3" by (simp_all add: event_defs)
  have "(events ch OR 4) AND 4 = 4" by (simp add: bit.conj_disj_distrib2)
  then show "isWriting (want_writing ch)" by (simp add: isWriting_def want_writing_def k)
  have "(events ch AND NOT 4) AND 4 = 0" by (subst and.assoc) simp
  then show "\<not> isWriting (unwant_writing ch)" by (simp add: isWriting_def unwant_writing_def k)
  show "\<not> isWriting (want_nothing ch)" by (simp add: isWriting_def want_nothing_def kNoneEvent_def)
  have "(events ch OR 3) AND 4 = events ch AND 4" by (simp add: bit.conj_disj_distrib2)
  then show "isWriting (want_reading ch) = isWriting ch" by (simp add: isWriting_def want_reading_def k)
  have "(events ch AND NOT 3) AND 4 = events ch AND 4" by (subst and.assoc) simp
  then show "isWriting (unwant_reading ch) = isWriting ch" by (simp add: isWriting_def unwant_reading_def k)
qed

lemma isNone_want_nothing [simp]: "isNoneEvent (want_nothing ch)"
  by (simp add: isNoneEvent_def want_nothing_def)

lemma want_not_none:
  "\<not> isNoneEvent (want_writing ch)" "\<not> isNoneEvent (want_reading ch)"
proof -
  have "isWriting (want_writing ch)" by simp
  then show "\<not> isNoneEvent (want_writing ch)" by (auto simp: isWriting_def isNoneEvent_def kNoneEvent_def)
  have "(events ch OR 3) AND 1 = 1" by (simp add: bit.conj_disj_distrib2)
  then have "events ch OR 3 \<noteq> 0" by auto
  then show "\<not> isNoneEvent (want_reading ch)"
    by (simp add: isNoneEvent_def want_reading_def event_defs)
qed

end
