(* ===== verification/Poller.thy ===== *)
theory Poller
  imports Channel
begin

text \<open>
  The class \<open>Poller\<close> (Poller.h, Poller.cpp): the epoll descriptor, the size of the event
  array and the map from descriptors to channels.  There is one poller, in the one event
  loop of the program, so its members are fields of the process state; the channels live in
  a heap and are named by their address there.  The descriptor's registration in the kernel
  is what the \<open>epoll_ctl\<close> calls of the trace ask for (\<open>interest\<close>); the invariant
  \<open>registered\<close> says that the poller's own bookkeeping agrees with it, and every operation
  keeps it.
\<close>

section \<open>State\<close>

record ('o, 't) poller_st = "'o shared" +
  chan_heap :: "nat \<Rightarrow> 't channel"
  next_chan :: nat
  epollfd :: int
  events_size :: nat
  channels :: "int \<rightharpoonup> nat"

definition upd_chan :: "nat \<Rightarrow> ('t channel \<Rightarrow> 't channel) \<Rightarrow>
    ('o, 't, 'z) poller_st_scheme \<Rightarrow> ('o, 't, 'z) poller_st_scheme" where
  "upd_chan c f w = w\<lparr>chan_heap := (chan_heap w)(c := f (chan_heap w c))\<rparr>"

text \<open>\<open>new Channel(loop, fd)\<close>.\<close>

definition alloc_channel :: "int \<Rightarrow> ('o, 't, 'z) poller_st_scheme \<Rightarrow> nat \<times> ('o, 't, 'z) poller_st_scheme" where
  "alloc_channel sockfd w =
     (next_chan w, w\<lparr>chan_heap := (chan_heap w)(next_chan w := new_channel sockfd),
                     next_chan := Suc (next_chan w)\<rparr>)"

section \<open>Operations\<close>

definition kInitEventListSize :: nat where
  "kInitEventListSize = 16"

definition poller_new :: "'o os_calls \<Rightarrow> ('o, 't, 'z) poller_st_scheme \<Rightarrow> ('o, 't, 'z) poller_st_scheme" where
  "poller_new S w =
     (case sys_epoll_create S w of (r, w1) \<Rightarrow>
        w1\<lparr>epollfd := r, events_size := kInitEventListSize, channels := Map.empty\<rparr>)"

definition poller_destroy :: "'o os_calls \<Rightarrow> ('o, 't, 'z) poller_st_scheme \<Rightarrow> ('o, 't, 'z) poller_st_scheme" where
  "poller_destroy S w = (if 0 < epollfd w then snd (sys_close S (epollfd w) w) else w)"

text \<open>The lines \<open>logChannels\<close> prints, in the map's order; its counter is never advanced.\<close>

definition logChannels :: "('o, 't, 'z) poller_st_scheme \<Rightarrow> int list \<Rightarrow> string list" where
  "logChannels w keys =
     [''------begin log channels------''] @
     map (\<lambda>f. ''['' @ dec_int 0 @ ''] fd='' @ dec_int f @ '' events:'' @
               Channel_eventsToString (chan_heap w (the (channels w f)))) keys @
     [''------end log channels------'']"

text \<open>A failing \<open>epoll_ctl\<close> is logged and otherwise ignored.\<close>

definition poller_update :: "'o os_calls \<Rightarrow> ctl_op \<Rightarrow> nat \<Rightarrow>
    ('o, 't, 'z) poller_st_scheme \<Rightarrow> ('o, 't, 'z) poller_st_scheme" where
  "poller_update S operation c w =
     (let ch = chan_heap w c
      in snd (sys_epoll_ctl S (epollfd w) operation (fd ch) (events ch) c w))"

definition poller_updateChannel :: "'o os_calls \<Rightarrow> nat \<Rightarrow>
    ('o, 't, 'z) poller_st_scheme \<Rightarrow> ('o, 't, 'z) poller_st_scheme" where
  "poller_updateChannel S c w =
     (let ch = chan_heap w c; f = fd ch in
      case index ch of
        cNew \<Rightarrow>
          (let w1 = (if channels w f = None then w\<lparr>channels := (channels w)(f \<mapsto> c)\<rparr> else w)
           in poller_update S EPOLL_CTL_ADD c (upd_chan c (set_index cAdded) w1))
      | cDeleted \<Rightarrow>
          (if channels w f = Some c then w
           else poller_update S EPOLL_CTL_ADD c (upd_chan c (set_index cAdded) w))
      | cAdded \<Rightarrow>
          (if channels w f = Some c then
             (if isNoneEvent ch
              then upd_chan c (set_index cDeleted) (poller_update S EPOLL_CTL_DEL c w)
              else poller_update S EPOLL_CTL_MOD c w)
           else w))"

definition poller_removeChannel :: "'o os_calls \<Rightarrow> nat \<Rightarrow>
    ('o, 't, 'z) poller_st_scheme \<Rightarrow> ('o, 't, 'z) poller_st_scheme" where
  "poller_removeChannel S c w =
     (let ch = chan_heap w c; f = fd ch in
      if channels w f = Some c \<and> isNoneEvent ch then
        (case index ch of
           cAdded \<Rightarrow>
             upd_chan c (set_index cNew)
               (poller_update S EPOLL_CTL_DEL c (w\<lparr>channels := (channels w)(f := None)\<rparr>))
         | cDeleted \<Rightarrow> upd_chan c (set_index cNew) (w\<lparr>channels := (channels w)(f := None)\<rparr>)
         | cNew \<Rightarrow> w)
      else w)"

text \<open>\<open>fillActiveChannels\<close> returns the channels it appends to \<open>*activeChannels\<close>.\<close>

fun fillActiveChannels :: "(32 word \<times> nat) list \<Rightarrow>
    ('o, 't, 'z) poller_st_scheme \<Rightarrow> nat list \<times> ('o, 't, 'z) poller_st_scheme" where
  "fillActiveChannels [] w = ([], w)"
| "fillActiveChannels ((ev, c) # es) w =
     (case fillActiveChannels es (upd_chan c (set_revents ev) w) of (cs, w1) \<Rightarrow> (c # cs, w1))"

text \<open>
  \<open>poll\<close> has no \<open>return\<close> statement; no caller uses its result.  \<open>static_cast<int>\<close> of the
  array size is exact below \<open>2^31\<close>.
\<close>

definition poller_poll :: "'o os_calls \<Rightarrow> int \<Rightarrow>
    ('o, 't, 'z) poller_st_scheme \<Rightarrow> nat list \<times> ('o, 't, 'z) poller_st_scheme" where
  "poller_poll S timeoutMs w =
     (case sys_epoll_wait S (epollfd w) (events_size w) timeoutMs w of ((numEvents, evs), w1) \<Rightarrow>
        if 0 < numEvents then
          (case fillActiveChannels (take (nat numEvents) evs) w1 of (cs, w2) \<Rightarrow>
             (cs, if nat numEvents = events_size w2
                  then w2\<lparr>events_size := events_size w2 * 2\<rparr> else w2))
        else ([], w1))"

section \<open>Frame facts\<close>

lemma chan_heap_upd [simp]:
  "chan_heap (upd_chan c f w) = (chan_heap w)(c := f (chan_heap w c))"
  by (simp add: upd_chan_def)

lemma upd_chan_frame [simp]:
  "trace (upd_chan c f w) = trace w" "os (upd_chan c f w) = os w" "refs (upd_chan c f w) = refs w"
  "channels (upd_chan c f w) = channels w" "epollfd (upd_chan c f w) = epollfd w"
  "next_chan (upd_chan c f w) = next_chan w" "events_size (upd_chan c f w) = events_size w"
  by (simp_all add: upd_chan_def)

lemma log_call_poller [simp]:
  "chan_heap (log_call e k w) = chan_heap w" "next_chan (log_call e k w) = next_chan w"
  "epollfd (log_call e k w) = epollfd w" "events_size (log_call e k w) = events_size w"
  "channels (log_call e k w) = channels w"
  by (simp_all add: log_call_def)

lemma poller_update_frame [simp]:
  "refs (poller_update S q c w) = refs w" "chan_heap (poller_update S q c w) = chan_heap w"
  "channels (poller_update S q c w) = channels w" "epollfd (poller_update S q c w) = epollfd w"
  "next_chan (poller_update S q c w) = next_chan w" "events_size (poller_update S q c w) = events_size w"
  by (simp_all add: poller_update_def sys_eqs)

lemma poller_update_trace:
  "\<exists>r. trace (poller_update S q c w) =
     trace w @ [Sys_epoll_ctl (epollfd w) q (fd (chan_heap w c)) (events (chan_heap w c)) c r]"
  by (simp add: poller_update_def sys_eqs)

lemma set_index_simps [simp]:
  "fd (set_index i ch) = fd ch" "events (set_index i ch) = events ch" "index (set_index i ch) = i"
  "revents (set_index i ch) = revents ch" "tied (set_index i ch) = tied ch" "tie (set_index i ch) = tie ch"
  "readCallback (set_index i ch) = readCallback ch" "writeCallback (set_index i ch) = writeCallback ch"
  "closeCallback (set_index i ch) = closeCallback ch" "errorCallback (set_index i ch) = errorCallback ch"
  by (simp_all add: set_index_def)

section \<open>Registration in the kernel\<close>

text \<open>
  The registration table of one epoll descriptor under the documented rules of
  \<open>epoll_ctl\<close>: an \<open>ADD\<close> of a registered descriptor and a \<open>MOD\<close> or \<open>DEL\<close> of one that is
  not are refused (\<open>None\<close>).
\<close>

type_synonym ctl_table = "int \<rightharpoonup> 32 word \<times> nat"

fun ctl_apply :: "int \<Rightarrow> sysev \<Rightarrow> ctl_table \<Rightarrow> ctl_table option" where
  "ctl_apply ep (Sys_epoll_ctl ep' q f ev p r) m =
     (if ep' \<noteq> ep then Some m
      else (case q of
              EPOLL_CTL_ADD \<Rightarrow> (if m f = None then Some (m(f \<mapsto> (ev, p))) else None)
            | EPOLL_CTL_MOD \<Rightarrow> (if m f \<noteq> None then Some (m(f \<mapsto> (ev, p))) else None)
            | EPOLL_CTL_DEL \<Rightarrow> (if m f \<noteq> None then Some (m(f := None)) else None)))"
| "ctl_apply ep _ m = Some m"

fun ctl_run :: "int \<Rightarrow> sysev list \<Rightarrow> ctl_table \<Rightarrow> ctl_table option" where
  "ctl_run ep [] m = Some m"
| "ctl_run ep (e # es) m = (case ctl_apply ep e m of None \<Rightarrow> None | Some m1 \<Rightarrow> ctl_run ep es m1)"

lemma ctl_run_snoc:
  "ctl_run ep (es @ [e]) m = (case ctl_run ep es m of None \<Rightarrow> None | Some m1 \<Rightarrow> ctl_apply ep e m1)"
  by (induction es arbitrary: m) (auto split: option.splits)

definition interest :: "('o, 't, 'z) poller_st_scheme \<Rightarrow> ctl_table" where
  "interest w f =
     (case channels w f of
        None \<Rightarrow> None
      | Some c \<Rightarrow> if index (chan_heap w c) = cAdded then Some (events (chan_heap w c), c) else None)"

lemma interest_cong: "chan_heap v = chan_heap w \<Longrightarrow> channels v = channels w \<Longrightarrow> interest v = interest w"
  by (rule ext) (simp add: interest_def split: option.splits)

lemma interest_poller_update [simp]: "interest (poller_update S q c w) = interest w"
  by (rule interest_cong) simp_all

text \<open>
  The poller's bookkeeping: the map and the index of a channel agree, and the kernel's table,
  which no request of the trace was refused by, is the interest of the added channels.
\<close>

definition registered :: "('o, 't, 'z) poller_st_scheme \<Rightarrow> bool" where
  "registered w \<longleftrightarrow>
     (\<forall>f c. channels w f = Some c \<longrightarrow> fd (chan_heap w c) = f \<and> index (chan_heap w c) \<noteq> cNew) \<and>
     (\<forall>c. index (chan_heap w c) \<noteq> cNew \<longrightarrow> channels w (fd (chan_heap w c)) = Some c) \<and>
     (\<forall>c\<ge>next_chan w. index (chan_heap w c) = cNew) \<and>
     ctl_run (epollfd w) (trace w) Map.empty = Some (interest w)"

lemma registeredI:
  assumes "\<And>f c. channels w f = Some c \<Longrightarrow> fd (chan_heap w c) = f \<and> index (chan_heap w c) \<noteq> cNew"
    and "\<And>c. index (chan_heap w c) \<noteq> cNew \<Longrightarrow> channels w (fd (chan_heap w c)) = Some c"
    and "\<And>c. next_chan w \<le> c \<Longrightarrow> index (chan_heap w c) = cNew"
    and "ctl_run (epollfd w) (trace w) Map.empty = Some (interest w)"
  shows "registered w"
  using assms by (auto simp: registered_def)

lemma registeredD:
  assumes "registered w"
  shows "channels w f = Some c \<Longrightarrow> fd (chan_heap w c) = f"
    and "channels w f = Some c \<Longrightarrow> index (chan_heap w c) \<noteq> cNew"
    and "index (chan_heap w c) \<noteq> cNew \<Longrightarrow> channels w (fd (chan_heap w c)) = Some c"
    and "next_chan w \<le> c \<Longrightarrow> index (chan_heap w c) = cNew"
    and "ctl_run (epollfd w) (trace w) Map.empty = Some (interest w)"
  using assms by (auto simp: registered_def)

text \<open>A registered channel may change while it stays registered under its descriptor.\<close>

lemma registered_change:
  assumes reg: "registered w" and here: "channels w (fd (chan_heap w c)) = Some c"
    and v: "channels v = channels w" "epollfd v = epollfd w" "next_chan v = next_chan w"
      "chan_heap v = (chan_heap w)(c := ch)"
    and ch: "fd ch = fd (chan_heap w c)" "index ch \<noteq> cNew"
    and run: "ctl_run (epollfd w) (trace v) Map.empty = Some (interest v)"
  shows "registered v"
proof (rule registeredI)
  note R = registeredD[OF reg]
  fix f c' assume "channels v f = Some c'"
  then have "channels w f = Some c'" by (simp add: v)
  from R(1,2)[OF this] show "fd (chan_heap v c') = f \<and> index (chan_heap v c') \<noteq> cNew"
    using ch by (cases "c' = c") (simp_all add: v)
next
  fix c' assume "index (chan_heap v c') \<noteq> cNew"
  then show "channels v (fd (chan_heap v c')) = Some c'"
    using registeredD(3)[OF reg, of c'] here ch by (cases "c' = c") (simp_all add: v)
next
  fix c' assume "next_chan v \<le> c'"
  then have "index (chan_heap w c') = cNew" using registeredD(4)[OF reg] by (simp add: v)
  moreover have "index (chan_heap w c) \<noteq> cNew" using registeredD(2)[OF reg here] .
  ultimately show "index (chan_heap v c') = cNew" by (auto simp: v)
next
  show "ctl_run (epollfd v) (trace v) Map.empty = Some (interest v)" using run by (simp add: v)
qed

text \<open>A new interest of a channel: the mask is written, then the poller is told.\<close>

definition set_interest :: "'o os_calls \<Rightarrow> nat \<Rightarrow> 32 word \<Rightarrow>
    ('o, 't, 'z) poller_st_scheme \<Rightarrow> ('o, 't, 'z) poller_st_scheme" where
  "set_interest S c ev w = poller_updateChannel S c (upd_chan c (\<lambda>ch. ch\<lparr>events := ev\<rparr>) w)"

lemma registered_set_interest:
  assumes reg: "registered w" and c: "c < next_chan w"
    and new: "index (chan_heap w c) = cNew \<Longrightarrow> channels w (fd (chan_heap w c)) = None"
  shows "registered (set_interest S c ev w)"
proof -
  let ?ch = "chan_heap w c" and ?w = "upd_chan c (\<lambda>ch. ch\<lparr>events := ev\<rparr>) w"
  note R = registeredD[OF reg]
  show ?thesis
  proof (cases "index ?ch")
    case cNew
    let ?v = "upd_chan c (set_index cAdded) (?w\<lparr>channels := (channels w)(fd ?ch \<mapsto> c)\<rparr>)"
    have eq: "set_interest S c ev w = poller_update S EPOLL_CTL_ADD c ?v"
      using new[OF cNew] cNew by (simp add: set_interest_def poller_updateChannel_def Let_def)
    obtain r where tr: "trace (poller_update S EPOLL_CTL_ADD c ?v) =
        trace w @ [Sys_epoll_ctl (epollfd w) EPOLL_CTL_ADD (fd ?ch) ev c r]"
      using poller_update_trace[of S EPOLL_CTL_ADD c ?v] by auto
    have none: "interest w (fd ?ch) = None"
      using new[OF cNew] by (simp add: interest_def)
    have nc: "channels w f \<noteq> Some c" for f using R(2)[of f c] cNew by blast
    have it: "interest ?v = (interest w)(fd ?ch \<mapsto> (ev, c))"
      using nc by (auto simp: interest_def fun_eq_iff split: option.splits)
    have "ctl_run (epollfd w) (trace (poller_update S EPOLL_CTL_ADD c ?v)) Map.empty = Some (interest ?v)"
      by (simp add: tr ctl_run_snoc R(5) none it)
    moreover have "index (chan_heap w c') \<noteq> cNew \<Longrightarrow> fd (chan_heap w c') \<noteq> fd ?ch" for c'
      using R(3)[of c'] new[OF cNew] by auto
    ultimately show ?thesis
      unfolding eq using R(1-4) nc c new[OF cNew]
      by (intro registeredI) (auto split: if_splits)
  next
    case cDeleted
    have here: "channels w (fd ?ch) = Some c" using R(3)[of c] cDeleted by simp
    have eq: "set_interest S c ev w = ?w"
      using cDeleted here by (simp add: set_interest_def poller_updateChannel_def Let_def)
    have "interest ?w = interest w"
      using cDeleted by (auto simp: interest_def fun_eq_iff split: option.splits)
    then show ?thesis
      unfolding eq using cDeleted R(5)
      by (intro registered_change[OF reg here, where ch = "?ch\<lparr>events := ev\<rparr>"]) simp_all
  next
    case cAdded
    have here: "channels w (fd ?ch) = Some c" using R(3)[of c] cAdded by simp
    have other: "f \<noteq> fd ?ch \<Longrightarrow> channels w f \<noteq> Some c" for f using R(1)[of f c] by auto
    have some: "interest w (fd ?ch) = Some (events ?ch, c)" using here cAdded by (simp add: interest_def)
    show ?thesis
    proof (cases "ev = kNoneEvent")
      case True
      let ?v = "upd_chan c (set_index cDeleted) (poller_update S EPOLL_CTL_DEL c ?w)"
      have eq: "set_interest S c ev w = ?v"
        using cAdded here True by (simp add: set_interest_def poller_updateChannel_def Let_def isNoneEvent_def)
      obtain r where tr: "trace (poller_update S EPOLL_CTL_DEL c ?w) =
          trace w @ [Sys_epoll_ctl (epollfd w) EPOLL_CTL_DEL (fd ?ch) ev c r]"
        using poller_update_trace[of S EPOLL_CTL_DEL c ?w] by auto
      have it: "interest ?v = (interest w)(fd ?ch := None)"
        using other here by (auto simp: interest_def fun_eq_iff split: option.splits)
      have "ctl_run (epollfd w) (trace ?v) Map.empty = Some (interest ?v)"
        by (simp add: tr ctl_run_snoc R(5) some it)
      then show ?thesis
        unfolding eq
        by (intro registered_change[OF reg here, where ch = "set_index cDeleted (?ch\<lparr>events := ev\<rparr>)"]) simp_all
    next
      case False
      let ?v = "poller_update S EPOLL_CTL_MOD c ?w"
      have eq: "set_interest S c ev w = ?v"
        using cAdded here False by (simp add: set_interest_def poller_updateChannel_def Let_def isNoneEvent_def)
      obtain r where tr: "trace ?v = trace w @ [Sys_epoll_ctl (epollfd w) EPOLL_CTL_MOD (fd ?ch) ev c r]"
        using poller_update_trace[of S EPOLL_CTL_MOD c ?w] by auto
      have it: "interest ?w = (interest w)(fd ?ch \<mapsto> (ev, c))"
        using other here cAdded by (auto simp: interest_def fun_eq_iff split: option.splits)
      have "ctl_run (epollfd w) (trace ?v) Map.empty = Some (interest ?v)"
        by (simp add: tr ctl_run_snoc R(5) some it)
      then show ?thesis
        unfolding eq using cAdded
        by (intro registered_change[OF reg here, where ch = "?ch\<lparr>events := ev\<rparr>"]) simp_all
    qed
  qed
qed

lemma registered_remove:
  assumes reg: "registered w"
  shows "registered (poller_removeChannel S c w)"
proof (cases "channels w (fd (chan_heap w c)) = Some c \<and> isNoneEvent (chan_heap w c)")
  case False
  then show ?thesis using reg by (auto simp: poller_removeChannel_def Let_def)
next
  case True
  let ?ch = "chan_heap w c" and ?w = "w\<lparr>channels := (channels w)(fd (chan_heap w c) := None)\<rparr>"
  note R = registeredD[OF reg]
  have other: "f \<noteq> fd ?ch \<Longrightarrow> channels w f \<noteq> Some c" for f using R(1)[of f c] by auto
  have ne: "c' \<noteq> c \<Longrightarrow> index (chan_heap w c') \<noteq> cNew \<Longrightarrow> fd (chan_heap w c') \<noteq> fd ?ch" for c'
    using R(3)[of c'] True by auto
  show ?thesis
  proof (cases "index ?ch")
    case cNew
    then show ?thesis using R(2) True by blast
  next
    case cAdded
    let ?u = "poller_update S EPOLL_CTL_DEL c ?w"
    let ?v = "upd_chan c (set_index cNew) ?u"
    have eq: "poller_removeChannel S c w = ?v"
      using True cAdded by (simp add: poller_removeChannel_def Let_def)
    obtain r where tr: "trace ?u = trace w @ [Sys_epoll_ctl (epollfd w) EPOLL_CTL_DEL (fd ?ch) (events ?ch) c r]"
      using poller_update_trace[of S EPOLL_CTL_DEL c ?w] by auto
    have some: "interest w (fd ?ch) = Some (events ?ch, c)" using True cAdded by (simp add: interest_def)
    have it: "interest ?v = (interest w)(fd ?ch := None)"
      using other by (auto simp: interest_def fun_eq_iff split: option.splits)
    have "ctl_run (epollfd w) (trace ?v) Map.empty = Some (interest ?v)"
      by (simp add: tr ctl_run_snoc R(5) some it)
    then show ?thesis
      unfolding eq using R(1-4) ne other by (intro registeredI) (auto split: if_splits)
  next
    case cDeleted
    let ?v = "upd_chan c (set_index cNew) ?w"
    have eq: "poller_removeChannel S c w = ?v"
      using True cDeleted by (simp add: poller_removeChannel_def Let_def)
    have it: "interest ?v = interest w"
      using other cDeleted True by (auto simp: interest_def fun_eq_iff split: option.splits)
    show ?thesis
      unfolding eq using R(1-5) ne other it by (intro registeredI) (auto split: if_splits)
  qed
qed

lemma registered_poll:
  assumes reg: "registered w"
  shows "registered (snd (poller_poll S t w))"
proof -
  have fill: "registered v \<Longrightarrow> registered (snd (fillActiveChannels es v))"
    for es and v :: "('o, 't, 'z) poller_st_scheme"
  proof (induction es arbitrary: v)
    case (Cons e es)
    obtain ev c where e: "e = (ev, c)" by (cases e)
    have "interest (upd_chan c (set_revents ev) v) = interest v"
      by (rule ext) (simp add: interest_def set_revents_def split: option.splits)
    then have "registered (upd_chan c (set_revents ev) v)"
      using Cons.prems by (simp add: registered_def set_revents_def)
    from Cons.IH[OF this] show ?case by (simp add: e case_prod_beta)
  qed simp
  have log: "registered (log_call (Sys_epoll_wait ep n r) k w)" for ep n r k
    using reg interest_cong[of "log_call (Sys_epoll_wait ep n r) k w" w]
    by (simp add: registered_def ctl_run_snoc)
  have grow: "registered v \<Longrightarrow> registered (v\<lparr>events_size := n\<rparr>)" for v :: "('o, 't, 'z) poller_st_scheme" and n
    using interest_cong[of "v\<lparr>events_size := n\<rparr>" v] by (simp add: registered_def)
  show ?thesis
    by (simp add: poller_poll_def sys_eqs case_prod_beta fill log grow)
qed

lemma registered_alloc:
  assumes reg: "registered w"
  shows "registered (snd (alloc_channel sockfd w))"
proof -
  have nc: "index (chan_heap w (next_chan w)) = cNew" using registeredD(4)[OF reg] by simp
  then have ne: "channels w f \<noteq> Some (next_chan w)" for f using registeredD(2)[OF reg] by blast
  have "interest (snd (alloc_channel sockfd w)) = interest w"
    using ne by (auto simp: interest_def alloc_channel_def fun_eq_iff split: option.splits)
  then show ?thesis
    using reg ne by (auto simp: registered_def alloc_channel_def new_channel_def)
qed

subsection \<open>Runs of the poller\<close>

text \<open>
  What the rest of the program does with a poller and its channels: it creates channels,
  changes the interest of one, removes one, and polls.  A channel is first registered under
  a descriptor that no other channel holds, as the kernel numbers open descriptors.
\<close>

inductive poller_step :: "'o os_calls \<Rightarrow> ('o, 't, 'z) poller_st_scheme \<Rightarrow>
    ('o, 't, 'z) poller_st_scheme \<Rightarrow> bool" for S where
  alloc: "poller_step S w (snd (alloc_channel sockfd w))"
| interest: "c < next_chan w \<Longrightarrow>
    (index (chan_heap w c) = cNew \<Longrightarrow> channels w (fd (chan_heap w c)) = None) \<Longrightarrow>
    poller_step S w (set_interest S c ev w)"
| remove: "poller_step S w (poller_removeChannel S c w)"
| poll: "poller_step S w (snd (poller_poll S t w))"

inductive_cases poller_stepE: "poller_step S v w"

lemma registered_step: "poller_step S v w \<Longrightarrow> registered v \<Longrightarrow> registered w"
  by (erule poller_stepE)
    (auto intro: registered_alloc registered_set_interest registered_remove registered_poll)

lemma registered_run: "(poller_step S)\<^sup>*\<^sup>* v w \<Longrightarrow> registered v \<Longrightarrow> registered w"
  by (induction rule: rtranclp_induct) (auto intro: registered_step)

lemma registered_new:
  assumes "\<forall>c. index (chan_heap w c) = cNew" and "ctl_run (epollfd (poller_new S w)) (trace w) Map.empty = Some Map.empty"
  shows "registered (poller_new S w)"
proof -
  have "interest (poller_new S w) = Map.empty"
    by (rule ext) (simp add: interest_def poller_new_def case_prod_beta)
  then show ?thesis
    using assms by (simp add: registered_def poller_new_def sys_eqs case_prod_beta ctl_run_snoc)
qed

text \<open>C11: From a new poller on, whatever the program does with its channels, no
  \<open>epoll_ctl\<close> request contradicts an earlier one (an \<open>ADD\<close> of a registered descriptor, a
  \<open>MOD\<close> or \<open>DEL\<close> of one that is not), and the kernel then watches exactly the channels whose
  index is \<open>cAdded\<close>, each with the mask and the pointer its \<open>Channel\<close> holds.\<close>
theorem poller_matches_epoll:
  assumes "\<forall>c. index (chan_heap w0 c) = cNew" and "trace w0 = []"
    and "(poller_step S)\<^sup>*\<^sup>* (poller_new S w0) w"
  shows "ctl_run (epollfd w) (trace w) Map.empty = Some (interest w)"
  using registered_run[OF assms(3)] registered_new[of w0 S] assms(1,2) by (simp add: registered_def)

definition nop_kernel :: "unit os_calls" where
  "nop_kernel =
     \<lparr>os_socket = (\<lambda>k. (3, k)), os_eventfd = (\<lambda>k. (4, k)), os_epoll_create = (\<lambda>k. (5, k)),
      os_setsockopt = (\<lambda>_ _ _ k. (0, k)), os_bind = (\<lambda>_ _ k. (0, k)), os_listen = (\<lambda>_ k. (0, k)),
      os_accept = (\<lambda>_ k. ((-1, zero_addr), k)), os_getsockname = (\<lambda>_ k. ((0, zero_addr), k)),
      os_read = (\<lambda>_ _ k. ((0, [], EINTR), k)), os_write = (\<lambda>_ bs k. ((int (length bs), EINTR), k)),
      os_shutdown = (\<lambda>_ _ k. (0, k)), os_close = (\<lambda>_ k. (0, k)),
      os_epoll_ctl = (\<lambda>_ _ _ _ _ k. (0, k)), os_epoll_wait = (\<lambda>_ _ _ k. ((0, []), k))\<rparr>"

definition empty_poller :: "(unit, nat) poller_st" where
  "empty_poller = \<lparr>os = (), trace = [], refs = (\<lambda>_. 0), chan_heap = (\<lambda>_. new_channel 0),
     next_chan = 0, epollfd = -1, events_size = 0, channels = Map.empty\<rparr>"

definition sample_run :: "(unit, nat) poller_st" where
  "sample_run = set_interest nop_kernel 0 3
     (snd (alloc_channel 7 (poller_new nop_kernel empty_poller)))"

lemma sample_run_reached: "(poller_step nop_kernel)\<^sup>*\<^sup>* (poller_new nop_kernel empty_poller) sample_run"
proof -
  have "poller_step nop_kernel (poller_new nop_kernel empty_poller)
      (snd (alloc_channel 7 (poller_new nop_kernel empty_poller)))"
    by (rule poller_step.alloc)
  moreover have "poller_step nop_kernel (snd (alloc_channel 7 (poller_new nop_kernel empty_poller))) sample_run"
    unfolding sample_run_def
    by (rule poller_step.interest)
      (simp_all add: alloc_channel_def poller_new_def sys_eqs case_prod_beta)
  ultimately show ?thesis by (meson converse_rtranclp_into_rtranclp rtranclp.rtrancl_refl)
qed

lemma poller_matches_epoll_witness:
  "ctl_run (epollfd sample_run) (trace sample_run) Map.empty = Some (interest sample_run)
   \<and> interest sample_run 7 = Some (3, 0)"
proof -
  have "interest sample_run 7 = Some (3, 0)"
    by (simp add: sample_run_def interest_def set_interest_def poller_updateChannel_def alloc_channel_def
        poller_new_def new_channel_def poller_update_def sys_eqs case_prod_beta empty_poller_def nop_kernel_def)
  then show ?thesis
    using poller_matches_epoll[OF _ _ sample_run_reached]
    by (simp add: empty_poller_def new_channel_def)
qed

lemma deaf_step:
  assumes "channels w (fd (chan_heap w c)) = Some c" and "index (chan_heap w c) = cDeleted"
  shows "set_interest S c ev w = upd_chan c (\<lambda>ch. ch\<lparr>events := ev\<rparr>) w"
  using assms by (simp add: set_interest_def poller_updateChannel_def)

text \<open>C18: A channel whose interest was emptied while it was registered (\<open>cDeleted\<close>)
  stays deaf: however often reading or writing is enabled again, the masks reach the object
  only, no \<open>epoll_ctl\<close> is issued, and the descriptor is not watched.\<close>
theorem deleted_channel_stays_deaf:
  assumes "channels w (fd (chan_heap w c)) = Some c" and "index (chan_heap w c) = cDeleted"
  shows "trace (fold (set_interest S c) evs w) = trace w \<and>
         interest (fold (set_interest S c) evs w) (fd (chan_heap w c)) = None"
  using assms
proof (induction evs arbitrary: w)
  case Nil
  then show ?case by (simp add: interest_def)
next
  case (Cons ev evs)
  note step = deaf_step[OF Cons.prems, where S = S and ev = ev]
  have "channels (set_interest S c ev w) (fd (chan_heap (set_interest S c ev w) c)) = Some c"
    "index (chan_heap (set_interest S c ev w) c) = cDeleted"
    using Cons.prems by (simp_all add: step)
  from Cons.IH[OF this] show ?case by (simp add: step)
qed

lemma deleted_channel_stays_deaf_witness:
  "trace (fold (set_interest nop_kernel 0) [3, 4] (set_interest nop_kernel 0 0 sample_run))
     = trace (set_interest nop_kernel 0 0 sample_run)
   \<and> interest (fold (set_interest nop_kernel 0) [3, 4] (set_interest nop_kernel 0 0 sample_run)) 7 = None"
proof -
  let ?w = "set_interest nop_kernel 0 0 sample_run"
  have "channels ?w (fd (chan_heap ?w 0)) = Some 0" "index (chan_heap ?w 0) = cDeleted" "fd (chan_heap ?w 0) = 7"
    by (simp_all add: sample_run_def set_interest_def poller_updateChannel_def alloc_channel_def isNoneEvent_def
        kNoneEvent_def poller_new_def new_channel_def poller_update_def sys_eqs case_prod_beta empty_poller_def)
  then show ?thesis using deleted_channel_stays_deaf[of ?w 0 nop_kernel "[3, 4]"] by simp
qed

end
