(* ===== verification/EventLoop.thy ===== *)
theory EventLoop
  imports Poller
begin

text \<open>
  The class \<open>EventLoop\<close> (EventLoop.h, EventLoop.cpp): its members, the queue of functors,
  the wake-up descriptor, and the operations that other components call on the loop.  The
  iteration itself is in \<open>LoopThread\<close>, since it calls the channels' handlers.

  There is one loop.  \<open>thisThread\<close> is the thread that executes the code
  (\<open>std::this_thread::get_id\<close>).  A functor is a value of type \<open>'t\<close>; \<open>own t\<close> is the
  object that a \<open>shared_ptr\<close> bound in the functor keeps alive.
\<close>

section \<open>State\<close>

record ('o, 't) loop_st = "('o, 't) poller_st" +
  quit :: bool
  eventHandling :: bool
  callingPendingFunctors :: bool
  wakeupFd :: int
  wakeupChannel :: nat
  threadId :: nat
  thisThread :: nat
  activeChannels :: "nat list"
  currentActiveChannel :: "nat option"
  pendingFunctors :: "'t list"

definition kPollTimeMs :: int where
  "kPollTimeMs = 10000"

definition isInLoopThread :: "('o, 't, 'z) loop_st_scheme \<Rightarrow> bool" where
  "isInLoopThread w \<longleftrightarrow> threadId w = thisThread w"

text \<open>\<open>assertInLoopThread\<close> only logs (\<open>abortNotInLoopThread\<close> does not abort).\<close>

definition assertInLoopThread :: "('o, 't, 'z) loop_st_scheme \<Rightarrow> ('o, 't, 'z) loop_st_scheme" where
  "assertInLoopThread w = w"

section \<open>Operations\<close>

definition createEventfd :: "'o os_calls \<Rightarrow> ('o, 'z) process_scheme \<Rightarrow> (int \<times> ('o, 'z) process_scheme) res" where
  "createEventfd S w = (case sys_eventfd S w of (r, w1) \<Rightarrow> if r < 0 then Inl Abort_called else Inr (r, w1))"

text \<open>The eight bytes of the \<open>uint64_t\<close> 1 in memory (the target is little endian).\<close>

definition eventfd_one :: "byte list" where
  "eventfd_one = le_bytes 8 1"

definition wakeup :: "'o os_calls \<Rightarrow> ('o, 't, 'z) loop_st_scheme \<Rightarrow> ('o, 't, 'z) loop_st_scheme" where
  "wakeup S w = snd (sock_write S (wakeupFd w) eventfd_one w)"

definition loop_handleRead :: "'o os_calls \<Rightarrow> ('o, 't, 'z) loop_st_scheme \<Rightarrow> ('o, 't, 'z) loop_st_scheme" where
  "loop_handleRead S w = snd (sock_read S (wakeupFd w) 8 w)"

definition queueInLoop :: "'o os_calls \<Rightarrow> ('t \<Rightarrow> nat option) \<Rightarrow> 't \<Rightarrow>
    ('o, 't, 'z) loop_st_scheme \<Rightarrow> ('o, 't, 'z) loop_st_scheme" where
  "queueInLoop S own t w =
     (let w1 = acquire_opt (own t) (w\<lparr>pendingFunctors := pendingFunctors w @ [t]\<rparr>)
      in if \<not> isInLoopThread w1 \<or> callingPendingFunctors w1 then wakeup S w1 else w1)"

text \<open>\<open>runInLoop\<close> of the functor \<open>t\<close>, whose call is \<open>call\<close>.\<close>

definition runInLoop :: "'o os_calls \<Rightarrow> ('t \<Rightarrow> nat option) \<Rightarrow> 't \<Rightarrow>
    (('o, 't, 'z) loop_st_scheme \<Rightarrow> ('o, 't, 'z) loop_st_scheme res) \<Rightarrow>
    ('o, 't, 'z) loop_st_scheme \<Rightarrow> ('o, 't, 'z) loop_st_scheme res" where
  "runInLoop S own t call w = (if isInLoopThread w then call w else Inr (queueInLoop S own t w))"

text \<open>The lines \<open>printActiveChannels\<close> prints.\<close>

definition printActiveChannels :: "('o, 't, 'z) loop_st_scheme \<Rightarrow> string list" where
  "printActiveChannels w =
     map (\<lambda>(cnt, c). ''['' @ dec_int (int cnt) @ '']:{'' @ Channel_reventsToString (chan_heap w c) @ ''}'')
       (enumerate 1 (activeChannels w))"

definition quitLoop :: "'o os_calls \<Rightarrow> ('o, 't, 'z) loop_st_scheme \<Rightarrow> ('o, 't, 'z) loop_st_scheme" where
  "quitLoop S w = (let w1 = w\<lparr>quit := True\<rparr> in if isInLoopThread w1 then w1 else wakeup S w1)"

definition loop_updateChannel :: "'o os_calls \<Rightarrow> nat \<Rightarrow>
    ('o, 't, 'z) loop_st_scheme \<Rightarrow> ('o, 't, 'z) loop_st_scheme" where
  "loop_updateChannel S c w = poller_updateChannel S c (assertInLoopThread w)"

text \<open>\<open>removeChannel\<close> only logs whether the channel is active.\<close>

definition loop_removeChannel :: "'o os_calls \<Rightarrow> nat \<Rightarrow>
    ('o, 't, 'z) loop_st_scheme \<Rightarrow> ('o, 't, 'z) loop_st_scheme" where
  "loop_removeChannel S c w = poller_removeChannel S c (assertInLoopThread w)"

text \<open>
  \<open>doPendingFunctors\<close> swaps the queue with a local vector, runs the functors in order, and
  the vector's destruction drops what they own.  An exception leaves the function.
\<close>

fun release_all :: "(nat \<Rightarrow> ('o, 'z) shared_scheme \<Rightarrow> ('o, 'z) shared_scheme) \<Rightarrow> ('t \<Rightarrow> nat option) \<Rightarrow>
    't list \<Rightarrow> ('o, 'z) shared_scheme \<Rightarrow> ('o, 'z) shared_scheme" where
  "release_all dtor own [] w = w"
| "release_all dtor own (t # ts) w = release_all dtor own ts (release_opt dtor (own t) w)"

definition doPendingFunctors :: "(nat \<Rightarrow> ('o, 't, 'z) loop_st_scheme \<Rightarrow> ('o, 't, 'z) loop_st_scheme) \<Rightarrow>
    ('t \<Rightarrow> nat option) \<Rightarrow> ('t \<Rightarrow> ('o, 't, 'z) loop_st_scheme \<Rightarrow> ('o, 't, 'z) loop_st_scheme res) \<Rightarrow>
    ('o, 't, 'z) loop_st_scheme \<Rightarrow> ('o, 't, 'z) loop_st_scheme res" where
  "doPendingFunctors dtor own run w =
     (let functors = pendingFunctors w
      in ebind (foldE run functors (w\<lparr>callingPendingFunctors := True, pendingFunctors := []\<rparr>))
           (\<lambda>w1. Inr (release_all dtor own functors (w1\<lparr>callingPendingFunctors := False\<rparr>))))"

lemmas loop_op_defs = wakeup_def loop_handleRead_def queueInLoop_def runInLoop_def quitLoop_def
  loop_updateChannel_def loop_removeChannel_def assertInLoopThread_def

section \<open>Frame facts\<close>

lemma log_call_loop [simp]:
  "quit (log_call e k w) = quit w" "eventHandling (log_call e k w) = eventHandling w"
  "callingPendingFunctors (log_call e k w) = callingPendingFunctors w"
  "wakeupFd (log_call e k w) = wakeupFd w" "wakeupChannel (log_call e k w) = wakeupChannel w"
  "threadId (log_call e k w) = threadId w" "thisThread (log_call e k w) = thisThread w"
  "activeChannels (log_call e k w) = activeChannels w"
  "currentActiveChannel (log_call e k w) = currentActiveChannel w"
  "pendingFunctors (log_call e k w) = pendingFunctors w"
  by (simp_all add: log_call_def)

end
