(* ===== verification/ChannelEvents.thy ===== *)
theory ChannelEvents
  imports EventLoop
begin

text \<open>
  The operations of a \<open>Channel\<close> (Channel.cpp) that reach its event loop or call its owner:
  changes of interest, removal, and the dispatch of the events the poller stored.  The
  owner's handlers are called through \<open>run\<close>; a tied channel locks its owner first and
  releases it after the handlers.
\<close>

section \<open>Operations\<close>

definition channel_update :: "'o os_calls \<Rightarrow> nat \<Rightarrow> ('o, 't, 'z) loop_st_scheme \<Rightarrow> ('o, 't, 'z) loop_st_scheme" where
  "channel_update S c w = loop_updateChannel S c (upd_chan c (\<lambda>ch. ch\<lparr>addedToLoop := True\<rparr>) w)"

definition channel_remove :: "'o os_calls \<Rightarrow> nat \<Rightarrow> ('o, 't, 'z) loop_st_scheme \<Rightarrow> ('o, 't, 'z) loop_st_scheme" where
  "channel_remove S c w =
     (if isNoneEvent (chan_heap w c)
      then loop_removeChannel S c (upd_chan c (\<lambda>ch. ch\<lparr>addedToLoop := False\<rparr>) w) else w)"

definition enableReading :: "'o os_calls \<Rightarrow> nat \<Rightarrow> ('o, 't, 'z) loop_st_scheme \<Rightarrow> ('o, 't, 'z) loop_st_scheme" where
  "enableReading S c w = channel_update S c (upd_chan c want_reading w)"

definition disableReading :: "'o os_calls \<Rightarrow> nat \<Rightarrow> ('o, 't, 'z) loop_st_scheme \<Rightarrow> ('o, 't, 'z) loop_st_scheme" where
  "disableReading S c w = channel_update S c (upd_chan c unwant_reading w)"

definition enableWriting :: "'o os_calls \<Rightarrow> nat \<Rightarrow> ('o, 't, 'z) loop_st_scheme \<Rightarrow> ('o, 't, 'z) loop_st_scheme" where
  "enableWriting S c w = channel_update S c (upd_chan c want_writing w)"

definition disableWriting :: "'o os_calls \<Rightarrow> nat \<Rightarrow> ('o, 't, 'z) loop_st_scheme \<Rightarrow> ('o, 't, 'z) loop_st_scheme" where
  "disableWriting S c w = channel_update S c (upd_chan c unwant_writing w)"

definition disableAll :: "'o os_calls \<Rightarrow> nat \<Rightarrow> ('o, 't, 'z) loop_st_scheme \<Rightarrow> ('o, 't, 'z) loop_st_scheme" where
  "disableAll S c w = channel_update S c (upd_chan c want_nothing w)"

text \<open>One clause of the dispatch: the event test, then the test of the function object.\<close>

definition fire :: "('t \<Rightarrow> ('o, 't, 'z) loop_st_scheme \<Rightarrow> ('o, 't, 'z) loop_st_scheme res) \<Rightarrow> nat \<Rightarrow>
    (32 word \<Rightarrow> bool) \<Rightarrow> ('t channel \<Rightarrow> 't option) \<Rightarrow>
    ('o, 't, 'z) loop_st_scheme \<Rightarrow> ('o, 't, 'z) loop_st_scheme res" where
  "fire run c happened cb w =
     (if happened (revents (chan_heap w c)) then
        (case cb (chan_heap w c) of Some t \<Rightarrow> run t w | None \<Rightarrow> Inr w)
      else Inr w)"

definition handleEventWithGuard :: "('t \<Rightarrow> ('o, 't, 'z) loop_st_scheme \<Rightarrow> ('o, 't, 'z) loop_st_scheme res) \<Rightarrow> nat \<Rightarrow>
    ('o, 't, 'z) loop_st_scheme \<Rightarrow> ('o, 't, 'z) loop_st_scheme res" where
  "handleEventWithGuard run c w =
     ebind (fire run c (\<lambda>r. r AND EPOLLHUP \<noteq> 0 \<and> r AND EPOLLIN = 0) closeCallback
              (upd_chan c (\<lambda>ch. ch\<lparr>ch_eventHandling := True\<rparr>) w))
      (\<lambda>w1. ebind (fire run c (\<lambda>r. r AND EPOLLERR \<noteq> 0) errorCallback w1)
      (\<lambda>w2. ebind (fire run c (\<lambda>r. r AND (EPOLLIN OR EPOLLPRI OR EPOLLRDHUP) \<noteq> 0) readCallback w2)
      (\<lambda>w3. ebind (fire run c (\<lambda>r. r AND EPOLLOUT \<noteq> 0) writeCallback w3)
      (\<lambda>w4. Inr (upd_chan c (\<lambda>ch. ch\<lparr>ch_eventHandling := False\<rparr>) w4)))))"

definition handleEvent :: "(nat \<Rightarrow> ('o, 't, 'z) loop_st_scheme \<Rightarrow> ('o, 't, 'z) loop_st_scheme) \<Rightarrow>
    ('t \<Rightarrow> ('o, 't, 'z) loop_st_scheme \<Rightarrow> ('o, 't, 'z) loop_st_scheme res) \<Rightarrow> nat \<Rightarrow>
    ('o, 't, 'z) loop_st_scheme \<Rightarrow> ('o, 't, 'z) loop_st_scheme res" where
  "handleEvent dtor run c w =
     (let ch = chan_heap w c in
      if tied ch then
        (if expired (tie ch) w then Inr w
         else ebind (handleEventWithGuard run c (acquire_opt (tie ch) w))
                (\<lambda>w1. Inr (release_opt dtor (tie ch) w1)))
      else handleEventWithGuard run c w)"

lemmas channel_op_defs = enableReading_def disableReading_def enableWriting_def disableWriting_def disableAll_def

section \<open>Effect on the poller\<close>

text \<open>Each change of interest is a \<open>set_interest\<close> of the poller, up to \<open>addedToLoop_\<close>.\<close>

lemma channel_update_interest:
  assumes "\<And>ch. f ch = ch\<lparr>events := g (events ch)\<rparr>"
  shows "channel_update S c (upd_chan c f w) =
         set_interest S c (g (events (chan_heap w c))) (upd_chan c (\<lambda>ch. ch\<lparr>addedToLoop := True\<rparr>) w)"
  by (cases "chan_heap w c") (simp add: channel_update_def loop_op_defs set_interest_def upd_chan_def assms)

lemma registered_mark:
  assumes "\<And>ch. fd (f ch) = fd ch" "\<And>ch. events (f ch) = events ch" "\<And>ch. index (f ch) = index ch"
  shows "registered (upd_chan c f w) = registered w"
proof -
  have "interest (upd_chan c f w) = interest w"
    by (rule ext) (simp add: interest_def assms split: option.splits)
  moreover have "fd (chan_heap (upd_chan c f w) d) = fd (chan_heap w d)"
    "index (chan_heap (upd_chan c f w) d) = index (chan_heap w d)" for d
    by (simp_all add: assms)
  ultimately show ?thesis by (simp add: registered_def del: chan_heap_upd)
qed

lemma registered_channel_update:
  assumes "registered w" "c < next_chan w"
    and "index (chan_heap w c) = cNew \<Longrightarrow> channels w (fd (chan_heap w c)) = None"
    and "\<And>ch. f ch = ch\<lparr>events := g (events ch)\<rparr>"
  shows "registered (channel_update S c (upd_chan c f w))"
  unfolding channel_update_interest[where f = f and g = g, OF assms(4)]
  using assms(1-3) by (intro registered_set_interest) (simp_all add: registered_mark)

lemma registered_changes:
  assumes "registered w" "c < next_chan w"
    and "index (chan_heap w c) = cNew \<Longrightarrow> channels w (fd (chan_heap w c)) = None"
  shows "registered (enableReading S c w)" "registered (disableReading S c w)"
    "registered (enableWriting S c w)" "registered (disableWriting S c w)" "registered (disableAll S c w)"
proof -
  note upd = registered_channel_update[OF assms]
  show "registered (enableReading S c w)" unfolding channel_op_defs
    by (rule upd[where g = "\<lambda>e. e OR kReadEvent"]) (simp_all add: want_defs)
  show "registered (disableReading S c w)" unfolding channel_op_defs
    by (rule upd[where g = "\<lambda>e. e AND NOT kReadEvent"]) (simp_all add: want_defs)
  show "registered (enableWriting S c w)" unfolding channel_op_defs
    by (rule upd[where g = "\<lambda>e. e OR kWriteEvent"]) (simp_all add: want_defs)
  show "registered (disableWriting S c w)" unfolding channel_op_defs
    by (rule upd[where g = "\<lambda>e. e AND NOT kWriteEvent"]) (simp_all add: want_defs)
  show "registered (disableAll S c w)" unfolding channel_op_defs
    by (rule upd[where g = "\<lambda>e. kNoneEvent"]) (simp_all add: want_defs)
qed

lemma registered_channel_remove: "registered w \<Longrightarrow> registered (channel_remove S c w)"
  by (simp add: channel_remove_def loop_op_defs registered_remove registered_mark)

section \<open>Dispatch\<close>

text \<open>
  The dispatch keeps what the handlers of the channel and the two markings keep.
\<close>

lemma fire_invariant:
  assumes "fire run c h cb w = Inr v" "J w"
    and "\<And>t u v. cb (chan_heap u c) = Some t \<Longrightarrow> J u \<Longrightarrow> run t u = Inr v \<Longrightarrow> J v"
  shows "J v"
  using assms by (auto simp: fire_def split: if_splits option.splits)

lemma handleEventWithGuard_invariant:
  assumes "handleEventWithGuard run c w = Inr v" "J w"
    and run: "\<And>t u v. t \<in> set_option (closeCallback (chan_heap u c)) \<union> set_option (errorCallback (chan_heap u c))
        \<union> set_option (readCallback (chan_heap u c)) \<union> set_option (writeCallback (chan_heap u c)) \<Longrightarrow>
        J u \<Longrightarrow> run t u = Inr v \<Longrightarrow> J v"
    and mark: "\<And>u b. J u \<Longrightarrow> J (upd_chan c (\<lambda>ch. ch\<lparr>ch_eventHandling := b\<rparr>) u)"
  shows "J v"
proof -
  let ?w0 = "upd_chan c (\<lambda>ch. ch\<lparr>ch_eventHandling := True\<rparr>) w"
  obtain w1 w2 w3 w4 where
    s: "fire run c (\<lambda>r. r AND EPOLLHUP \<noteq> 0 \<and> r AND EPOLLIN = 0) closeCallback ?w0 = Inr w1"
      "fire run c (\<lambda>r. r AND EPOLLERR \<noteq> 0) errorCallback w1 = Inr w2"
      "fire run c (\<lambda>r. r AND (EPOLLIN OR EPOLLPRI OR EPOLLRDHUP) \<noteq> 0) readCallback w2 = Inr w3"
      "fire run c (\<lambda>r. r AND EPOLLOUT \<noteq> 0) writeCallback w3 = Inr w4"
      "v = upd_chan c (\<lambda>ch. ch\<lparr>ch_eventHandling := False\<rparr>) w4"
    using assms(1) by (auto simp: handleEventWithGuard_def ebind_eq_Inr)
  have "J ?w0" using mark assms(2) by blast
  with s(1) have "J w1" by (rule fire_invariant) (auto intro: run)
  with s(2) have "J w2" by (rule fire_invariant) (auto intro: run)
  with s(3) have "J w3" by (rule fire_invariant) (auto intro: run)
  with s(4) have "J w4" by (rule fire_invariant) (auto intro: run)
  with s(5) mark show ?thesis by blast
qed

text \<open>Without a pending event nothing is called, and an expired owner is never called.\<close>

lemma handleEvent_expired:
  "tied (chan_heap w c) \<Longrightarrow> expired (tie (chan_heap w c)) w \<Longrightarrow> handleEvent dtor run c w = Inr w"
  by (simp add: handleEvent_def)

end
