(* ===== verification/LoopThread.thy ===== *)
theory LoopThread
  imports ChannelEvents
begin

text \<open>
  The event loop itself (EventLoop.cpp): construction, destruction, one iteration of
  \<open>loopthread\<close> and the loop.  \<open>loopthread\<close> runs until a task sets \<open>quit\<close>; it may run
  forever, so its model is a partial function whose value \<open>None\<close> means it does not return.
  The locale \<open>loop_client\<close> is the contract between the loop and the program whose tasks it
  runs: what a functor may do to the queue.  Under it every functor queued while functors
  run is followed by a wake-up the loop has not consumed yet.
\<close>

section \<open>Operations\<close>

text \<open>\<open>wake\<close> is the bound \<open>&EventLoop::handleRead\<close>.  The wake-up channel is built twice.\<close>

definition loop_new :: "'o os_calls \<Rightarrow> 't \<Rightarrow> ('o, 't, 'z) loop_st_scheme \<Rightarrow> ('o, 't, 'z) loop_st_scheme res" where
  "loop_new S wake w =
     ebind (createEventfd S w) (\<lambda>(r, w1).
       (let w2 = w1\<lparr>quit := False, eventHandling := False, callingPendingFunctors := False, wakeupFd := r,
                    threadId := thisThread w1, activeChannels := [], currentActiveChannel := None,
                    pendingFunctors := []\<rparr>;
            w3 = snd (alloc_channel r w2);
            w4 = poller_new S w3
        in (case alloc_channel r w4 of (c, w5) \<Rightarrow>
              Inr (enableReading S c (upd_chan c (setReadCallback wake) (w5\<lparr>wakeupChannel := c\<rparr>))))))"

definition loop_destroy :: "'o os_calls \<Rightarrow> ('o, 't, 'z) loop_st_scheme \<Rightarrow> ('o, 't, 'z) loop_st_scheme" where
  "loop_destroy S w =
     (let w1 = channel_remove S (wakeupChannel w) (disableAll S (wakeupChannel w) w)
      in snd (sys_close S (wakeupFd w1) w1))"

definition handleActive :: "(nat \<Rightarrow> ('o, 't, 'z) loop_st_scheme \<Rightarrow> ('o, 't, 'z) loop_st_scheme) \<Rightarrow>
    ('t \<Rightarrow> ('o, 't, 'z) loop_st_scheme \<Rightarrow> ('o, 't, 'z) loop_st_scheme res) \<Rightarrow> nat \<Rightarrow>
    ('o, 't, 'z) loop_st_scheme \<Rightarrow> ('o, 't, 'z) loop_st_scheme res" where
  "handleActive dtor run c w = handleEvent dtor run c (w\<lparr>currentActiveChannel := Some c\<rparr>)"

definition loop_poll :: "'o os_calls \<Rightarrow> ('o, 't, 'z) loop_st_scheme \<Rightarrow> ('o, 't, 'z) loop_st_scheme" where
  "loop_poll S w =
     (case poller_poll S kPollTimeMs (w\<lparr>activeChannels := []\<rparr>) of (cs, w1) \<Rightarrow> w1\<lparr>activeChannels := cs\<rparr>)"

definition loop_body :: "'o os_calls \<Rightarrow> (nat \<Rightarrow> ('o, 't, 'z) loop_st_scheme \<Rightarrow> ('o, 't, 'z) loop_st_scheme) \<Rightarrow>
    ('t \<Rightarrow> nat option) \<Rightarrow> ('t \<Rightarrow> ('o, 't, 'z) loop_st_scheme \<Rightarrow> ('o, 't, 'z) loop_st_scheme res) \<Rightarrow>
    ('o, 't, 'z) loop_st_scheme \<Rightarrow> ('o, 't, 'z) loop_st_scheme res" where
  "loop_body S dtor own run w =
     (let w1 = loop_poll S w
      in ebind (foldE (handleActive dtor run) (activeChannels w1) (w1\<lparr>eventHandling := True\<rparr>))
           (\<lambda>w2. doPendingFunctors dtor own run (w2\<lparr>currentActiveChannel := None, eventHandling := False\<rparr>)))"

partial_function (option) loop_while ::
    "'o os_calls \<Rightarrow> (nat \<Rightarrow> ('o, 't, 'z) loop_st_scheme \<Rightarrow> ('o, 't, 'z) loop_st_scheme) \<Rightarrow>
     ('t \<Rightarrow> nat option) \<Rightarrow> ('t \<Rightarrow> ('o, 't, 'z) loop_st_scheme \<Rightarrow> ('o, 't, 'z) loop_st_scheme res) \<Rightarrow>
     ('o, 't, 'z) loop_st_scheme \<Rightarrow> ('o, 't, 'z) loop_st_scheme res option" where
  "loop_while S dtor own run w =
     (if quit w then Some (Inr w)
      else (case loop_body S dtor own run w of
              Inl e \<Rightarrow> Some (Inl e)
            | Inr w1 \<Rightarrow> loop_while S dtor own run w1))"

text \<open>\<open>loop\<close> starts a new thread \<open>t\<close> that executes \<open>loopthread\<close>.\<close>

definition loopthread :: "'o os_calls \<Rightarrow> (nat \<Rightarrow> ('o, 't, 'z) loop_st_scheme \<Rightarrow> ('o, 't, 'z) loop_st_scheme) \<Rightarrow>
     ('t \<Rightarrow> nat option) \<Rightarrow> ('t \<Rightarrow> ('o, 't, 'z) loop_st_scheme \<Rightarrow> ('o, 't, 'z) loop_st_scheme res) \<Rightarrow>
     ('o, 't, 'z) loop_st_scheme \<Rightarrow> ('o, 't, 'z) loop_st_scheme res option" where
  "loopthread S dtor own run w = loop_while S dtor own run ((assertInLoopThread w)\<lparr>quit := False\<rparr>)"

definition loop_start :: "'o os_calls \<Rightarrow> (nat \<Rightarrow> ('o, 't, 'z) loop_st_scheme \<Rightarrow> ('o, 't, 'z) loop_st_scheme) \<Rightarrow>
     ('t \<Rightarrow> nat option) \<Rightarrow> ('t \<Rightarrow> ('o, 't, 'z) loop_st_scheme \<Rightarrow> ('o, 't, 'z) loop_st_scheme res) \<Rightarrow> nat \<Rightarrow>
     ('o, 't, 'z) loop_st_scheme \<Rightarrow> ('o, 't, 'z) loop_st_scheme res option" where
  "loop_start S dtor own run t w = loopthread S dtor own run (w\<lparr>thisThread := t\<rparr>)"

section \<open>When the loop returns\<close>

text \<open>\<open>n\<close> iterations in a row.\<close>

fun iterations :: "'o os_calls \<Rightarrow> (nat \<Rightarrow> ('o, 't, 'z) loop_st_scheme \<Rightarrow> ('o, 't, 'z) loop_st_scheme) \<Rightarrow>
     ('t \<Rightarrow> nat option) \<Rightarrow> ('t \<Rightarrow> ('o, 't, 'z) loop_st_scheme \<Rightarrow> ('o, 't, 'z) loop_st_scheme res) \<Rightarrow> nat \<Rightarrow>
     ('o, 't, 'z) loop_st_scheme \<Rightarrow> ('o, 't, 'z) loop_st_scheme res" where
  "iterations S dtor own run 0 w = Inr w"
| "iterations S dtor own run (Suc n) w = ebind (loop_body S dtor own run w) (iterations S dtor own run n)"

lemma loop_while_iterations:
  assumes "iterations S dtor own run n w = Inr w1" and "quit w1"
    and "\<And>m u. m < n \<Longrightarrow> iterations S dtor own run m w = Inr u \<Longrightarrow> \<not> quit u"
  shows "loop_while S dtor own run w = Some (Inr w1)"
  using assms
proof (induction n arbitrary: w)
  case 0
  then show ?case by (subst loop_while.simps) simp
next
  case (Suc n)
  from Suc.prems(1) obtain v where v: "loop_body S dtor own run w = Inr v"
    "iterations S dtor own run n v = Inr w1" by (auto simp: ebind_eq_Inr)
  have "\<not> quit w" using Suc.prems(3)[of 0 w] by simp
  moreover have "loop_while S dtor own run v = Some (Inr w1)"
  proof (rule Suc.IH[OF v(2) Suc.prems(2)])
    fix m u assume "m < n" "iterations S dtor own run m v = Inr u"
    then show "\<not> quit u" using Suc.prems(3)[of "Suc m" u] v(1) by simp
  qed
  ultimately show ?case using v(1) by (subst loop_while.simps) simp
qed

text \<open>Conversely the loop returns normally only after an iteration that set \<open>quit_\<close>.\<close>

lemma loop_while_quits:
  assumes "loop_while S dtor own run w = Some y"
  shows "\<forall>w1. y = Inr w1 \<longrightarrow> quit w1 \<and> (\<exists>n. iterations S dtor own run n w = Inr w1)"
proof (rule loop_while.raw_induct[where P = "\<lambda>S dtor own run w y.
    \<forall>w1. y = Inr w1 \<longrightarrow> quit w1 \<and> (\<exists>n. iterations S dtor own run n w = Inr w1)", OF _ assms])
  fix f S dtor own run y
  fix w :: "('o, 't, 'z) loop_st_scheme"
  assume 1: "\<And>S dtor own run w y. f S dtor own run w = Some y \<Longrightarrow>
      \<forall>w1. y = Inr w1 \<longrightarrow> quit w1 \<and> (\<exists>n. iterations S dtor own run n w = Inr w1)"
    "(if quit w then Some (Inr w)
      else (case loop_body S dtor own run w of Inl e \<Rightarrow> Some (Inl e)
            | Inr w1 \<Rightarrow> f S dtor own run w1)) = Some y"
  show "\<forall>w1. y = Inr w1 \<longrightarrow> quit w1 \<and> (\<exists>n. iterations S dtor own run n w = Inr w1)"
  proof (cases "quit w")
    case True
    then have "y = Inr w" using 1(2) by simp
    moreover have "iterations S dtor own run 0 w = Inr w" by simp
    ultimately show ?thesis using True by blast
  next
    case False
    show ?thesis
    proof (cases "loop_body S dtor own run w")
      case (Inl e)
      then show ?thesis using 1(2) False by auto
    next
      case (Inr v)
      show ?thesis
      proof (intro allI impI)
        fix w1 assume y: "y = Inr w1"
        have "f S dtor own run v = Some y" using 1(2) False Inr by simp
        from 1(1)[OF this] y obtain n where "quit w1" "iterations S dtor own run n v = Inr w1" by blast
        moreover from this(2) Inr have "iterations S dtor own run (Suc n) w = Inr w1" by simp
        ultimately show "quit w1 \<and> (\<exists>n. iterations S dtor own run n w = Inr w1)" by blast
      qed
    qed
  qed
qed

section \<open>Wake-ups\<close>

text \<open>
  A wake-up of the descriptor \<open>f\<close> is due when it was written after it was last read; then
  \<open>epoll_wait\<close> does not block.
\<close>

fun wake_after :: "int \<Rightarrow> sysev list \<Rightarrow> bool \<Rightarrow> bool" where
  "wake_after f [] b = b"
| "wake_after f (Sys_write g bs n # es) b = wake_after f es (g = f \<or> b)"
| "wake_after f (Sys_read g k n bs # es) b = wake_after f es (g \<noteq> f \<and> b)"
| "wake_after f (_ # es) b = wake_after f es b"

definition wake_due :: "('o, 't, 'z) loop_st_scheme \<Rightarrow> bool" where
  "wake_due w \<longleftrightarrow> wake_after (wakeupFd w) (trace w) False"

lemma wake_after_append: "wake_after f (es @ fs) b = wake_after f fs (wake_after f es b)"
  by (induction f es b rule: wake_after.induct) auto

lemma wake_due_log_call:
  "(\<And>g k n bs. e \<noteq> Sys_read g k n bs) \<Longrightarrow> wake_due w \<Longrightarrow> wake_due (log_call e k w)"
  by (cases e) (auto simp: wake_due_def wake_after_append)

lemma wake_due_wakeup: "wake_due (wakeup S w)"
  by (simp add: wakeup_def sock_write_def sys_eqs wake_due_def wake_after_append)

text \<open>What a step of the program does to the queue, and to the wake-ups.\<close>

definition enqueues :: "('t \<Rightarrow> bool) \<Rightarrow> ('o, 't, 'z) loop_st_scheme \<Rightarrow> ('o, 't, 'z) loop_st_scheme \<Rightarrow> bool" where
  "enqueues fn w v \<longleftrightarrow> wakeupFd v = wakeupFd w \<and> callingPendingFunctors v = callingPendingFunctors w \<and>
     quit v = quit w \<and> thisThread v = thisThread w \<and> threadId v = threadId w \<and>
     (\<exists>ts. pendingFunctors v = pendingFunctors w @ ts \<and> (\<forall>t\<in>set ts. fn t))"

definition wakes :: "('o, 't, 'z) loop_st_scheme \<Rightarrow> ('o, 't, 'z) loop_st_scheme \<Rightarrow> bool" where
  "wakes w v \<longleftrightarrow> (wake_due w \<longrightarrow> wake_due v) \<and>
     (callingPendingFunctors w \<and> pendingFunctors v \<noteq> pendingFunctors w \<longrightarrow> wake_due v)"

lemma enqueues_refl [simp, intro]: "enqueues fn w w"
  by (simp add: enqueues_def)

lemma enqueues_trans [trans]: "enqueues fn u v \<Longrightarrow> enqueues fn v w \<Longrightarrow> enqueues fn u w"
  by (auto simp: enqueues_def)

lemma wakes_refl [simp, intro]: "wakes w w"
  by (simp add: wakes_def)

lemma wakes_trans: "enqueues fn u v \<Longrightarrow> wakes u v \<Longrightarrow> enqueues fn v w \<Longrightarrow> wakes v w \<Longrightarrow> wakes u w"
  by (fastforce simp: wakes_def enqueues_def)

text \<open>Steps that leave the loop's own members alone.\<close>

definition same_loop :: "('o, 't, 'z) loop_st_scheme \<Rightarrow> ('o, 't, 'z) loop_st_scheme \<Rightarrow> bool" where
  "same_loop w v \<longleftrightarrow> wakeupFd v = wakeupFd w \<and> callingPendingFunctors v = callingPendingFunctors w \<and>
     quit v = quit w \<and> thisThread v = thisThread w \<and> threadId v = threadId w \<and>
     pendingFunctors v = pendingFunctors w"

lemma same_loop_enqueues: "same_loop w v \<Longrightarrow> enqueues fn w v"
  by (simp add: same_loop_def enqueues_def)

lemma same_loop_refl [simp, intro]: "same_loop w w"
  by (simp add: same_loop_def)

lemma same_loop_trans: "same_loop u v \<Longrightarrow> same_loop v w \<Longrightarrow> same_loop u w"
  by (simp add: same_loop_def)

lemma enqueues_queueInLoop: "fn t \<Longrightarrow> enqueues fn w (queueInLoop S own t w)"
  by (auto simp: enqueues_def queueInLoop_def Let_def wakeup_def sock_write_def sys_eqs acquire_opt_def
      acquire_def split: option.splits)

lemma wakes_queueInLoop: "wakes w (queueInLoop S own t w)"
proof -
  let ?v = "acquire_opt (own t) (w\<lparr>pendingFunctors := pendingFunctors w @ [t]\<rparr>)"
  have "wake_due ?v = wake_due w" "callingPendingFunctors ?v = callingPendingFunctors w"
    by (simp_all add: wake_due_def acquire_opt_def acquire_def split: option.split)
  then show ?thesis
    by (auto simp: wakes_def queueInLoop_def Let_def wake_due_wakeup)
qed

lemma wakes_of_due: "wake_due v \<Longrightarrow> wakes w v"
  by (simp add: wakes_def)

section \<open>Invariants of the program over the loop\<close>

text \<open>
  What every task, destructor and bookkeeping step of the loop keeps is kept by the loop.
\<close>

locale loop_invariant =
  fixes S :: "'o os_calls"
    and dtor :: "nat \<Rightarrow> ('o, 't, 'z) loop_st_scheme \<Rightarrow> ('o, 't, 'z) loop_st_scheme"
    and own :: "'t \<Rightarrow> nat option"
    and run :: "'t \<Rightarrow> ('o, 't, 'z) loop_st_scheme \<Rightarrow> ('o, 't, 'z) loop_st_scheme res"
    and I :: "('o, 't, 'z) loop_st_scheme \<Rightarrow> bool"
  assumes run_keeps: "I w \<Longrightarrow> run t w = Inr v \<Longrightarrow> I v"
    and dtor_keeps: "I w \<Longrightarrow> I (dtor p w)"
    and refs_keeps: "I w \<Longrightarrow> I (w\<lparr>refs := f\<rparr>)"
    and poll_keeps: "I w \<Longrightarrow> I (loop_poll S w)"
    and mark_keeps: "I w \<Longrightarrow> I (upd_chan c (\<lambda>ch. ch\<lparr>ch_eventHandling := b\<rparr>) w)"
    and flag_keeps: "I w \<Longrightarrow> I (w\<lparr>eventHandling := b\<rparr>)"
    and current_keeps: "I w \<Longrightarrow> I (w\<lparr>currentActiveChannel := a\<rparr>)"
    and calling_keeps: "I w \<Longrightarrow> I (w\<lparr>callingPendingFunctors := b\<rparr>)"
    and swap_keeps: "I w \<Longrightarrow> I (w\<lparr>pendingFunctors := []\<rparr>)"
begin

lemma release_keeps: "I w \<Longrightarrow> I (release_opt dtor p w)"
  by (auto simp: release_opt_def release_def Let_def dtor_keeps refs_keeps split: option.split)

lemma release_all_keeps: "I w \<Longrightarrow> I (release_all dtor own ts w)"
  by (induction ts arbitrary: w) (auto simp: release_keeps)

lemma guarded_keeps: "handleEventWithGuard run c w = Inr v \<Longrightarrow> I w \<Longrightarrow> I v"
  by (rule handleEventWithGuard_invariant[where J = I]) (auto intro: run_keeps mark_keeps)

lemma handleEvent_keeps:
  assumes "handleEvent dtor run c w = Inr v" "I w" shows "I v"
proof -
  have "I (acquire_opt p w)" for p
    using assms(2) by (auto simp: acquire_opt_def acquire_def refs_keeps split: option.split)
  then show ?thesis
    using assms guarded_keeps
    by (auto simp: handleEvent_def Let_def ebind_eq_Inr release_keeps split: if_splits)
qed

lemma body_keeps:
  assumes body: "loop_body S dtor own run w = Inr v" and I: "I w" shows "I v"
proof -
  let ?w1 = "loop_poll S w"
  obtain w2 where h: "foldE (handleActive dtor run) (activeChannels ?w1) (?w1\<lparr>eventHandling := True\<rparr>) = Inr w2"
    and d: "doPendingFunctors dtor own run (w2\<lparr>currentActiveChannel := None, eventHandling := False\<rparr>) = Inr v"
    using body by (auto simp: loop_body_def Let_def ebind_eq_Inr)
  from h have "I w2"
    by (rule foldE_invariant)
      (use I in \<open>auto simp: handleActive_def intro: handleEvent_keeps current_keeps flag_keeps poll_keeps\<close>)
  then have I3: "I (w2\<lparr>currentActiveChannel := None, eventHandling := False, callingPendingFunctors := True, pendingFunctors := []\<rparr>)"
    by (intro swap_keeps calling_keeps flag_keeps current_keeps)
  from d obtain w4 where r: "foldE run (pendingFunctors w2)
      (w2\<lparr>currentActiveChannel := None, eventHandling := False, callingPendingFunctors := True, pendingFunctors := []\<rparr>) = Inr w4"
    and v: "v = release_all dtor own (pendingFunctors w2) (w4\<lparr>callingPendingFunctors := False\<rparr>)"
    by (auto simp: doPendingFunctors_def Let_def ebind_eq_Inr)
  from r have "I w4" by (rule foldE_invariant) (use I3 run_keeps in auto)
  then show ?thesis unfolding v by (intro release_all_keeps calling_keeps)
qed

lemma iterations_keep: "iterations S dtor own run n w = Inr v \<Longrightarrow> I w \<Longrightarrow> I v"
  by (induction n arbitrary: w) (auto simp: ebind_eq_Inr intro: body_keeps)

end

section \<open>The contract of the loop's clients\<close>

text \<open>
  \<open>fn\<close> are the functors the program queues.  Under the program's invariant a task may append
  such functors to the queue and leaves the loop's other members alone; a functor moreover
  never consumes a wake-up, and issues one when it queues while functors are being run.  The
  destructor does neither.
\<close>

locale loop_client = loop_invariant S dtor own run I
  for S :: "'o os_calls"
    and dtor :: "nat \<Rightarrow> ('o, 't, 'z) loop_st_scheme \<Rightarrow> ('o, 't, 'z) loop_st_scheme"
    and own :: "'t \<Rightarrow> nat option"
    and run :: "'t \<Rightarrow> ('o, 't, 'z) loop_st_scheme \<Rightarrow> ('o, 't, 'z) loop_st_scheme res"
    and I :: "('o, 't, 'z) loop_st_scheme \<Rightarrow> bool" +
  fixes fn :: "'t \<Rightarrow> bool"
  assumes run_enqueues: "I w \<Longrightarrow> run t w = Inr v \<Longrightarrow> enqueues fn w v"
    and functor_wakes: "I w \<Longrightarrow> fn t \<Longrightarrow> run t w = Inr v \<Longrightarrow> wakes w v"
    and dtor_same: "same_loop w (dtor p w)"
    and dtor_wake: "wake_due w \<Longrightarrow> wake_due (dtor p w)"
begin

lemma release_same: "same_loop w (release dtor p w)"
proof -
  have "same_loop w (w\<lparr>refs := f\<rparr>)" for f by (simp add: same_loop_def)
  moreover from this have "same_loop w (dtor p (w\<lparr>refs := f\<rparr>))" for f
    using dtor_same same_loop_trans by blast
  ultimately show ?thesis by (simp add: release_def Let_def)
qed

lemma release_wake: "wake_due w \<Longrightarrow> wake_due (release dtor p w)"
proof -
  have "wake_due (w\<lparr>refs := f\<rparr>) = wake_due w" for f by (simp add: wake_due_def)
  then show "wake_due w \<Longrightarrow> wake_due (release dtor p w)" using dtor_wake by (auto simp: release_def Let_def)
qed

lemma release_all_same: "same_loop w (release_all dtor own ts w)"
proof (induction ts arbitrary: w)
  case (Cons t ts)
  have "same_loop w (release_opt dtor (own t) w)"
    by (auto simp: release_opt_def release_same split: option.split)
  with Cons show ?case using same_loop_trans by fastforce
qed simp

lemma release_all_wake: "wake_due w \<Longrightarrow> wake_due (release_all dtor own ts w)"
  by (induction ts arbitrary: w) (auto simp: release_opt_def release_wake split: option.split)

lemma acquire_keeps: "I w \<Longrightarrow> I (acquire_opt p w)"
  by (auto simp: acquire_opt_def acquire_def refs_keeps split: option.split)

lemma guarded_enqueues:
  assumes "handleEventWithGuard run c w = Inr v" and "I w" shows "enqueues fn w v"
proof -
  have "I v \<and> enqueues fn w v"
  proof (rule handleEventWithGuard_invariant[where J = "\<lambda>u. I u \<and> enqueues fn w u", OF assms(1)])
    fix t u v assume "I u \<and> enqueues fn w u" "run t u = Inr v"
    then show "I v \<and> enqueues fn w v" using run_enqueues run_keeps enqueues_trans by blast
  next
    fix u b assume "I u \<and> enqueues fn w u"
    then show "I (upd_chan c (\<lambda>ch. ch\<lparr>ch_eventHandling := b\<rparr>) u) \<and>
        enqueues fn w (upd_chan c (\<lambda>ch. ch\<lparr>ch_eventHandling := b\<rparr>) u)"
      using mark_keeps by (simp add: enqueues_def upd_chan_def)
  qed (simp add: assms(2))
  then show ?thesis ..
qed

lemma handleEvent_enqueues:
  assumes "handleEvent dtor run c w = Inr v" and I: "I w" shows "enqueues fn w v"
proof (cases "tied (chan_heap w c) \<and> \<not> expired (tie (chan_heap w c)) w")
  case True
  then obtain u where u: "handleEventWithGuard run c (acquire_opt (tie (chan_heap w c)) w) = Inr u"
    "v = release_opt dtor (tie (chan_heap w c)) u"
    using assms by (auto simp: handleEvent_def Let_def ebind_eq_Inr)
  have "enqueues fn w (acquire_opt (tie (chan_heap w c)) w)"
    by (auto simp: enqueues_def acquire_opt_def acquire_def split: option.split)
  also have "enqueues fn \<dots> u" using u(1) acquire_keeps[OF I] by (rule guarded_enqueues)
  also have "enqueues fn u v"
    unfolding u(2) by (auto simp: release_opt_def release_same intro: same_loop_enqueues split: option.split)
  finally show ?thesis .
next
  case False
  then show ?thesis using assms guarded_enqueues by (auto simp: handleEvent_def Let_def split: if_splits)
qed

lemma poll_same:
  fixes w :: "('o, 't, 'z) loop_st_scheme"
  shows "same_loop w (loop_poll S w)"
proof -
  have "same_loop v (snd (fillActiveChannels es v))" for es and v :: "('o, 't, 'z) loop_st_scheme"
  proof (induction es arbitrary: v)
    case (Cons e es)
    obtain ev c where e: "e = (ev, c)" by (cases e)
    have "same_loop v (upd_chan c (set_revents ev) v)" by (simp add: same_loop_def upd_chan_def)
    with Cons show ?case using same_loop_trans by (fastforce simp: e case_prod_beta)
  qed simp
  note fill = this
  have "same_loop w (snd (fillActiveChannels es (log_call e k (w\<lparr>activeChannels := []\<rparr>))))" for es e k
    by (rule same_loop_trans[OF _ fill]) (simp add: same_loop_def)
  then show ?thesis
    by (simp add: loop_poll_def poller_poll_def sys_eqs case_prod_beta same_loop_def)
qed

text \<open>The handlers of the active channels, then the functors.\<close>

lemma body_split:
  assumes body: "loop_body S dtor own run w = Inr v" and I: "I w"
  obtains w2 w4 where
    "enqueues fn w w2" "I w2"
    "foldE run (pendingFunctors w2) (w2\<lparr>currentActiveChannel := None, eventHandling := False,
        callingPendingFunctors := True, pendingFunctors := []\<rparr>) = Inr w4"
    "I (w2\<lparr>currentActiveChannel := None, eventHandling := False,
        callingPendingFunctors := True, pendingFunctors := []\<rparr>)"
    "v = release_all dtor own (pendingFunctors w2) (w4\<lparr>callingPendingFunctors := False\<rparr>)"
proof -
  let ?w1 = "loop_poll S w"
  obtain w2 where h: "foldE (handleActive dtor run) (activeChannels ?w1) (?w1\<lparr>eventHandling := True\<rparr>) = Inr w2"
    and d: "doPendingFunctors dtor own run (w2\<lparr>currentActiveChannel := None, eventHandling := False\<rparr>) = Inr v"
    using body by (auto simp: loop_body_def Let_def ebind_eq_Inr)
  have "I w2 \<and> enqueues fn w w2"
    using h
  proof (rule foldE_invariant)
    show "I (?w1\<lparr>eventHandling := True\<rparr>) \<and> enqueues fn w (?w1\<lparr>eventHandling := True\<rparr>)"
      using poll_same[of w] flag_keeps[OF poll_keeps[OF I]] by (simp add: same_loop_def enqueues_def)
    fix c u v assume u: "I u \<and> enqueues fn w u" and "handleActive dtor run c u = Inr v"
    then have "handleEvent dtor run c (u\<lparr>currentActiveChannel := Some c\<rparr>) = Inr v" by (simp add: handleActive_def)
    moreover have "I (u\<lparr>currentActiveChannel := Some c\<rparr>)" using u current_keeps by blast
    moreover have "enqueues fn u (u\<lparr>currentActiveChannel := Some c\<rparr>)" by (simp add: enqueues_def)
    ultimately show "I v \<and> enqueues fn w v"
      using u handleEvent_enqueues handleEvent_keeps enqueues_trans by blast
  qed
  moreover from this have "I (w2\<lparr>currentActiveChannel := None, eventHandling := False,
      callingPendingFunctors := True, pendingFunctors := []\<rparr>)"
    by (intro swap_keeps calling_keeps flag_keeps current_keeps) simp
  moreover obtain w4 where "foldE run (pendingFunctors w2) (w2\<lparr>currentActiveChannel := None, eventHandling := False,
        callingPendingFunctors := True, pendingFunctors := []\<rparr>) = Inr w4"
    "v = release_all dtor own (pendingFunctors w2) (w4\<lparr>callingPendingFunctors := False\<rparr>)"
    using d by (auto simp: doPendingFunctors_def Let_def ebind_eq_Inr)
  ultimately show thesis using that by blast
qed

lemma functors_run:
  assumes "foldE run ts w = Inr v" "I w" "\<forall>t\<in>set ts. fn t"
  shows "enqueues fn w v \<and> wakes w v"
proof -
  have "I v \<and> enqueues fn w v \<and> wakes w v"
    using assms(1)
  proof (rule foldE_invariant)
    show "I w \<and> enqueues fn w w \<and> wakes w w" using assms(2) by simp
    fix t u x assume t: "t \<in> set ts" and u: "I u \<and> enqueues fn w u \<and> wakes w u" and r: "run t u = Inr x"
    have "enqueues fn u x" "wakes u x" "I x"
      using run_enqueues functor_wakes run_keeps assms(3) t u r by blast+
    then show "I x \<and> enqueues fn w x \<and> wakes w x" using u wakes_trans enqueues_trans by blast
  qed
  then show ?thesis by simp
qed

text \<open>After an iteration, what was queued while the functors ran has a wake-up due.\<close>

lemma body_wakes:
  assumes body: "loop_body S dtor own run w = Inr v" and I: "I w" and q: "\<forall>t\<in>set (pendingFunctors w). fn t"
  shows "(\<forall>t\<in>set (pendingFunctors v). fn t) \<and> (pendingFunctors v \<noteq> [] \<longrightarrow> wake_due v)"
  using body I
proof (rule body_split)
  fix w2 w4 :: "('o, 't, 'z) loop_st_scheme"
  let ?w3 = "w2\<lparr>currentActiveChannel := None, eventHandling := False, callingPendingFunctors := True, pendingFunctors := []\<rparr>"
  assume e: "enqueues fn w w2" and r: "foldE run (pendingFunctors w2) ?w3 = Inr w4" and I3: "I ?w3"
    and v: "v = release_all dtor own (pendingFunctors w2) (w4\<lparr>callingPendingFunctors := False\<rparr>)"
  from e q have "\<forall>t\<in>set (pendingFunctors w2). fn t" by (auto simp: enqueues_def)
  from functors_run[OF r I3 this]
  have w4: "\<forall>t\<in>set (pendingFunctors w4). fn t" "pendingFunctors w4 \<noteq> [] \<longrightarrow> wake_due w4"
    by (auto simp: enqueues_def wakes_def)
  have "wake_due (w4\<lparr>callingPendingFunctors := False\<rparr>) = wake_due w4" by (simp add: wake_due_def)
  then show ?thesis
    using w4 release_all_wake[of "w4\<lparr>callingPendingFunctors := False\<rparr>"]
      release_all_same[of "w4\<lparr>callingPendingFunctors := False\<rparr>"]
    unfolding v by (auto simp: same_loop_def)
qed

text \<open>No task of such a client ends the loop: it never returns normally.\<close>

lemma body_keeps_quit:
  assumes body: "loop_body S dtor own run w = Inr v" and I: "I w" shows "quit v = quit w"
  using body I
proof (rule body_split)
  fix w2 w4 :: "('o, 't, 'z) loop_st_scheme"
  let ?w3 = "w2\<lparr>currentActiveChannel := None, eventHandling := False, callingPendingFunctors := True, pendingFunctors := []\<rparr>"
  assume e: "enqueues fn w w2" and r: "foldE run (pendingFunctors w2) ?w3 = Inr w4" and I3: "I ?w3"
    and v: "v = release_all dtor own (pendingFunctors w2) (w4\<lparr>callingPendingFunctors := False\<rparr>)"
  have "I w4 \<and> quit w4 = quit w2"
    using r by (rule foldE_invariant) (use I3 run_enqueues run_keeps in \<open>auto simp: enqueues_def\<close>)
  then show ?thesis
    using e release_all_same[of "w4\<lparr>callingPendingFunctors := False\<rparr>"]
    unfolding v by (auto simp: same_loop_def enqueues_def)
qed

lemma never_quits:
  assumes "loopthread S dtor own run w = Some r" and "I (w\<lparr>quit := False\<rparr>)"
  shows "\<exists>e. r = Inl e"
proof (rule ccontr)
  assume "\<nexists>e. r = Inl e"
  then obtain v where "r = Inr v" by (cases r) auto
  with assms(1) obtain n where n: "iterations S dtor own run n (w\<lparr>quit := False\<rparr>) = Inr v" "quit v"
    using loop_while_quits unfolding loopthread_def assertInLoopThread_def by blast
  have "iterations S dtor own run n u = Inr v \<Longrightarrow> I u \<Longrightarrow> quit v = quit u" for u
    by (induction n arbitrary: u) (auto simp: ebind_eq_Inr dest: body_keeps_quit body_keeps)
  from this[OF n(1) assms(2)] n(2) show False by simp
qed

end

end
