(* ===== verification/TcpConnection.thy ===== *)
theory TcpConnection
  imports LoopThread Buffer
begin

text \<open>
  The class \<open>TcpConnection\<close> (TcpConnection.h, TcpConnection.cpp).  A connection is an object
  of the heap \<open>conn_heap\<close>, shared by \<open>std::shared_ptr\<close>; it owns a channel, an output buffer
  and a lifecycle state.  The function objects it holds are values of \<open>callback\<close>; what
  calling one does is given by the record \<open>handlers\<close>, so that this component does not know
  its clients.  The functors the program queues are the values of \<open>task\<close>.

  A call on a connection whose last owner is gone is a fault (\<open>Use_after_free\<close>), and so is
  \<open>shared_from_this\<close> on it (\<open>Bad_weak_ptr\<close>).
\<close>

section \<open>Function objects and functors\<close>

text \<open>The values of \<open>std::function\<close> that the program stores in its callbacks.\<close>

datatype callback =
    DefaultConnectionCallback
  | DefaultMessageCallback
  | MyServerOnConnection
  | MyServerOnMessage
  | ServerNewConnection
  | ServerRemoveConnection

text \<open>
  The values of \<open>std::function<void()>\<close>: the callbacks of the channels and the functors of the
  loop, with the connection bound in them.
\<close>

datatype task =
    LoopHandleRead
  | AcceptorListen
  | AcceptorHandleRead
  | ConnHandleRead nat
  | ConnHandleWrite nat
  | ConnHandleClose nat
  | ConnHandleError nat
  | ConnShutdownInLoop nat
  | ConnForceCloseInLoop nat
  | ConnConnectEstablished nat
  | ConnConnectDestroyed nat
  | ConnWriteComplete callback nat
  | ConnHighWaterMark callback nat nat
  | ServerRemoveConnectionInLoop nat

text \<open>
  What a functor keeps alive.  \<open>shutdownInLoop\<close> and the channel callbacks are bound to the
  raw \<open>this\<close>; the others to a \<open>shared_ptr\<close>.
\<close>

fun task_owner :: "task \<Rightarrow> nat option" where
  "task_owner (ConnForceCloseInLoop n) = Some n"
| "task_owner (ConnConnectEstablished n) = Some n"
| "task_owner (ConnConnectDestroyed n) = Some n"
| "task_owner (ConnWriteComplete u n) = Some n"
| "task_owner (ConnHighWaterMark u n k) = Some n"
| "task_owner (ServerRemoveConnectionInLoop n) = Some n"
| "task_owner _ = None"

text \<open>The tasks that are queued as functors; the others are channel callbacks.\<close>

fun is_functor :: "task \<Rightarrow> bool" where
  "is_functor LoopHandleRead = False"
| "is_functor AcceptorHandleRead = False"
| "is_functor (ConnHandleRead n) = False"
| "is_functor (ConnHandleWrite n) = False"
| "is_functor (ConnHandleClose n) = False"
| "is_functor (ConnHandleError n) = False"
| "is_functor _ = True"

section \<open>State\<close>

datatype StateE = kDisconnected | kConnecting | kConnected | kDisconnecting

record connection =
  channel_of :: nat
  socket_of :: int
  conn_name :: string
  localAddr :: sockaddr_in
  peerAddr :: sockaddr_in
  state :: StateE
  connectionCallback :: "callback option"
  messageCallback :: "callback option"
  writeCompleteCallback :: "callback option"
  highWaterMarkCallback :: "callback option"
  conn_closeCallback :: "callback option"
  highWaterMark :: nat
  inputBuffer :: buffer
  outputBuffer :: buffer

record 'o net_st = "('o, task) loop_st" +
  conn_heap :: "nat \<Rightarrow> connection"
  next_conn :: nat

definition upd_conn :: "nat \<Rightarrow> (connection \<Rightarrow> connection) \<Rightarrow> ('o, 'z) net_st_scheme \<Rightarrow> ('o, 'z) net_st_scheme" where
  "upd_conn n f w = w\<lparr>conn_heap := (conn_heap w)(n := f (conn_heap w n))\<rparr>"

definition conn_channel :: "nat \<Rightarrow> ('o, 'z) net_st_scheme \<Rightarrow> task channel" where
  "conn_channel n w = chan_heap w (channel_of (conn_heap w n))"

record 'w handlers =
  on_connection :: "callback \<Rightarrow> nat \<Rightarrow> 'w \<Rightarrow> 'w res"
  on_message :: "callback \<Rightarrow> nat \<Rightarrow> byte list \<Rightarrow> 'w \<Rightarrow> 'w res"
  on_close :: "callback \<Rightarrow> nat \<Rightarrow> 'w \<Rightarrow> 'w res"

text \<open>The target of the build is little endian.\<close>

definition big_endian_host :: bool where
  "big_endian_host = False"

section \<open>Operations\<close>

definition setState :: "StateE \<Rightarrow> connection \<Rightarrow> connection" where
  "setState s cn = cn\<lparr>state := s\<rparr>"

definition setConnectionCallback :: "callback option \<Rightarrow> connection \<Rightarrow> connection" where
  "setConnectionCallback cb cn = cn\<lparr>connectionCallback := cb\<rparr>"
definition setMessageCallback :: "callback option \<Rightarrow> connection \<Rightarrow> connection" where
  "setMessageCallback cb cn = cn\<lparr>messageCallback := cb\<rparr>"
definition setWriteCompleteCallback :: "callback option \<Rightarrow> connection \<Rightarrow> connection" where
  "setWriteCompleteCallback cb cn = cn\<lparr>writeCompleteCallback := cb\<rparr>"
definition setConnCloseCallback :: "callback option \<Rightarrow> connection \<Rightarrow> connection" where
  "setConnCloseCallback cb cn = cn\<lparr>conn_closeCallback := cb\<rparr>"

definition connected :: "nat \<Rightarrow> ('o, 'z) net_st_scheme \<Rightarrow> bool" where
  "connected n w \<longleftrightarrow> state (conn_heap w n) = kConnected"

definition disconnected :: "nat \<Rightarrow> ('o, 'z) net_st_scheme \<Rightarrow> bool" where
  "disconnected n w \<longleftrightarrow> state (conn_heap w n) = kDisconnected"

fun stateToString :: "StateE \<Rightarrow> string" where
  "stateToString kDisconnected = ''kDisconnected''"
| "stateToString kConnecting = ''kConnecting''"
| "stateToString kConnected = ''kConnected''"
| "stateToString kDisconnecting = ''kDisconnecting''"

text \<open>The constructor: a new channel with its four callbacks, state \<open>kConnecting\<close>.\<close>

definition new_connection :: "string \<Rightarrow> int \<Rightarrow> sockaddr_in \<Rightarrow> sockaddr_in \<Rightarrow>
    ('o, 'z) net_st_scheme \<Rightarrow> (nat \<times> ('o, 'z) net_st_scheme) res" where
  "new_connection nameArg sockfd local peer w =
     (case alloc_channel sockfd w of (c, w1) \<Rightarrow>
        ebind (new_buffer kInitialSize) (\<lambda>inb. ebind (new_buffer kInitialSize) (\<lambda>outb.
          (let n = next_conn w1;
               w2 = w1\<lparr>next_conn := Suc n,
                       conn_heap := (conn_heap w1)(n :=
                         \<lparr>channel_of = c, socket_of = sockfd, conn_name = nameArg, localAddr = local,
                          peerAddr = peer, state = kConnecting, connectionCallback = None,
                          messageCallback = None, writeCompleteCallback = None,
                          highWaterMarkCallback = None, conn_closeCallback = None,
                          highWaterMark = 64 * 1024 * 1024, inputBuffer = inb, outputBuffer = outb\<rparr>)\<rparr>
           in Inr (n, upd_chan c (setErrorCallback (ConnHandleError n) \<circ> setCloseCallback (ConnHandleClose n) \<circ>
                        setWriteCallback (ConnHandleWrite n) \<circ> setReadCallback (ConnHandleRead n)) w2)))))"

text \<open>The destructor shuts the socket down and closes it; the channel object is not deleted.\<close>

definition conn_dtor :: "'o os_calls \<Rightarrow> nat \<Rightarrow> ('o, 'z) net_st_scheme \<Rightarrow> ('o, 'z) net_st_scheme" where
  "conn_dtor S n w =
     (let w1 = shutdownReadWrite S (fd (conn_channel n w)) w
      in sock_close S (fd (conn_channel n w1)) w1)"

text \<open>The methods run on a living object; \<open>shared_from_this()\<close> as the argument of a call.\<close>

definition on_alive :: "nat \<Rightarrow> (('o, 'z) net_st_scheme \<Rightarrow> ('o, 'z) net_st_scheme res) \<Rightarrow>
    ('o, 'z) net_st_scheme \<Rightarrow> ('o, 'z) net_st_scheme res" where
  "on_alive n f w = (if refs w n = 0 then Inl Use_after_free else f w)"

definition with_shared :: "'o os_calls \<Rightarrow> nat \<Rightarrow> (('o, 'z) net_st_scheme \<Rightarrow> ('o, 'z) net_st_scheme res) \<Rightarrow>
    ('o, 'z) net_st_scheme \<Rightarrow> ('o, 'z) net_st_scheme res" where
  "with_shared S n f w =
     (if refs w n = 0 then Inl Bad_weak_ptr
      else ebind (f (acquire n w)) (\<lambda>w1. Inr (release (conn_dtor S) n w1)))"

definition queue_shared :: "'o os_calls \<Rightarrow> nat \<Rightarrow> task \<Rightarrow> ('o, 'z) net_st_scheme \<Rightarrow> ('o, 'z) net_st_scheme res" where
  "queue_shared S n t w =
     (if refs w n = 0 then Inl Bad_weak_ptr else Inr (queueInLoop S task_owner t w))"

text \<open>Calling an empty \<open>std::function\<close> throws.\<close>

definition call_fn :: "callback option \<Rightarrow> (callback \<Rightarrow> 'w res) \<Rightarrow> 'w res" where
  "call_fn cb f = (case cb of None \<Rightarrow> Inl Bad_function_call | Some u \<Rightarrow> f u)"

subsection \<open>Sending\<close>

definition shutdownInLoop :: "'o os_calls \<Rightarrow> nat \<Rightarrow> ('o, 'z) net_st_scheme \<Rightarrow> ('o, 'z) net_st_scheme" where
  "shutdownInLoop S n w0 =
     (let w = assertInLoopThread w0 in
      if \<not> isWriting (conn_channel n w) then Socket_ShutdownWrite S (socket_of (conn_heap w n)) w else w)"

text \<open>The second half of \<open>sendInLoop\<close>: what was not written is queued.\<close>

definition send_remaining :: "'o os_calls \<Rightarrow> nat \<Rightarrow> byte list \<Rightarrow> nat \<Rightarrow> nat \<Rightarrow> bool \<Rightarrow>
    ('o, 'z) net_st_scheme \<Rightarrow> ('o, 'z) net_st_scheme res" where
  "send_remaining S n data nwrote remaining faultError w =
     (if remaining \<le> length data \<and> \<not> faultError \<and> 0 < remaining then
        (let cn = conn_heap w n;
             oldLen = readableBytes (outputBuffer cn)
         in ebind (if highWaterMark cn \<le> size_add oldLen remaining \<and> oldLen < highWaterMark cn
                   then (case highWaterMarkCallback cn of
                           Some u \<Rightarrow> queue_shared S n (ConnHighWaterMark u n (size_add oldLen remaining)) w
                         | None \<Rightarrow> Inr w)
                   else Inr w)
              (\<lambda>w1. ebind (append_buf (take remaining (drop nwrote data)) (outputBuffer (conn_heap w1 n)))
              (\<lambda>b. let w2 = upd_conn n (\<lambda>cn. cn\<lparr>outputBuffer := b\<rparr>) w1
                   in Inr (if \<not> isWriting (conn_channel n w2)
                           then enableWriting S (channel_of (conn_heap w2 n)) w2 else w2))))
      else Inr w)"

definition sendInLoop :: "'o os_calls \<Rightarrow> nat \<Rightarrow> byte list \<Rightarrow> ('o, 'z) net_st_scheme \<Rightarrow> ('o, 'z) net_st_scheme res" where
  "sendInLoop S n data w0 =
     (let w = assertInLoopThread w0; cn = conn_heap w n; len = length data in
      if state cn = kDisconnected then Inr w
      else if \<not> isWriting (conn_channel n w) \<and> readableBytes (outputBuffer cn) = 0 then
        (case sock_write S (fd (conn_channel n w)) data w of ((nwrote, errno), w1) \<Rightarrow>
           if 0 \<le> nwrote then
             (let remaining = size_sub len (nat nwrote)
              in ebind (case writeCompleteCallback (conn_heap w1 n) of
                          Some u \<Rightarrow> (if remaining = 0 then queue_shared S n (ConnWriteComplete u n) w1 else Inr w1)
                        | None \<Rightarrow> Inr w1)
                   (send_remaining S n data (nat nwrote) remaining False))
           else send_remaining S n data 0 len (errno \<noteq> EWOULDBLOCK \<and> (errno = EPIPE \<or> errno = ECONNRESET)) w1)
      else send_remaining S n data 0 len False w)"

definition send :: "'o os_calls \<Rightarrow> nat \<Rightarrow> byte list \<Rightarrow> ('o, 'z) net_st_scheme \<Rightarrow> ('o, 'z) net_st_scheme res" where
  "send S n data w = sendInLoop S n data w"

subsection \<open>Closing\<close>

definition handleClose :: "'o os_calls \<Rightarrow> ('o, 'z) net_st_scheme handlers \<Rightarrow> nat \<Rightarrow>
    ('o, 'z) net_st_scheme \<Rightarrow> ('o, 'z) net_st_scheme res" where
  "handleClose S H n w0 =
     (let w = assertInLoopThread w0 in
      if state (conn_heap w n) = kConnected \<or> state (conn_heap w n) = kDisconnecting then
        (let w1 = upd_conn n (setState kDisconnected) w;
             w2 = disableAll S (channel_of (conn_heap w1 n)) w1
         in with_shared S n
              (\<lambda>w3. ebind (call_fn (connectionCallback (conn_heap w3 n)) (\<lambda>u. on_connection H u n w3))
                (\<lambda>w4. call_fn (conn_closeCallback (conn_heap w4 n)) (\<lambda>u. on_close H u n w4))) w2)
      else Inr w)"

definition forceCloseInLoop :: "'o os_calls \<Rightarrow> ('o, 'z) net_st_scheme handlers \<Rightarrow> nat \<Rightarrow>
    ('o, 'z) net_st_scheme \<Rightarrow> ('o, 'z) net_st_scheme res" where
  "forceCloseInLoop S H n w0 =
     (let w = assertInLoopThread w0 in
      if state (conn_heap w n) = kConnected \<or> state (conn_heap w n) = kDisconnecting
      then handleClose S H n w else Inr w)"

definition forceClose :: "'o os_calls \<Rightarrow> nat \<Rightarrow> ('o, 'z) net_st_scheme \<Rightarrow> ('o, 'z) net_st_scheme res" where
  "forceClose S n w =
     (if state (conn_heap w n) = kConnected \<or> state (conn_heap w n) = kDisconnecting
      then queue_shared S n (ConnForceCloseInLoop n) (upd_conn n (setState kDisconnecting) w)
      else Inr w)"

definition shutdown :: "'o os_calls \<Rightarrow> nat \<Rightarrow> ('o, 'z) net_st_scheme \<Rightarrow> ('o, 'z) net_st_scheme res" where
  "shutdown S n w =
     (if state (conn_heap w n) = kConnected
      then runInLoop S task_owner (ConnShutdownInLoop n) (\<lambda>v. Inr (shutdownInLoop S n v))
             (upd_conn n (setState kDisconnecting) w)
      else Inr w)"

subsection \<open>Establishing and destroying\<close>

definition connectEstablished :: "'o os_calls \<Rightarrow> ('o, 'z) net_st_scheme handlers \<Rightarrow> nat \<Rightarrow>
    ('o, 'z) net_st_scheme \<Rightarrow> ('o, 'z) net_st_scheme res" where
  "connectEstablished S H n w0 =
     (let w = assertInLoopThread w0 in
      eassert (state (conn_heap w n) = kConnecting)
        (let w1 = upd_conn n (setState kConnected) w; c = channel_of (conn_heap w1 n) in
         if refs w1 n = 0 then Inl Bad_weak_ptr
         else with_shared S n
                (\<lambda>v. call_fn (connectionCallback (conn_heap v n)) (\<lambda>u. on_connection H u n v))
                (enableReading S c (upd_chan c (channel_tie n) w1))))"

definition connectDestroyed :: "'o os_calls \<Rightarrow> ('o, 'z) net_st_scheme handlers \<Rightarrow> nat \<Rightarrow>
    ('o, 'z) net_st_scheme \<Rightarrow> ('o, 'z) net_st_scheme res" where
  "connectDestroyed S H n w0 =
     (let w = assertInLoopThread w0 in
      ebind (if state (conn_heap w n) = kConnected then
               with_shared S n
                 (\<lambda>v. call_fn (connectionCallback (conn_heap v n)) (\<lambda>u. on_connection H u n v))
                 (disableAll S (channel_of (conn_heap w n)) (upd_conn n (setState kDisconnected) w))
             else Inr w)
        (\<lambda>w1. Inr (channel_remove S (channel_of (conn_heap w1 n)) w1)))"

subsection \<open>Events of the channel\<close>

definition handleError :: "('o, 'z) net_st_scheme \<Rightarrow> ('o, 'z) net_st_scheme res" where
  "handleError w = Inr w"

definition handleRead :: "'o os_calls \<Rightarrow> ('o, 'z) net_st_scheme handlers \<Rightarrow> nat \<Rightarrow>
    ('o, 'z) net_st_scheme \<Rightarrow> ('o, 'z) net_st_scheme res" where
  "handleRead S H n w0 =
     (case sock_read S (fd (conn_channel n (assertInLoopThread w0))) 1024 (assertInLoopThread w0) of
        ((r, bs, errno), w) \<Rightarrow>
          if 0 < r then
            with_shared S n
              (\<lambda>v. call_fn (messageCallback (conn_heap v n)) (\<lambda>u. on_message H u n (take (nat r) bs) v)) w
          else if r = 0 then handleClose S H n w
          else handleError w)"

definition handleWrite :: "'o os_calls \<Rightarrow> nat \<Rightarrow> ('o, 'z) net_st_scheme \<Rightarrow> ('o, 'z) net_st_scheme res" where
  "handleWrite S n w0 =
     (let w = assertInLoopThread w0 in
      if isWriting (conn_channel n w) then
        (let out = outputBuffer (conn_heap w n) in
         case sock_write S (fd (conn_channel n w)) (slice (peek out) (peek out + readableBytes out) (storage out)) w of
           ((r, errno), w1) \<Rightarrow>
             if 0 < r then
               ebind (retrieve (nat r) (outputBuffer (conn_heap w1 n))) (\<lambda>b.
                 let w2 = upd_conn n (\<lambda>cn. cn\<lparr>outputBuffer := b\<rparr>) w1 in
                 if readableBytes b = 0 then
                   (let w3 = disableWriting S (channel_of (conn_heap w2 n)) w2 in
                    ebind (case writeCompleteCallback (conn_heap w3 n) of
                             Some u \<Rightarrow> queue_shared S n (ConnWriteComplete u n) w3
                           | None \<Rightarrow> Inr w3)
                      (\<lambda>w4. Inr (if state (conn_heap w4 n) = kDisconnecting then shutdownInLoop S n w4 else w4)))
                 else Inr w2)
             else Inr w1)
      else Inr w)"

subsection \<open>The default callbacks\<close>

definition defaultConnectionCallback :: "nat \<Rightarrow> ('o, 'z) net_st_scheme \<Rightarrow> ('o, 'z) net_st_scheme res" where
  "defaultConnectionCallback n w =
     ebind (InetAddress_toIpPort big_endian_host (localAddr (conn_heap w n)))
       (\<lambda>_. ebind (InetAddress_toIpPort big_endian_host (peerAddr (conn_heap w n))) (\<lambda>_. Inr w))"

definition defaultMessageCallback :: "nat \<Rightarrow> byte list \<Rightarrow> ('o, 'z) net_st_scheme \<Rightarrow> ('o, 'z) net_st_scheme res" where
  "defaultMessageCallback n buf w = Inr w"

end
