(* ===== verification/Acceptor.thy ===== *)
theory Acceptor
  imports TcpConnection
begin

text \<open>
  The class \<open>Acceptor\<close> (Acceptor.h, Acceptor.cpp): the listening socket, its channel and the
  callback for new connections.  \<open>call\<close> is what calling that callback does.
\<close>

record 'o acceptor_st = "'o net_st" +
  acceptSocket :: int
  acceptChannel :: nat
  newConnectionCallback :: "callback option"

definition acceptor_new :: "'o os_calls \<Rightarrow> sockaddr_in \<Rightarrow> bool \<Rightarrow>
    ('o, 'z) acceptor_st_scheme \<Rightarrow> ('o, 'z) acceptor_st_scheme" where
  "acceptor_new S listenAddr reuseport w =
     (case createNonblockingOrDie S w of (sockfd, w1) \<Rightarrow>
      case alloc_channel sockfd w1 of (c, w2) \<Rightarrow>
        let w3 = w2\<lparr>acceptSocket := sockfd, acceptChannel := c, newConnectionCallback := None\<rparr>
        in upd_chan c (setReadCallback AcceptorHandleRead)
             (Socket_Bind S sockfd listenAddr
               (setReusePort S sockfd reuseport (setReuseAddr S sockfd True w3))))"

definition setNewConnectionCallback :: "callback \<Rightarrow> ('o, 'z) acceptor_st_scheme \<Rightarrow> ('o, 'z) acceptor_st_scheme" where
  "setNewConnectionCallback cb w = w\<lparr>newConnectionCallback := Some cb\<rparr>"

definition acceptor_listen :: "'o os_calls \<Rightarrow> ('o, 'z) acceptor_st_scheme \<Rightarrow> ('o, 'z) acceptor_st_scheme" where
  "acceptor_listen S w =
     (let w1 = Socket_Listen S (acceptSocket w) w in enableReading S (acceptChannel w1) w1)"

definition acceptor_handleRead :: "'o os_calls \<Rightarrow>
    (callback \<Rightarrow> int \<Rightarrow> sockaddr_in \<Rightarrow> ('o, 'z) acceptor_st_scheme \<Rightarrow> ('o, 'z) acceptor_st_scheme res) \<Rightarrow>
    ('o, 'z) acceptor_st_scheme \<Rightarrow> ('o, 'z) acceptor_st_scheme res" where
  "acceptor_handleRead S call w =
     (case Socket_Accept S (acceptSocket w) (InetAddress_port big_endian_host 0) w of
        ((connfd, peer), w1) \<Rightarrow>
          if 0 \<le> connfd then
            (case newConnectionCallback w1 of
               Some cb \<Rightarrow> call cb connfd peer w1
             | None \<Rightarrow> Inr (sock_close S connfd w1))
          else Inr w1)"

end
