(* ===== verification/TcpServer.thy ===== *)
theory TcpServer
  imports Acceptor "HOL-Library.AList" "HOL-Library.List_Lexorder" "HOL-Library.Char_ord"
begin

text \<open>
  The class \<open>TcpServer\<close> (TcpServer.h, TcpServer.cpp): it names the connections its acceptor
  delivers, keeps them in a map by name, and removes them.  The map is an association list
  without an order; \<open>~TcpServer\<close> walks it in the order of the keys, as \<open>std::map\<close> does.
\<close>

section \<open>State\<close>

record 'o server_st = "'o acceptor_st" +
  hostport :: string
  server_name :: string
  server_connectionCallback :: "callback option"
  server_messageCallback :: "callback option"
  server_writeCompleteCallback :: "callback option"
  nextConnId :: int
  connections :: "(string \<times> nat) list"

section \<open>Operations\<close>

definition server_new :: "'o os_calls \<Rightarrow> sockaddr_in \<Rightarrow> string \<Rightarrow>
    ('o, 'z) server_st_scheme \<Rightarrow> ('o, 'z) server_st_scheme res" where
  "server_new S listenAddr nameArg w =
     (let w1 = acceptor_new S listenAddr True w
      in ebind (InetAddress_toIpPort big_endian_host listenAddr) (\<lambda>hp.
           Inr (setNewConnectionCallback ServerNewConnection
             (w1\<lparr>server_connectionCallback := Some DefaultConnectionCallback,
                 server_messageCallback := Some DefaultMessageCallback,
                 server_writeCompleteCallback := None,
                 hostport := hp, server_name := nameArg, nextConnId := 1, connections := []\<rparr>))))"

definition server_setConnectionCallback :: "callback \<Rightarrow> ('o, 'z) server_st_scheme \<Rightarrow> ('o, 'z) server_st_scheme" where
  "server_setConnectionCallback cb w = w\<lparr>server_connectionCallback := Some cb\<rparr>"
definition server_setMessageCallback :: "callback \<Rightarrow> ('o, 'z) server_st_scheme \<Rightarrow> ('o, 'z) server_st_scheme" where
  "server_setMessageCallback cb w = w\<lparr>server_messageCallback := Some cb\<rparr>"
definition server_setWriteCompleteCallback :: "callback \<Rightarrow> ('o, 'z) server_st_scheme \<Rightarrow> ('o, 'z) server_st_scheme" where
  "server_setWriteCompleteCallback cb w = w\<lparr>server_writeCompleteCallback := Some cb\<rparr>"

text \<open>\<open>acceptor_\<close> is a plain pointer: the functor keeps nothing alive.\<close>

definition server_start :: "'o os_calls \<Rightarrow> ('o, 'z) server_st_scheme \<Rightarrow> ('o, 'z) server_st_scheme res" where
  "server_start S w = runInLoop S task_owner AcceptorListen (\<lambda>v. Inr (acceptor_listen S v)) w"

text \<open>\<open>snprintf(buf, 64, "-%s#%d", ...)\<close> keeps at most 63 characters.\<close>

definition connection_suffix :: "string \<Rightarrow> int \<Rightarrow> string" where
  "connection_suffix hp k = take 63 (''-'' @ hp @ ''#'' @ dec_int k)"

definition int_max :: int where "int_max = 2 ^ 31 - 1"

text \<open>\<open>connections_[connName] = conn\<close> drops the pointer the map held under that name.\<close>

definition store_connection :: "'o os_calls \<Rightarrow> string \<Rightarrow> nat \<Rightarrow>
    ('o, 'z) server_st_scheme \<Rightarrow> ('o, 'z) server_st_scheme" where
  "store_connection S connName n w =
     release_opt (conn_dtor S) (map_of (connections w) connName)
       (acquire n (w\<lparr>connections := AList.update connName n (connections w)\<rparr>))"

definition newConnection :: "'o os_calls \<Rightarrow> ('o, 'z) server_st_scheme handlers \<Rightarrow> int \<Rightarrow> sockaddr_in \<Rightarrow>
    ('o, 'z) server_st_scheme \<Rightarrow> ('o, 'z) server_st_scheme res" where
  "newConnection S H sockfd peer w0 =
     (let w = assertInLoopThread w0;
          buf = connection_suffix (hostport w) (nextConnId w)
      in if nextConnId w = int_max then Inl Signed_overflow
         else (let w1 = w\<lparr>nextConnId := nextConnId w + 1\<rparr>;
                   connName = server_name w1 @ buf
               in ebind (InetAddress_toIpPort big_endian_host peer) (\<lambda>_.
                  case getLocalAddr S sockfd w1 of (local, w2) \<Rightarrow>
                  ebind (new_connection connName sockfd local peer w2) (\<lambda>(n, w3).
                    let w4 = acquire n w3;
                        w5 = store_connection S connName n w4;
                        w6 = upd_conn n (setConnCloseCallback (Some ServerRemoveConnection) \<circ>
                               setWriteCompleteCallback (server_writeCompleteCallback w5) \<circ>
                               setMessageCallback (server_messageCallback w5) \<circ>
                               setConnectionCallback (server_connectionCallback w5)) w5
                    in ebind (runInLoop S task_owner (ConnConnectEstablished n)
                                (on_alive n (connectEstablished S H n)) w6)
                         (\<lambda>w7. Inr (release (conn_dtor S) n w7))))))"

definition removeConnectionInLoop :: "'o os_calls \<Rightarrow> nat \<Rightarrow>
    ('o, 'z) server_st_scheme \<Rightarrow> ('o, 'z) server_st_scheme" where
  "removeConnectionInLoop S n w0 =
     (let w = assertInLoopThread w0;
          connName = conn_name (conn_heap w n);
          w1 = release_opt (conn_dtor S) (map_of (connections w) connName)
                 (w\<lparr>connections := AList.delete connName (connections w)\<rparr>)
      in queueInLoop S task_owner (ConnConnectDestroyed n) w1)"

definition removeConnection :: "'o os_calls \<Rightarrow> nat \<Rightarrow> ('o, 'z) server_st_scheme \<Rightarrow> ('o, 'z) server_st_scheme res" where
  "removeConnection S n w =
     runInLoop S task_owner (ServerRemoveConnectionInLoop n) (\<lambda>v. Inr (removeConnectionInLoop S n v)) w"

text \<open>
  The destructor: of each entry the map's pointer is copied to \<open>conn\<close> and reset, and
  \<open>connectDestroyed\<close> is run or queued.
\<close>

definition destroy_entry :: "'o os_calls \<Rightarrow> ('o, 'z) server_st_scheme handlers \<Rightarrow> nat \<Rightarrow>
    ('o, 'z) server_st_scheme \<Rightarrow> ('o, 'z) server_st_scheme res" where
  "destroy_entry S H n w =
     ebind (runInLoop S task_owner (ConnConnectDestroyed n) (on_alive n (connectDestroyed S H n))
              (release (conn_dtor S) n (acquire n w)))
       (\<lambda>w1. Inr (release (conn_dtor S) n w1))"

definition server_destroy :: "'o os_calls \<Rightarrow> ('o, 'z) server_st_scheme handlers \<Rightarrow>
    ('o, 'z) server_st_scheme \<Rightarrow> ('o, 'z) server_st_scheme res" where
  "server_destroy S H w =
     ebind (foldE (destroy_entry S H) (map snd (sort_key fst (connections w))) (assertInLoopThread w))
       (\<lambda>w1. Inr (w1\<lparr>connections := []\<rparr>))"

end
