(* ===== verification/MyServer.thy ===== *)
theory MyServer
  imports TcpServer
begin

text \<open>
  The class \<open>MyServer\<close> (MyServer.h, MyServer.cpp), the application on top of the reactor: it
  counts the connections, closes those beyond its maximum, remembers the first one as the
  host and answers every message by a greeting to the host.  With it the program is
  complete: \<open>my_handlers\<close> and \<open>run_task\<close> say what every stored function object does.
\<close>

section \<open>State\<close>

text \<open>\<open>flag\<close> is the static local of \<open>onConnection\<close>; \<open>hostPtr\<close> is a \<open>weak_ptr\<close>.\<close>

record 'o myserver_st = "'o server_st" +
  numConnected :: int
  kMaxConnections :: int
  hostPtr :: "nat option"
  flag :: bool

type_synonym ('o, 'z) world = "('o, 'z) myserver_st_scheme"

section \<open>Operations\<close>

definition myserver_new :: "'o os_calls \<Rightarrow> sockaddr_in \<Rightarrow> int \<Rightarrow> ('o, 'z) world \<Rightarrow> ('o, 'z) world res" where
  "myserver_new S listenAddr maxCon w =
     ebind (server_new S listenAddr ''MyServer'' w) (\<lambda>w1.
       Inr (server_setMessageCallback MyServerOnMessage
         (server_setConnectionCallback MyServerOnConnection
           (w1\<lparr>numConnected := 0, kMaxConnections := maxCon, hostPtr := None\<rparr>))))"

definition myserver_start :: "'o os_calls \<Rightarrow> ('o, 'z) world \<Rightarrow> ('o, 'z) world res" where
  "myserver_start S w = server_start S w"

definition onConnection :: "'o os_calls \<Rightarrow> nat \<Rightarrow> ('o, 'z) world \<Rightarrow> ('o, 'z) world res" where
  "onConnection S n w =
     (if connected n w then
        (if numConnected w = int_max then Inl Signed_overflow
         else (let w1 = w\<lparr>numConnected := numConnected w + 1\<rparr> in
               if kMaxConnections w1 < numConnected w1
               then ebind (shutdown S n w1) (forceClose S n)
               else Inr (if flag w1 then w1\<lparr>flag := False, hostPtr := Some n\<rparr> else w1)))
      else if numConnected w = - int_max - 1 then Inl Signed_overflow
      else Inr (w\<lparr>numConnected := numConnected w - 1\<rparr>))"

definition greeting :: "byte list" where
  "greeting = map of_char ''hello world!''"

text \<open>The greeting goes to the host; the dereference of the empty pointer is not guarded.\<close>

definition onMessage :: "'o os_calls \<Rightarrow> nat \<Rightarrow> byte list \<Rightarrow> ('o, 'z) world \<Rightarrow> ('o, 'z) world res" where
  "onMessage S n buf w =
     (if expired (hostPtr w) w then Inl Null_dereference
      else (case hostPtr w of
              None \<Rightarrow> Inl Null_dereference
            | Some h \<Rightarrow> ebind (send S h greeting (acquire h w)) (\<lambda>w1. Inr (release (conn_dtor S) h w1))))"

text \<open>
  What the stored function objects do.  A callback of another signature is never stored in a
  slot; those branches are never taken.
\<close>

definition my_on_connection :: "'o os_calls \<Rightarrow> callback \<Rightarrow> nat \<Rightarrow> ('o, 'z) world \<Rightarrow> ('o, 'z) world res" where
  "my_on_connection S u n w =
     (case u of
        MyServerOnConnection \<Rightarrow> onConnection S n w
      | DefaultConnectionCallback \<Rightarrow> defaultConnectionCallback n w
      | _ \<Rightarrow> Inl Bad_function_call)"

definition my_on_message :: "'o os_calls \<Rightarrow> callback \<Rightarrow> nat \<Rightarrow> byte list \<Rightarrow> ('o, 'z) world \<Rightarrow> ('o, 'z) world res" where
  "my_on_message S u n buf w =
     (case u of
        MyServerOnMessage \<Rightarrow> onMessage S n buf w
      | DefaultMessageCallback \<Rightarrow> defaultMessageCallback n buf w
      | _ \<Rightarrow> Inl Bad_function_call)"

definition my_on_close :: "'o os_calls \<Rightarrow> callback \<Rightarrow> nat \<Rightarrow> ('o, 'z) world \<Rightarrow> ('o, 'z) world res" where
  "my_on_close S u n w =
     (case u of ServerRemoveConnection \<Rightarrow> removeConnection S n w | _ \<Rightarrow> Inl Bad_function_call)"

definition my_handlers :: "'o os_calls \<Rightarrow> ('o, 'z) world handlers" where
  "my_handlers S =
     \<lparr>on_connection = my_on_connection S, on_message = my_on_message S, on_close = my_on_close S\<rparr>"

definition my_new_connection :: "'o os_calls \<Rightarrow> callback \<Rightarrow> int \<Rightarrow> sockaddr_in \<Rightarrow>
    ('o, 'z) world \<Rightarrow> ('o, 'z) world res" where
  "my_new_connection S u sockfd peer w =
     (case u of ServerNewConnection \<Rightarrow> newConnection S (my_handlers S) sockfd peer w
      | _ \<Rightarrow> Inl Bad_function_call)"

fun run_task :: "'o os_calls \<Rightarrow> task \<Rightarrow> ('o, 'z) world \<Rightarrow> ('o, 'z) world res" where
  "run_task S LoopHandleRead w = Inr (loop_handleRead S w)"
| "run_task S AcceptorListen w = Inr (acceptor_listen S w)"
| "run_task S AcceptorHandleRead w = acceptor_handleRead S (my_new_connection S) w"
| "run_task S (ConnHandleRead n) w = on_alive n (handleRead S (my_handlers S) n) w"
| "run_task S (ConnHandleWrite n) w = on_alive n (handleWrite S n) w"
| "run_task S (ConnHandleClose n) w = on_alive n (handleClose S (my_handlers S) n) w"
| "run_task S (ConnHandleError n) w = on_alive n handleError w"
| "run_task S (ConnShutdownInLoop n) w = on_alive n (\<lambda>v. Inr (shutdownInLoop S n v)) w"
| "run_task S (ConnForceCloseInLoop n) w = on_alive n (forceCloseInLoop S (my_handlers S) n) w"
| "run_task S (ConnConnectEstablished n) w = on_alive n (connectEstablished S (my_handlers S) n) w"
| "run_task S (ConnConnectDestroyed n) w = on_alive n (connectDestroyed S (my_handlers S) n) w"
| "run_task S (ConnWriteComplete u n) w = Inl Bad_function_call"
| "run_task S (ConnHighWaterMark u n k) w = Inl Bad_function_call"
| "run_task S (ServerRemoveConnectionInLoop n) w = Inr (removeConnectionInLoop S n w)"

text \<open>One iteration of the loop thread on this program.\<close>

definition server_iteration :: "'o os_calls \<Rightarrow> ('o, 'z) world \<Rightarrow> ('o, 'z) world res" where
  "server_iteration S w = loop_body S (conn_dtor S) task_owner (run_task S) w"

end
