(* ===== verification/ConnectionFrame.thy ===== *)
theory ConnectionFrame
  imports TcpConnection
begin

text \<open>
  What the operations of the lower layers leave alone, stated for the programs that have
  connections.  \<open>quiet w v\<close>: a step from \<open>w\<close> to \<open>v\<close> that changes neither the loop's members
  nor the connections, their output buffers apart, and reads no wake-up.  \<open>silent w v\<close>: the
  same, but functors may be queued.  Both are reflexive and transitive, and the rules
  \<open>quiet_intros\<close> carry them through the operations of channel, poller, loop and connection.
\<close>

named_theorems quiet_intros "operations that keep a step quiet"

definition same_conns :: "('o, 'z) net_st_scheme \<Rightarrow> ('o, 'z) net_st_scheme \<Rightarrow> bool" where
  "same_conns w v \<longleftrightarrow> next_conn v = next_conn w \<and> net_st.more v = net_st.more w \<and>
     (\<forall>n. \<exists>b. conn_heap v n = (conn_heap w n)\<lparr>outputBuffer := b\<rparr>)"

definition quiet :: "('o, 'z) net_st_scheme \<Rightarrow> ('o, 'z) net_st_scheme \<Rightarrow> bool" where
  "quiet w v \<longleftrightarrow> same_loop w v \<and> (wake_due w \<longrightarrow> wake_due v) \<and> same_conns w v"

definition silent :: "('o, 'z) net_st_scheme \<Rightarrow> ('o, 'z) net_st_scheme \<Rightarrow> bool" where
  "silent w v \<longleftrightarrow> enqueues is_functor w v \<and> wakes w v \<and> same_conns w v"

section \<open>The relations\<close>

lemma same_outputBuffer: "\<exists>b. cn = cn\<lparr>outputBuffer := b\<rparr>"
  by (rule exI[of _ "outputBuffer cn"]) simp

lemma same_conns_refl [simp, intro]: "same_conns w w"
  by (simp add: same_conns_def same_outputBuffer)

lemma same_conns_trans: "same_conns u v \<Longrightarrow> same_conns v w \<Longrightarrow> same_conns u w"
proof -
  assume uv: "same_conns u v" and vw: "same_conns v w"
  have "\<exists>b. conn_heap w n = (conn_heap u n)\<lparr>outputBuffer := b\<rparr>" for n
  proof -
    obtain b where "conn_heap v n = (conn_heap u n)\<lparr>outputBuffer := b\<rparr>" using uv by (auto simp: same_conns_def)
    moreover obtain b' where "conn_heap w n = (conn_heap v n)\<lparr>outputBuffer := b'\<rparr>"
      using vw by (auto simp: same_conns_def)
    ultimately show ?thesis by (intro exI[of _ b']) simp
  qed
  with uv vw show ?thesis by (simp add: same_conns_def)
qed

lemma same_connsD:
  assumes "same_conns w v"
  shows "state (conn_heap v n) = state (conn_heap w n)"
    and "connectionCallback (conn_heap v n) = connectionCallback (conn_heap w n)"
    and "conn_closeCallback (conn_heap v n) = conn_closeCallback (conn_heap w n)"
    and "channel_of (conn_heap v n) = channel_of (conn_heap w n)"
    and "conn_name (conn_heap v n) = conn_name (conn_heap w n)"
    and "next_conn v = next_conn w" and "net_st.more v = net_st.more w"
proof -
  from assms obtain b where "conn_heap v n = (conn_heap w n)\<lparr>outputBuffer := b\<rparr>" by (auto simp: same_conns_def)
  then show "state (conn_heap v n) = state (conn_heap w n)"
    "connectionCallback (conn_heap v n) = connectionCallback (conn_heap w n)"
    "conn_closeCallback (conn_heap v n) = conn_closeCallback (conn_heap w n)"
    "channel_of (conn_heap v n) = channel_of (conn_heap w n)"
    "conn_name (conn_heap v n) = conn_name (conn_heap w n)" by simp_all
  show "next_conn v = next_conn w" "net_st.more v = net_st.more w" using assms by (simp_all add: same_conns_def)
qed

lemma quiet_refl [simp, intro, quiet_intros]: "quiet w w"
  by (simp add: quiet_def)

lemma quiet_trans: "quiet u v \<Longrightarrow> quiet v w \<Longrightarrow> quiet u w"
  by (auto simp: quiet_def intro: same_loop_trans same_conns_trans)

lemma quiet_silent: "quiet w v \<Longrightarrow> silent w v"
  by (auto simp: quiet_def silent_def wakes_def intro: same_loop_enqueues) (simp add: same_loop_def)

lemma silent_refl [simp, intro]: "silent w w"
  by (simp add: silent_def)

lemma silent_trans: "silent u v \<Longrightarrow> silent v w \<Longrightarrow> silent u w"
  unfolding silent_def using enqueues_trans wakes_trans same_conns_trans by blast

section \<open>Quiet operations\<close>

lemma quietI:
  assumes "quiet w u" and "same_loop u v" and "wake_due u \<Longrightarrow> wake_due v"
    and "conn_heap v = conn_heap u" "next_conn v = next_conn u" "net_st.more v = net_st.more u"
  shows "quiet w v"
proof -
  have "same_conns u v"
    unfolding same_conns_def
  proof (intro conjI allI)
    fix n show "\<exists>b. conn_heap v n = (conn_heap u n)\<lparr>outputBuffer := b\<rparr>"
      by (intro exI[of _ "outputBuffer (conn_heap u n)"]) (simp add: assms(4))
  qed (simp_all add: assms)
  then have "quiet u v" using assms(2,3) by (simp add: quiet_def)
  with assms(1) show ?thesis by (rule quiet_trans)
qed

lemma quiet_log_call:
  assumes "quiet w u" and "\<And>g k n bs. e \<noteq> Sys_read g k n bs"
  shows "quiet w (log_call e k u)"
proof (rule quietI[OF assms(1)])
  show "same_loop u (log_call e k u)" by (simp add: same_loop_def)
  show "wake_due u \<Longrightarrow> wake_due (log_call e k u)" by (rule wake_due_log_call[OF assms(2)])
qed (simp_all add: log_call_def)

lemma quiet_upd_chan [quiet_intros]: "quiet w u \<Longrightarrow> quiet w (upd_chan c f u)"
  by (erule quietI) (simp_all add: same_loop_def wake_due_def upd_chan_def)

lemma quiet_channels [quiet_intros]: "quiet w u \<Longrightarrow> quiet w (u\<lparr>channels := m\<rparr>)"
  by (erule quietI) (simp_all add: same_loop_def wake_due_def)

lemma quiet_refs [quiet_intros]: "quiet w u \<Longrightarrow> quiet w (u\<lparr>refs := m\<rparr>)"
  by (erule quietI) (simp_all add: same_loop_def wake_due_def)

lemma quiet_flags [quiet_intros]:
  "quiet w u \<Longrightarrow> quiet w (u\<lparr>eventHandling := b\<rparr>)"
  "quiet w u \<Longrightarrow> quiet w (u\<lparr>currentActiveChannel := a\<rparr>)"
  "quiet w u \<Longrightarrow> quiet w (u\<lparr>activeChannels := cs\<rparr>)"
  "quiet w u \<Longrightarrow> quiet w (u\<lparr>events_size := k\<rparr>)"
  by (erule quietI; simp add: same_loop_def wake_due_def)+

lemma quiet_poller_update [quiet_intros]: "quiet w u \<Longrightarrow> quiet w (poller_update S q c u)"
  by (simp add: poller_update_def sys_eqs quiet_log_call)

lemma quiet_updateChannel [quiet_intros]: "quiet w u \<Longrightarrow> quiet w (poller_updateChannel S c u)"
  by (auto simp: poller_updateChannel_def Let_def intro: quiet_intros split: channel_index.split)

lemma quiet_removeChannel [quiet_intros]: "quiet w u \<Longrightarrow> quiet w (poller_removeChannel S c u)"
  by (auto simp: poller_removeChannel_def Let_def intro: quiet_intros split: channel_index.split)

lemma quiet_channel_ops [quiet_intros]:
  "quiet w u \<Longrightarrow> quiet w (channel_update S c u)"
  "quiet w u \<Longrightarrow> quiet w (channel_remove S c u)"
  "quiet w u \<Longrightarrow> quiet w (enableReading S c u)"
  "quiet w u \<Longrightarrow> quiet w (enableWriting S c u)"
  "quiet w u \<Longrightarrow> quiet w (disableWriting S c u)"
  "quiet w u \<Longrightarrow> quiet w (disableAll S c u)"
  by (auto simp: channel_update_def channel_remove_def channel_op_defs loop_op_defs intro!: quiet_intros)

lemma quiet_socket_ops [quiet_intros]:
  "quiet w u \<Longrightarrow> quiet w (Socket_ShutdownWrite S s u)"
  "quiet w u \<Longrightarrow> quiet w (Socket_Listen S s u)"
  "quiet w u \<Longrightarrow> quiet w (shutdownReadWrite S s u)"
  "quiet w u \<Longrightarrow> quiet w (sock_close S s u)"
  "quiet w u \<Longrightarrow> quiet w (snd (sock_write S s bs u))"
  "quiet w u \<Longrightarrow> quiet w (snd (getLocalAddr S s u))"
  "quiet w u \<Longrightarrow> quiet w (snd (Socket_Accept S s p u))"
  by (simp_all add: socket_defs sys_eqs case_prod_beta quiet_log_call)

lemma quiet_dtor [quiet_intros]: "quiet w u \<Longrightarrow> quiet w (conn_dtor S n u)"
  by (simp add: conn_dtor_def Let_def quiet_intros)

lemma quiet_acquire [quiet_intros]:
  "quiet w u \<Longrightarrow> quiet w (acquire n u)" "quiet w u \<Longrightarrow> quiet w (acquire_opt p u)"
  by (auto simp: acquire_def acquire_opt_def intro: quiet_intros split: option.split)

lemma quiet_release [quiet_intros]:
  "quiet w u \<Longrightarrow> quiet w (release (conn_dtor S) n u)" "quiet w u \<Longrightarrow> quiet w (release_opt (conn_dtor S) p u)"
  by (auto simp: release_def release_opt_def Let_def intro: quiet_intros split: option.split)

lemma quiet_outputBuffer [quiet_intros]:
  assumes "quiet w u" shows "quiet w (upd_conn n (\<lambda>cn. cn\<lparr>outputBuffer := b\<rparr>) u)"
proof -
  have "\<exists>b'. conn_heap (upd_conn n (\<lambda>cn. cn\<lparr>outputBuffer := b\<rparr>) u) m = (conn_heap u m)\<lparr>outputBuffer := b'\<rparr>" for m
    by (cases "m = n") (auto simp: upd_conn_def intro: exI[of _ "outputBuffer (conn_heap u m)"])
  then have "quiet u (upd_conn n (\<lambda>cn. cn\<lparr>outputBuffer := b\<rparr>) u)"
    by (simp add: quiet_def same_conns_def same_loop_def wake_due_def) (simp add: upd_conn_def)
  with assms show ?thesis by (rule quiet_trans)
qed

lemma quiet_shutdownInLoop [quiet_intros]: "quiet w u \<Longrightarrow> quiet w (shutdownInLoop S n u)"
  by (simp add: shutdownInLoop_def Let_def loop_op_defs quiet_intros)

section \<open>Silent operations\<close>

lemma silent_queueInLoop:
  assumes "is_functor t" shows "silent w (queueInLoop S task_owner t w)"
proof -
  have "same_conns w (queueInLoop S task_owner t w)"
  proof -
    let ?u = "acquire_opt (task_owner t) (w\<lparr>pendingFunctors := pendingFunctors w @ [t]\<rparr>)"
    have c: "conn_heap ?u = conn_heap w" "next_conn ?u = next_conn w" "net_st.more ?u = net_st.more w"
      by (simp_all add: acquire_opt_def acquire_def split: option.split)
    have "same_conns w ?u"
      unfolding same_conns_def c by (simp add: same_outputBuffer)
    moreover have "quiet ?u (wakeup S ?u)" unfolding wakeup_def by (intro quiet_intros)
    then have "same_conns ?u (wakeup S ?u)" by (simp add: quiet_def)
    ultimately show ?thesis by (auto simp: queueInLoop_def Let_def intro: same_conns_trans)
  qed
  then show ?thesis by (simp add: silent_def enqueues_queueInLoop wakes_queueInLoop assms)
qed

lemma silent_queue_shared:
  "queue_shared S n t w = Inr v \<Longrightarrow> is_functor t \<Longrightarrow> silent w v"
  by (auto simp: queue_shared_def silent_queueInLoop split: if_splits)

lemma silent_with_shared:
  assumes "with_shared S n f w = Inr v"
    and "\<And>u. f (acquire n w) = Inr u \<Longrightarrow> silent (acquire n w) u"
  shows "silent w v"
proof -
  from assms(1) obtain u where u: "f (acquire n w) = Inr u" "v = release (conn_dtor S) n u"
    by (auto simp: with_shared_def ebind_eq_Inr split: if_splits)
  have "silent w (acquire n w)" by (intro quiet_silent quiet_intros)
  moreover have "silent u v" unfolding u(2) by (intro quiet_silent quiet_intros)
  ultimately show ?thesis using assms(2)[OF u(1)] silent_trans by blast
qed

lemma silent_bind:
  assumes "ebind m f = Inr v" and "\<And>u. m = Inr u \<Longrightarrow> silent w u" and "\<And>u. f u = Inr v \<Longrightarrow> silent u v"
  shows "silent w v"
  using assms by (auto simp: ebind_eq_Inr intro: silent_trans)

lemma silent_send_remaining:
  assumes "send_remaining S n data k r e w = Inr v" shows "silent w v"
proof (cases "r \<le> length data \<and> \<not> e \<and> 0 < r")
  case True
  have last: "silent w1 v"
    if "ebind m (\<lambda>b. let w2 = upd_conn n (\<lambda>cn. cn\<lparr>outputBuffer := b\<rparr>) w1
      in Inr (if \<not> isWriting (conn_channel n w2) then enableWriting S (channel_of (conn_heap w2 n)) w2 else w2)) = Inr v"
    for m w1
    using that by (auto simp: Let_def ebind_eq_Inr intro!: quiet_silent quiet_intros)
  let ?cn = "conn_heap w n"
  let ?m = "if highWaterMark ?cn \<le> size_add (readableBytes (outputBuffer ?cn)) r \<and>
                 readableBytes (outputBuffer ?cn) < highWaterMark ?cn
            then (case highWaterMarkCallback ?cn of
                    Some u \<Rightarrow> queue_shared S n (ConnHighWaterMark u n (size_add (readableBytes (outputBuffer ?cn)) r)) w
                  | None \<Rightarrow> Inr w)
            else Inr w"
  obtain w1 where w1: "?m = Inr w1" "ebind (append_buf (take r (drop k data)) (outputBuffer (conn_heap w1 n)))
      (\<lambda>b. let w2 = upd_conn n (\<lambda>cn. cn\<lparr>outputBuffer := b\<rparr>) w1
        in Inr (if \<not> isWriting (conn_channel n w2) then enableWriting S (channel_of (conn_heap w2 n)) w2 else w2)) = Inr v"
    using assms True unfolding send_remaining_def Let_def by (auto simp only: ebind_eq_Inr simp_thms if_True)
  have "silent w w1"
    using w1(1) by (auto intro: silent_queue_shared split: if_splits option.splits)
  with last[OF w1(2)] show ?thesis by (rule silent_trans[rotated])
next
  case False
  then show ?thesis using assms by (auto simp: send_remaining_def)
qed

lemma silent_writeComplete:
  "(case cb of Some u \<Rightarrow> if b then queue_shared S n (ConnWriteComplete u n) w else Inr w | None \<Rightarrow> Inr w) = Inr v \<Longrightarrow>
   silent w v"
  by (auto intro: silent_queue_shared split: option.splits if_splits)

lemma silent_sendInLoop:
  assumes "sendInLoop S n data w = Inr v" shows "silent w v"
proof -
  let ?direct = "\<not> isWriting (conn_channel n w) \<and> readableBytes (outputBuffer (conn_heap w n)) = 0"
  obtain nwrote e w1 where wr: "sock_write S (fd (conn_channel n w)) data w = ((nwrote, e), w1)"
    by (metis surj_pair)
  have "silent w (snd (sock_write S (fd (conn_channel n w)) data w))"
    by (intro quiet_silent quiet_intros)
  then have w1: "silent w w1" by (simp add: wr)
  consider "state (conn_heap w n) = kDisconnected"
    | "state (conn_heap w n) \<noteq> kDisconnected" "?direct" "0 \<le> nwrote"
    | "state (conn_heap w n) \<noteq> kDisconnected" "?direct" "nwrote < 0"
    | "state (conn_heap w n) \<noteq> kDisconnected" "\<not> ?direct" by linarith
  then show ?thesis
  proof cases
    case 1
    then show ?thesis using assms by (simp add: sendInLoop_def loop_op_defs)
  next
    case 2
    then show ?thesis using assms w1
      by (auto simp: sendInLoop_def loop_op_defs Let_def wr
          elim!: silent_bind dest!: silent_writeComplete silent_send_remaining intro: silent_trans)
  next
    case 3
    then show ?thesis using assms w1
      by (auto simp: sendInLoop_def loop_op_defs Let_def wr dest!: silent_send_remaining intro: silent_trans)
  next
    case 4
    then show ?thesis using assms silent_send_remaining
      by (auto simp: sendInLoop_def loop_op_defs Let_def)
  qed
qed

lemma silent_handleWrite:
  assumes "handleWrite S n w = Inr v" shows "silent w v"
proof (cases "isWriting (conn_channel n w)")
  case False
  then show ?thesis using assms by (simp add: handleWrite_def loop_op_defs)
next
  case True
  let ?out = "outputBuffer (conn_heap w n)"
  let ?bs = "slice (peek ?out) (peek ?out + readableBytes ?out) (storage ?out)"
  obtain r e w1 where wr: "sock_write S (fd (conn_channel n w)) ?bs w = ((r, e), w1)"
    by (metis surj_pair)
  have "quiet w (snd (sock_write S (fd (conn_channel n w)) ?bs w))" by (intro quiet_intros)
  then have w1: "quiet w w1" by (simp add: wr)
  show ?thesis
  proof (cases "0 < r")
    case False
    then show ?thesis using assms True w1 by (auto simp: handleWrite_def loop_op_defs Let_def wr intro: quiet_silent)
  next
    case pos: True
    then obtain b where b: "retrieve (nat r) (outputBuffer (conn_heap w1 n)) = Inr b"
      using assms True by (auto simp: handleWrite_def loop_op_defs Let_def wr ebind_eq_Inr)
    let ?w2 = "upd_conn n (\<lambda>cn. cn\<lparr>outputBuffer := b\<rparr>) w1"
    let ?w3 = "disableWriting S (channel_of (conn_heap ?w2 n)) ?w2"
    have w2: "quiet w ?w2" "quiet w ?w3" by (intro quiet_intros w1)+
    show ?thesis
    proof (cases "readableBytes b = 0")
      case False
      then show ?thesis using assms True pos b w2(1)
        by (auto simp: handleWrite_def loop_op_defs Let_def wr intro: quiet_silent)
    next
      case drained: True
      then obtain w4 where w4: "(case writeCompleteCallback (conn_heap ?w3 n) of
            Some u \<Rightarrow> queue_shared S n (ConnWriteComplete u n) ?w3 | None \<Rightarrow> Inr ?w3) = Inr w4"
        "v = (if state (conn_heap w4 n) = kDisconnecting then shutdownInLoop S n w4 else w4)"
        using assms True pos b by (auto simp: handleWrite_def loop_op_defs Let_def wr ebind_eq_Inr)
      from w4(1) have "silent ?w3 w4"
        by (auto intro: silent_queue_shared split: option.splits)
      moreover have "silent w4 v" unfolding w4(2) by (intro quiet_silent) (simp add: quiet_intros)
      ultimately show ?thesis using quiet_silent[OF w2(2)] silent_trans by blast
    qed
  qed
qed

end
