(* ===== verification/OutputQueue.thy ===== *)
theory OutputQueue
  imports ConnectionFrame
begin

text \<open>
  The output path of a connection (\<open>sendInLoop\<close>, \<open>handleWrite\<close>, \<open>shutdown\<close>): what the program
  sends is, at any time, what the kernel accepted on the socket followed by what is queued.
  \<open>write\<close> is only assumed to accept no more bytes than it was given; short writes and every
  error at any point are covered.  \<open>sendInLoop\<close> gives a message up in exactly one case, which
  \<open>dropped\<close> names: nothing is queued and the direct write fails with \<open>EPIPE\<close> or \<open>ECONNRESET\<close>.
\<close>

section \<open>Frame of the interest changes\<close>

lemma upd_chan_conns [simp]:
  "conn_heap (upd_chan c f w) = conn_heap w" "next_conn (upd_chan c f w) = next_conn w"
  by (simp_all add: upd_chan_def)

lemma upd_chan_wakeupFd [simp]: "wakeupFd (upd_chan c f w) = wakeupFd w"
  by (simp add: upd_chan_def)

lemma poller_update_conns [simp]:
  "conn_heap (poller_update S q c w) = conn_heap w" "next_conn (poller_update S q c w) = next_conn w"
  by (simp_all add: poller_update_def sys_eqs log_call_def)

lemma poller_update_wakeupFd [simp]: "wakeupFd (poller_update S q c w) = wakeupFd w"
  by (simp add: poller_update_def sys_eqs)

lemma wire_poller_update [simp]: "wire f (trace (poller_update S q c w)) = wire f (trace w)"
  by (simp add: poller_update_def sys_eqs wire_append)

lemma updateChannel_conns [simp]:
  "conn_heap (poller_updateChannel S c w) = conn_heap w"
  "next_conn (poller_updateChannel S c w) = next_conn w"
  by (simp_all add: poller_updateChannel_def Let_def upd_chan_def split: channel_index.split)

lemma updateChannel_chans [simp]:
  "fd (chan_heap (poller_updateChannel S c w) d) = fd (chan_heap w d)"
  "events (chan_heap (poller_updateChannel S c w) d) = events (chan_heap w d)"
  by (simp_all add: poller_updateChannel_def Let_def split: channel_index.split)

lemma updateChannel_loop [simp]:
  "wakeupFd (poller_updateChannel S c w) = wakeupFd w" "refs (poller_updateChannel S c v) = refs v"
  by (simp_all add: poller_updateChannel_def Let_def upd_chan_def split: channel_index.split)

lemma wire_updateChannel [simp]: "wire f (trace (poller_updateChannel S c w)) = wire f (trace w)"
  by (simp add: poller_updateChannel_def Let_def split: channel_index.split)

lemma channel_update_frame [simp]:
  "conn_heap (channel_update S c w) = conn_heap w" "next_conn (channel_update S c w) = next_conn w"
  "wakeupFd (channel_update S c v) = wakeupFd v" "refs (channel_update S c v) = refs v"
  "wire f (trace (channel_update S c v)) = wire f (trace v)"
  "fd (chan_heap (channel_update S c v) d) = fd (chan_heap v d)"
  "events (chan_heap (channel_update S c v) d) = events (chan_heap v d)"
  by (simp_all add: channel_update_def loop_op_defs)

lemma writing_frame [simp]:
  "conn_heap (enableWriting S c w) = conn_heap w" "conn_heap (disableWriting S c w) = conn_heap w"
  "wakeupFd (enableWriting S c v) = wakeupFd v" "wakeupFd (disableWriting S c v) = wakeupFd v"
  "wire f (trace (enableWriting S c v)) = wire f (trace v)" "wire f (trace (disableWriting S c v)) = wire f (trace v)"
  by (simp_all add: enableWriting_def disableWriting_def)

lemma writing_channel:
  "fd (conn_channel n (enableWriting S (channel_of (conn_heap w n)) w)) = fd (conn_channel n w)"
  "isWriting (conn_channel n (enableWriting S (channel_of (conn_heap w n)) w))"
  "fd (conn_channel n (disableWriting S (channel_of (conn_heap w n)) w)) = fd (conn_channel n w)"
  "\<not> isWriting (conn_channel n (disableWriting S (channel_of (conn_heap w n)) w))"
proof -
  have "events (conn_channel n (enableWriting S (channel_of (conn_heap w n)) w)) = events (want_writing (conn_channel n w))"
    "events (conn_channel n (disableWriting S (channel_of (conn_heap w n)) w)) = events (unwant_writing (conn_channel n w))"
    by (simp_all add: conn_channel_def enableWriting_def disableWriting_def want_defs)
  then show "isWriting (conn_channel n (enableWriting S (channel_of (conn_heap w n)) w))"
    "\<not> isWriting (conn_channel n (disableWriting S (channel_of (conn_heap w n)) w))"
    using isWriting_simps(1,2)[of "conn_channel n w"] by (simp_all add: isWriting_def)
qed (simp_all add: conn_channel_def enableWriting_def disableWriting_def want_defs)

lemma conn_channel_upd_conn [simp]:
  "conn_channel n (upd_conn n (\<lambda>cn. cn\<lparr>outputBuffer := b\<rparr>) w) = conn_channel n w"
  "conn_channel n (upd_conn n (setState s) w) = conn_channel n w"
  by (simp_all add: conn_channel_def upd_conn_def setState_def)

lemma upd_conn_frame [simp]:
  "trace (upd_conn n f w) = trace w" "wakeupFd (upd_conn n f w) = wakeupFd w" "refs (upd_conn n f w) = refs w"
  "chan_heap (upd_conn n f w) = chan_heap w" "next_conn (upd_conn n f w) = next_conn w"
  "conn_heap (upd_conn n f w) = (conn_heap w)(n := f (conn_heap w n))"
  by (simp_all add: upd_conn_def)

section \<open>The stream of a connection\<close>

definition sent :: "nat \<Rightarrow> ('o, 'z) net_st_scheme \<Rightarrow> byte list" where
  "sent n w = wire (fd (conn_channel n w)) (trace w) @ content (outputBuffer (conn_heap w n))"

definition stream_ok :: "nat \<Rightarrow> ('o, 'z) net_st_scheme \<Rightarrow> bool" where
  "stream_ok n w \<longleftrightarrow> buffer_inv (outputBuffer (conn_heap w n)) \<and> fd (conn_channel n w) \<noteq> wakeupFd w \<and>
     state (conn_heap w n) \<noteq> kDisconnected \<and>
     (isWriting (conn_channel n w) \<longleftrightarrow> content (outputBuffer (conn_heap w n)) \<noteq> [])"

text \<open>The interest in writability follows the queue.\<close>

lemma start_writing:
  assumes "buffer_inv (outputBuffer (conn_heap w n))" "fd (conn_channel n w) \<noteq> wakeupFd w"
    "state (conn_heap w n) \<noteq> kDisconnected" "content (outputBuffer (conn_heap w n)) \<noteq> []"
  shows "stream_ok n (enableWriting S (channel_of (conn_heap w n)) w) \<and>
         sent n (enableWriting S (channel_of (conn_heap w n)) w) = sent n w"
  using assms by (simp add: stream_ok_def sent_def writing_channel)

lemma stop_writing:
  assumes "buffer_inv (outputBuffer (conn_heap w n))" "fd (conn_channel n w) \<noteq> wakeupFd w"
    "state (conn_heap w n) \<noteq> kDisconnected" "content (outputBuffer (conn_heap w n)) = []"
  shows "stream_ok n (disableWriting S (channel_of (conn_heap w n)) w) \<and>
         sent n (disableWriting S (channel_of (conn_heap w n)) w) = sent n w"
  using assms by (simp add: stream_ok_def sent_def writing_channel)

text \<open>The contract of \<open>write\<close>: it accepts at most what it is given.\<close>

definition write_contract :: "'o os_calls \<Rightarrow> bool" where
  "write_contract S \<longleftrightarrow> (\<forall>f bs k. fst (fst (os_write S f bs k)) \<le> int (length bs))"

text \<open>The errors of \<open>write\<close> that say that the peer is gone, and the messages lost by them.\<close>

definition peer_gone :: "int \<times> errno \<Rightarrow> bool" where
  "peer_gone re \<longleftrightarrow> fst re < 0 \<and> (snd re = EPIPE \<or> snd re = ECONNRESET)"

definition dropped :: "'o os_calls \<Rightarrow> nat \<Rightarrow> byte list \<Rightarrow> ('o, 'z) net_st_scheme \<Rightarrow> bool" where
  "dropped S n data w \<longleftrightarrow> \<not> isWriting (conn_channel n w) \<and> content (outputBuffer (conn_heap w n)) = [] \<and>
     peer_gone (fst (os_write S (fd (conn_channel n w)) data (os w)))"

text \<open>Everything the stream depends on.\<close>

definition same_stream :: "nat \<Rightarrow> ('o, 'z) net_st_scheme \<Rightarrow> ('o, 'z) net_st_scheme \<Rightarrow> bool" where
  "same_stream n w v \<longleftrightarrow> conn_heap v = conn_heap w \<and> wakeupFd v = wakeupFd w \<and>
     fd (conn_channel n v) = fd (conn_channel n w) \<and> events (conn_channel n v) = events (conn_channel n w) \<and>
     wire (fd (conn_channel n w)) (trace v) = wire (fd (conn_channel n w)) (trace w)"

lemma same_stream_refl [simp]: "same_stream n w w"
  by (simp add: same_stream_def)

lemma same_streamD:
  assumes "same_stream n w v"
  shows "sent n v = sent n w" "stream_ok n v = stream_ok n w"
    "isWriting (conn_channel n v) = isWriting (conn_channel n w)" "conn_heap v = conn_heap w"
    "fd (conn_channel n v) = fd (conn_channel n w)" "wakeupFd v = wakeupFd w"
  using assms by (simp_all add: same_stream_def sent_def stream_ok_def isWriting_def)

lemma same_stream_queueInLoop:
  assumes "fd (conn_channel n w) \<noteq> wakeupFd w"
  shows "same_stream n w (queueInLoop S task_owner t w)"
proof -
  let ?u = "acquire_opt (task_owner t) (w\<lparr>pendingFunctors := pendingFunctors w @ [t]\<rparr>)"
  have u: "conn_heap ?u = conn_heap w" "wakeupFd ?u = wakeupFd w" "chan_heap ?u = chan_heap w" "trace ?u = trace w"
    by (simp_all add: acquire_opt_def acquire_def split: option.split)
  have "conn_heap (log_call e k ?u) = conn_heap w" for e k by (simp add: log_call_def u)
  then have "same_stream n w (wakeup S ?u)"
    using assms by (simp add: same_stream_def conn_channel_def wakeup_def socket_defs sys_eqs wire_append u)
  moreover have "same_stream n w ?u" by (simp add: same_stream_def conn_channel_def u)
  ultimately show ?thesis by (simp add: queueInLoop_def Let_def)
qed

lemma same_stream_queue_shared:
  "queue_shared S m t w = Inr v \<Longrightarrow> fd (conn_channel n w) \<noteq> wakeupFd w \<Longrightarrow> same_stream n w v"
  by (auto simp: queue_shared_def same_stream_queueInLoop split: if_splits)

lemma sock_write_stream:
  assumes "sock_write S (fd (conn_channel n w)) bs w = ((r, e), w1)" and "write_contract S"
  shows "conn_heap w1 = conn_heap w" "wakeupFd w1 = wakeupFd w" "conn_channel n w1 = conn_channel n w"
    "refs w1 = refs w"
    "wire (fd (conn_channel n w)) (trace w1) =
       wire (fd (conn_channel n w)) (trace w) @ (if 0 \<le> r then take (nat r) bs else [])"
    "r \<le> int (length bs)" "fst (os_write S (fd (conn_channel n w)) bs (os w)) = (r, e)"
proof -
  have w1: "w1 = log_call (Sys_write (fd (conn_channel n w)) bs r) (snd (os_write S (fd (conn_channel n w)) bs (os w))) w"
    and re: "(r, e) = fst (os_write S (fd (conn_channel n w)) bs (os w))"
    using assms(1) by (auto simp: sock_write_def sys_eqs)
  show "conn_heap w1 = conn_heap w" "wakeupFd w1 = wakeupFd w" "conn_channel n w1 = conn_channel n w"
    "refs w1 = refs w"
    by (simp_all add: w1 conn_channel_def) (simp_all add: log_call_def)
  show "wire (fd (conn_channel n w)) (trace w1) =
       wire (fd (conn_channel n w)) (trace w) @ (if 0 \<le> r then take (nat r) bs else [])"
    by (simp add: w1 wire_append)
  have "fst (fst (os_write S (fd (conn_channel n w)) bs (os w))) \<le> int (length bs)"
    using assms(2) by (simp add: write_contract_def)
  then show "r \<le> int (length bs)" by (simp flip: re)
  show "fst (os_write S (fd (conn_channel n w)) bs (os w)) = (r, e)" by (simp add: re)
qed

section \<open>Sending\<close>

lemma send_remaining_stream:
  assumes r: "r \<le> length data" "k = length data - r" and len: "length data < 2 ^ 63"
    and inv: "buffer_inv (outputBuffer (conn_heap w n))" "fd (conn_channel n w) \<noteq> wakeupFd w"
      "state (conn_heap w n) \<noteq> kDisconnected"
      "isWriting (conn_channel n w) \<longleftrightarrow> content (outputBuffer (conn_heap w n)) \<noteq> []"
    and run: "send_remaining S n data k r False w = Inr v"
  shows "stream_ok n v \<and> sent n v = sent n w @ drop k data"
proof (cases "0 < r")
  case False
  then show ?thesis using assms by (simp add: send_remaining_def stream_ok_def)
next
  case True
  let ?cn = "conn_heap w n"
  let ?m = "if highWaterMark ?cn \<le> size_add (readableBytes (outputBuffer ?cn)) r \<and>
                 readableBytes (outputBuffer ?cn) < highWaterMark ?cn
            then (case highWaterMarkCallback ?cn of
                    Some u \<Rightarrow> queue_shared S n (ConnHighWaterMark u n (size_add (readableBytes (outputBuffer ?cn)) r)) w
                  | None \<Rightarrow> Inr w)
            else Inr w"
  obtain w1 b where w1: "?m = Inr w1" and b: "append_buf (take r (drop k data)) (outputBuffer (conn_heap w1 n)) = Inr b"
    and v: "v = (let w2 = upd_conn n (\<lambda>cn. cn\<lparr>outputBuffer := b\<rparr>) w1
        in if \<not> isWriting (conn_channel n w2) then enableWriting S (channel_of (conn_heap w2 n)) w2 else w2)"
    using run True r(1) unfolding send_remaining_def Let_def
    by (auto simp only: ebind_eq_Inr simp_thms if_True Inr_inject)
  have "same_stream n w w1"
    using w1 inv(2) by (auto intro: same_stream_queue_shared split: if_splits option.splits)
  note ss = same_streamD[OF this]
  have d: "take r (drop k data) = drop k data" using r by simp
  have "length (drop k data) < 2 ^ 63" using len by simp
  with b bq.put_abs[of "outputBuffer (conn_heap w1 n)" "drop k data" b] inv(1)
  have b': "buffer_inv b" "content b = content (outputBuffer ?cn) @ drop k data" by (simp_all add: d ss(4))
  have ne: "content b \<noteq> []" using b'(2) True r by auto
  let ?w2 = "upd_conn n (\<lambda>cn. cn\<lparr>outputBuffer := b\<rparr>) w1"
  have w2: "stream_ok n ?w2 \<or> \<not> isWriting (conn_channel n ?w2)" "sent n ?w2 = sent n w1 @ drop k data"
    using b' ne inv ss by (auto simp: stream_ok_def sent_def)
  have en: "stream_ok n (enableWriting S (channel_of (conn_heap ?w2 n)) ?w2) \<and>
            sent n (enableWriting S (channel_of (conn_heap ?w2 n)) ?w2) = sent n ?w2"
    using ne b'(1) inv(2,3) ss by (intro start_writing) simp_all
  show ?thesis using v w2 en ss(1) by (auto simp: Let_def split: if_splits)
qed

lemma send_stream:
  assumes ok: "stream_ok n w" and S: "write_contract S" and len: "length data < 2 ^ 63"
    and run: "sendInLoop S n data w = Inr v"
  shows "stream_ok n v \<and> sent n v = sent n w @ (if dropped S n data w then [] else data)"
proof (cases "isWriting (conn_channel n w)")
  case True
  then have "send_remaining S n data 0 (length data) False w = Inr v"
    using run ok by (simp add: sendInLoop_def loop_op_defs Let_def stream_ok_def)
  then show ?thesis
    using send_remaining_stream[of "length data" data 0 w n S v] ok len True by (simp add: stream_ok_def dropped_def)
next
  case False
  then have empty: "content (outputBuffer (conn_heap w n)) = []" using ok by (simp add: stream_ok_def)
  then have rb: "readableBytes (outputBuffer (conn_heap w n)) = 0"
    using ok by (simp add: stream_ok_def readableBytes_content)
  obtain r e w1 where wr: "sock_write S (fd (conn_channel n w)) data w = ((r, e), w1)" by (metis surj_pair)
  note W = sock_write_stream[OF wr S]
  have pre: "buffer_inv (outputBuffer (conn_heap w1 n))" "fd (conn_channel n w1) \<noteq> wakeupFd w1"
    "state (conn_heap w1 n) \<noteq> kDisconnected"
    "isWriting (conn_channel n w1) \<longleftrightarrow> content (outputBuffer (conn_heap w1 n)) \<noteq> []"
    using ok W by (simp_all add: stream_ok_def)
  show ?thesis
  proof (cases "0 \<le> r")
    case True
    let ?r = "length data - nat r"
    have sz: "size_sub (length data) (nat r) = ?r" using W(6) True len by (intro size_sub_small) auto
    obtain w2 where w2: "(case writeCompleteCallback (conn_heap w1 n) of
          Some u \<Rightarrow> (if ?r = 0 then queue_shared S n (ConnWriteComplete u n) w1 else Inr w1) | None \<Rightarrow> Inr w1) = Inr w2"
      "send_remaining S n data (nat r) ?r False w2 = Inr v"
      using run ok False rb True by (auto simp: sendInLoop_def loop_op_defs Let_def stream_ok_def wr sz ebind_eq_Inr)
    have "same_stream n w1 w2"
      using w2(1) pre(2) by (auto intro: same_stream_queue_shared split: option.splits if_splits)
    note ss = same_streamD[OF this]
    have "stream_ok n v \<and> sent n v = sent n w2 @ drop (nat r) data"
      by (rule send_remaining_stream[OF _ _ len _ _ _ _ w2(2)]) (use pre ss W(6) True in auto)
    moreover have "sent n w1 = sent n w @ take (nat r) data"
      using W True empty by (simp add: sent_def)
    moreover have "\<not> dropped S n data w" using W(7) True by (simp add: dropped_def peer_gone_def)
    ultimately show ?thesis using ss(1) by simp
  next
    case neg: False
    have same: "sent n w1 = sent n w" using W neg by (simp add: sent_def)
    have lost: "dropped S n data w \<longleftrightarrow> e = EPIPE \<or> e = ECONNRESET"
      using W(7) False empty neg by (simp add: dropped_def peer_gone_def)
    have "send_remaining S n data 0 (length data) (e \<noteq> EWOULDBLOCK \<and> (e = EPIPE \<or> e = ECONNRESET)) w1 = Inr v"
      using run ok False rb neg by (auto simp: sendInLoop_def loop_op_defs Let_def stream_ok_def wr)
    then have rest: "send_remaining S n data 0 (length data) (dropped S n data w) w1 = Inr v"
      using lost by (cases e) simp_all
    show ?thesis
    proof (cases "dropped S n data w")
      case True
      then show ?thesis using rest same pre ok W by (simp add: send_remaining_def stream_ok_def)
    next
      case False
      then show ?thesis
        using send_remaining_stream[of "length data" data 0 w1 n S v] rest same pre len by simp
    qed
  qed
qed

section \<open>Writing what is queued\<close>

lemma shutdownInLoop_stream: "same_stream n w (shutdownInLoop S n w)"
proof -
  have "same_stream n w (log_call e k w)" if "\<And>f bs r. e \<noteq> Sys_write f bs r" for e k
  proof -
    have "conn_heap (log_call e k w) = conn_heap w" by (simp add: log_call_def)
    moreover from this have "conn_channel n (log_call e k w) = conn_channel n w" by (simp add: conn_channel_def)
    ultimately show ?thesis using wire_nonwrite[OF that] by (simp add: same_stream_def wire_append)
  qed
  then show ?thesis by (simp add: shutdownInLoop_def Let_def loop_op_defs socket_defs sys_eqs)
qed

lemma same_stream_trans: "same_stream n u v \<Longrightarrow> same_stream n v w \<Longrightarrow> same_stream n u w"
  by (simp add: same_stream_def)

lemma handleWrite_stream:
  assumes ok: "stream_ok n w" and S: "write_contract S" and run: "handleWrite S n w = Inr v"
  shows "stream_ok n v \<and> sent n v = sent n w"
proof (cases "isWriting (conn_channel n w)")
  case False
  then show ?thesis using run ok by (simp add: handleWrite_def loop_op_defs)
next
  case True
  let ?out = "outputBuffer (conn_heap w n)"
  let ?bs = "slice (peek ?out) (peek ?out + readableBytes ?out) (storage ?out)"
  have inv: "buffer_inv ?out" using ok by (simp add: stream_ok_def)
  have bs: "?bs = content ?out"
    using peeked_bytes[OF inv, of "readableBytes ?out"] by (simp add: readableBytes_content[OF inv])
  obtain r e w1 where wr: "sock_write S (fd (conn_channel n w)) ?bs w = ((r, e), w1)" by (metis surj_pair)
  note W = sock_write_stream[OF wr S]
  show ?thesis
  proof (cases "0 < r")
    case False
    then have "v = w1" using run True by (auto simp: handleWrite_def loop_op_defs Let_def wr)
    then show ?thesis using W ok False by (auto simp: stream_ok_def sent_def)
  next
    case pos: True
    then obtain b where b: "retrieve (nat r) ?out = Inr b"
      using run True W(1) by (auto simp: handleWrite_def loop_op_defs Let_def wr ebind_eq_Inr)
    from bq.flush[OF inv b] have b': "buffer_inv b" "take (nat r) (content ?out) @ content b = content ?out" by auto
    let ?w2 = "upd_conn n (\<lambda>cn. cn\<lparr>outputBuffer := b\<rparr>) w1"
    have sent2: "sent n ?w2 = sent n w" using W pos b'(2) by (simp add: sent_def bs)
    show ?thesis
    proof (cases "readableBytes b = 0")
      case False
      then have "v = ?w2" "content b \<noteq> []"
        using run True pos b b'(1) W(1) readableBytes_content[OF b'(1)]
        by (auto simp: handleWrite_def loop_op_defs Let_def wr)
      then show ?thesis using sent2 ok W b'(1) True by (simp add: stream_ok_def)
    next
      case drained: True
      then have nil: "content b = []" using readableBytes_content[OF b'(1)] by simp
      let ?w3 = "disableWriting S (channel_of (conn_heap ?w2 n)) ?w2"
      have w3: "stream_ok n ?w3 \<and> sent n ?w3 = sent n w"
        unfolding sent2[symmetric] using ok W b'(1) nil by (intro stop_writing) (simp_all add: stream_ok_def)
      obtain w4 where w4: "(case writeCompleteCallback (conn_heap ?w3 n) of
            Some u \<Rightarrow> queue_shared S n (ConnWriteComplete u n) ?w3 | None \<Rightarrow> Inr ?w3) = Inr w4"
        "v = (if state (conn_heap w4 n) = kDisconnecting then shutdownInLoop S n w4 else w4)"
        using run True pos b drained W(1) by (auto simp: handleWrite_def loop_op_defs Let_def wr ebind_eq_Inr cong: option.case_cong)
      have "fd (conn_channel n ?w3) \<noteq> wakeupFd ?w3" using w3 by (simp add: stream_ok_def)
      with w4(1) have "same_stream n ?w3 w4"
        by (auto intro: same_stream_queue_shared split: option.splits)
      moreover have "same_stream n w4 v" using w4(2) shutdownInLoop_stream by auto
      ultimately have "same_stream n ?w3 v" by (rule same_stream_trans)
      from same_streamD[OF this] w3 show ?thesis by simp
    qed
  qed
qed

lemma shutdown_stream:
  assumes ok: "stream_ok n w" and run: "shutdown S n w = Inr v"
  shows "stream_ok n v \<and> sent n v = sent n w"
proof (cases "state (conn_heap w n) = kConnected")
  case False
  then show ?thesis using run ok by (simp add: shutdown_def)
next
  case True
  let ?w1 = "upd_conn n (setState kDisconnecting) w"
  have w1: "stream_ok n ?w1 \<and> sent n ?w1 = sent n w" using ok by (simp add: stream_ok_def sent_def setState_def)
  have "fd (conn_channel n ?w1) \<noteq> wakeupFd ?w1" using w1 by (simp add: stream_ok_def)
  then have "same_stream n ?w1 v"
    using run True
    by (auto simp: shutdown_def runInLoop_def shutdownInLoop_stream same_stream_queueInLoop split: if_splits)
  from same_streamD[OF this] w1 show ?thesis by simp
qed

section \<open>Runs of the output path\<close>

datatype io_op = Send "byte list" | Writable | Shutdown

fun io_step :: "'o os_calls \<Rightarrow> nat \<Rightarrow> io_op \<Rightarrow> ('o, 'z) net_st_scheme \<Rightarrow> ('o, 'z) net_st_scheme res" where
  "io_step S n (Send d) w = send S n d w"
| "io_step S n Writable w = handleWrite S n w"
| "io_step S n Shutdown w = shutdown S n w"

fun payload :: "io_op \<Rightarrow> byte list" where
  "payload (Send d) = d"
| "payload _ = []"

text \<open>What a run of operations hands over: the payload of every send that is not dropped.\<close>

fun lost :: "'o os_calls \<Rightarrow> nat \<Rightarrow> io_op \<Rightarrow> ('o, 'z) net_st_scheme \<Rightarrow> bool" where
  "lost S n (Send d) w = dropped S n d w"
| "lost S n _ w = False"

fun kept :: "'o os_calls \<Rightarrow> nat \<Rightarrow> io_op list \<Rightarrow> ('o, 'z) net_st_scheme \<Rightarrow> byte list" where
  "kept S n [] w = []"
| "kept S n (x # xs) w =
     (if lost S n x w then [] else payload x) @ (case io_step S n x w of Inl e \<Rightarrow> [] | Inr v \<Rightarrow> kept S n xs v)"

lemma kept_all:
  assumes "\<And>f bs k. \<not> peer_gone (fst (os_write S f bs k))" and "foldE (io_step S n) ops w = Inr v"
  shows "kept S n ops w = concat (map payload ops)"
  using assms(2)
proof (induction ops arbitrary: w)
  case (Cons x xs)
  have "\<not> lost S n x w" using assms(1) by (cases x) (simp_all add: dropped_def)
  with Cons show ?case by (auto simp: ebind_eq_Inr)
qed simp

text \<open>C9: The output stream of a connection is a FIFO: for every interleaving of sends, writable
  events and a shutdown, and for every sequence of short and refused writes of the kernel,
  the bytes accepted on the socket followed by the bytes still queued are the bytes accepted
  or queued before followed by the messages sent since, whole, in order and once each, except
  those dropped: a message is dropped, whole, exactly when nothing is queued and the direct
  write of it fails with \<open>EPIPE\<close> or \<open>ECONNRESET\<close>.  Without these errors nothing is lost.  The
  channel asks for writability exactly while something is queued.\<close>
theorem output_stream_fifo:
  assumes "stream_ok n w" and "write_contract S" and "\<forall>d. Send d \<in> set ops \<longrightarrow> length d < 2 ^ 63"
    and "foldE (io_step S n) ops w = Inr v"
  shows "sent n v = sent n w @ kept S n ops w \<and>
         ((\<forall>f bs k. \<not> peer_gone (fst (os_write S f bs k))) \<longrightarrow> kept S n ops w = concat (map payload ops)) \<and>
         (isWriting (conn_channel n v) \<longleftrightarrow> content (outputBuffer (conn_heap v n)) \<noteq> [])"
proof -
  have "stream_ok n v \<and> sent n v = sent n w @ kept S n ops w"
    using assms
  proof (induction ops arbitrary: w)
    case (Cons x xs)
    then obtain u where u: "io_step S n x w = Inr u" "foldE (io_step S n) xs u = Inr v" by (auto simp: ebind_eq_Inr)
    have "stream_ok n u \<and> sent n u = sent n w @ (if lost S n x w then [] else payload x)"
    proof (cases x)
      case (Send d)
      then show ?thesis using send_stream[OF Cons.prems(1,2), of d u] Cons.prems(3) u(1) by (simp add: send_def)
    next
      case Writable
      then show ?thesis using handleWrite_stream[OF Cons.prems(1,2)] u(1) by simp
    next
      case Shutdown
      then show ?thesis using shutdown_stream[OF Cons.prems(1)] u(1) by simp
    qed
    with Cons.IH[OF _ Cons.prems(2) _ u(2)] Cons.prems(3) u(1) show ?case by simp
  qed simp
  then show ?thesis using kept_all[OF _ assms(4)] by (auto simp: stream_ok_def)
qed

text \<open>A connected socket 7 whose kernel takes three bytes at a time.\<close>

definition slow_kernel :: "unit os_calls" where
  "slow_kernel = nop_kernel\<lparr>os_write := (\<lambda>f bs k. ((int (min 3 (length bs)), EINTR), k))\<rparr>"

definition sample_conn :: connection where
  "sample_conn = \<lparr>channel_of = 0, socket_of = 7, conn_name = ''c'', localAddr = zero_addr, peerAddr = zero_addr,
     state = kConnected, connectionCallback = None, messageCallback = None, writeCompleteCallback = None,
     highWaterMarkCallback = None, conn_closeCallback = None, highWaterMark = 64 * 1024 * 1024,
     inputBuffer = sample_buffer, outputBuffer = sample_buffer\<rparr>"

definition sample_net :: "unit net_st" where
  "sample_net = \<lparr>os = (), trace = [], refs = (\<lambda>_. 1), chan_heap = (\<lambda>_. (new_channel 7)\<lparr>events := 3, index := cAdded\<rparr>),
     next_chan = 1, epollfd = 5, events_size = 16, channels = [7 \<mapsto> 0], quit = False, eventHandling = False,
     callingPendingFunctors = False, wakeupFd = 4, wakeupChannel = 0, threadId = 0, thisThread = 1,
     activeChannels = [], currentActiveChannel = None, pendingFunctors = [],
     conn_heap = (\<lambda>_. sample_conn), next_conn = 1\<rparr>"

definition sample_io :: "io_op list" where
  "sample_io = [Send [1, 2, 3, 4, 5], Send [6], Writable, Shutdown, Send [7]]"

lemma output_stream_fifo_witness:
  "\<exists>v. foldE (io_step slow_kernel 0) sample_io sample_net = Inr v \<and>
       sent 0 v = [1, 2, 3, 4, 5, 6, 7] \<and>
       (isWriting (conn_channel 0 v) \<longleftrightarrow> content (outputBuffer (conn_heap v 0)) \<noteq> [])"
proof -
  have nil: "content sample_buffer = []" by (simp add: content_def sample_buffer_def slice_def)
  then have ok: "stream_ok 0 sample_net"
    by (simp add: stream_ok_def sample_net_def sample_conn_def sample_buffer_inv conn_channel_def
        isWriting_def new_channel_def event_defs)
  have S: "write_contract slow_kernel" by (simp add: write_contract_def slow_kernel_def)
  have "\<not> isl (foldE (io_step slow_kernel 0) sample_io sample_net)" by code_simp
  then obtain v where v: "foldE (io_step slow_kernel 0) sample_io sample_net = Inr v"
    by (cases "foldE (io_step slow_kernel 0) sample_io sample_net") auto
  have "sent 0 sample_net = []"
    by (simp add: sent_def sample_net_def sample_conn_def nil)
  moreover have "\<not> peer_gone (fst (os_write slow_kernel f bs k))" for f bs k
    by (simp add: peer_gone_def slow_kernel_def)
  ultimately show ?thesis
    using v output_stream_fifo[OF ok S _ v] by (auto simp: sample_io_def)
qed

text \<open>A peer that is gone: the first message is dropped, and a later one is not held back by that.\<close>

definition broken_kernel :: "unit os_calls" where
  "broken_kernel = nop_kernel\<lparr>os_write := (\<lambda>f bs k. ((if length bs = 2 then -1 else int (length bs), EPIPE), k))\<rparr>"

lemma broken_pipe_drops:
  "kept broken_kernel 0 [Send [1, 2], Send [3]] sample_net = [3]"
  by code_simp

end
