(* ===== verification/ServerSteps.thy ===== *)
theory ServerSteps
  imports MyServer ConnectionFrame
begin

text \<open>
  How each task of the complete program (\<open>run_task\<close>) changes the connections, the count of
  \<open>MyServer\<close> and the queue of the loop.  \<open>conn_inv\<close> is the invariant of the count: it equals
  the number of connections in an open state.  \<open>ages\<close> says that every connection only moves
  forward in its lifecycle.  The two interpretations at the end discharge the contracts of
  the loop (\<open>loop_client\<close> and \<open>loop_invariant\<close>) for this program.
\<close>

section \<open>The lifecycle order\<close>

text \<open>The order in which a connection goes through its states (not the order of the enum).\<close>

fun stage :: "StateE \<Rightarrow> nat" where
  "stage kConnecting = 0"
| "stage kConnected = 1"
| "stage kDisconnecting = 2"
| "stage kDisconnected = 3"

instantiation StateE :: linorder
begin

definition less_eq_StateE :: "StateE \<Rightarrow> StateE \<Rightarrow> bool" where
  "less_eq_StateE s t \<longleftrightarrow> stage s \<le> stage t"

definition less_StateE :: "StateE \<Rightarrow> StateE \<Rightarrow> bool" where
  "less_StateE s t \<longleftrightarrow> stage s < stage t"

instance
proof
  fix s t :: StateE
  show "s \<le> t \<Longrightarrow> t \<le> s \<Longrightarrow> s = t"
    by (cases s; cases t) (simp_all add: less_eq_StateE_def)
qed (auto simp: less_eq_StateE_def less_StateE_def)

end

lemma le_kDisconnected [simp]: "s \<le> kDisconnected"
  by (cases s) (simp_all add: less_eq_StateE_def)

lemma kConnecting_le [simp]: "kConnecting \<le> s"
  by (cases s) (simp_all add: less_eq_StateE_def)

lemma kConnected_le_kDisconnecting [simp]: "kConnected \<le> kDisconnecting"
  by (simp add: less_eq_StateE_def)

section \<open>Relations and the invariant\<close>

definition open_state :: "StateE \<Rightarrow> bool" where
  "open_state s \<longleftrightarrow> s = kConnected \<or> s = kDisconnecting"

definition open_conns :: "('o, 'z) net_st_scheme \<Rightarrow> nat set" where
  "open_conns w = {n. open_state (state (conn_heap w n))}"

text \<open>\<open>d\<close> is what the count still misses, inside a handler.\<close>

definition conn_inv_off :: "int \<Rightarrow> ('o, 'z) world \<Rightarrow> bool" where
  "conn_inv_off d w \<longleftrightarrow>
     server_connectionCallback w = Some MyServerOnConnection \<and>
     (\<forall>n\<ge>next_conn w. state (conn_heap w n) = kDisconnected) \<and>
     (\<forall>n. state (conn_heap w n) \<noteq> kDisconnected \<longrightarrow>
          connectionCallback (conn_heap w n) = Some MyServerOnConnection) \<and>
     numConnected w + d = int (card (open_conns w))"

abbreviation conn_inv :: "('o, 'z) world \<Rightarrow> bool" where
  "conn_inv w \<equiv> conn_inv_off 0 w"

definition ages :: "('o, 'z) net_st_scheme \<Rightarrow> ('o, 'z) net_st_scheme \<Rightarrow> bool" where
  "ages w v \<longleftrightarrow> next_conn w \<le> next_conn v \<and>
     (\<forall>n<next_conn w. state (conn_heap w n) \<le> state (conn_heap v n))"

definition works :: "('o, 'z) net_st_scheme \<Rightarrow> ('o, 'z) net_st_scheme \<Rightarrow> bool" where
  "works w v \<longleftrightarrow> enqueues is_functor w v \<and> wakes w v"

text \<open>The connections' states and callbacks, and the members of \<open>MyServer\<close> the count needs.\<close>

definition calm :: "('o, 'z) world \<Rightarrow> ('o, 'z) world \<Rightarrow> bool" where
  "calm w v \<longleftrightarrow> next_conn v = next_conn w \<and> numConnected v = numConnected w \<and>
     server_connectionCallback v = server_connectionCallback w \<and>
     (\<forall>n. state (conn_heap v n) = state (conn_heap w n) \<and>
          connectionCallback (conn_heap v n) = connectionCallback (conn_heap w n))"

definition tame :: "('o, 'z) world \<Rightarrow> ('o, 'z) world \<Rightarrow> bool" where
  "tame w v \<longleftrightarrow> works w v \<and> calm w v"

lemma ages_refl [simp]: "ages w w"
  by (simp add: ages_def)

lemma ages_trans: "ages u v \<Longrightarrow> ages v w \<Longrightarrow> ages u w"
  unfolding ages_def by (meson order_less_le_trans order_trans)

lemma works_refl [simp]: "works w w"
  by (simp add: works_def)

lemma works_trans: "works u v \<Longrightarrow> works v w \<Longrightarrow> works u w"
  unfolding works_def using enqueues_trans wakes_trans by blast

lemma silent_works: "silent w v \<Longrightarrow> works w v"
  by (simp add: silent_def works_def)

lemma same_loop_works: "same_loop w v \<Longrightarrow> (wake_due w \<Longrightarrow> wake_due v) \<Longrightarrow> works w v"
  by (auto simp: works_def wakes_def intro: same_loop_enqueues) (simp add: same_loop_def)

lemma more_eqD:
  assumes "net_st.more v = net_st.more w"
  shows "numConnected v = numConnected w" "server_connectionCallback v = server_connectionCallback w"
    "connections v = connections w" "nextConnId v = nextConnId w"
  using assms
  by (cases v rule: myserver_st.cases_scheme; cases w rule: myserver_st.cases_scheme;
      simp only: net_st.select_convs server_st.select_convs myserver_st.select_convs
        acceptor_st.ext_inject server_st.ext_inject myserver_st.ext_inject)+

lemma silent_calm: "silent w v \<Longrightarrow> calm w v"
  using same_connsD[of w v] more_eqD[of v w] by (simp add: silent_def calm_def)

lemma silent_tame: "silent w v \<Longrightarrow> tame w v"
  by (simp add: tame_def silent_works silent_calm)

lemma calm_refl [simp]: "calm w w"
  by (simp add: calm_def)

lemma calm_trans: "calm u v \<Longrightarrow> calm v w \<Longrightarrow> calm u w"
  by (simp add: calm_def)

lemma tame_refl [simp]: "tame w w"
  by (simp add: tame_def)

lemma tame_trans: "tame u v \<Longrightarrow> tame v w \<Longrightarrow> tame u w"
  unfolding tame_def using works_trans calm_trans by blast

lemma calm_conn_inv: "calm w v \<Longrightarrow> conn_inv_off d v = conn_inv_off d w"
  by (simp add: calm_def conn_inv_off_def open_conns_def)

lemma calm_ages: "calm w v \<Longrightarrow> ages w v"
  by (simp add: calm_def ages_def)

lemma calm_state: "calm w v \<Longrightarrow> state (conn_heap v n) = state (conn_heap w n)"
  by (simp add: calm_def)

lemma calm_callback: "calm w v \<Longrightarrow> connectionCallback (conn_heap v n) = connectionCallback (conn_heap w n)"
  by (simp add: calm_def)

lemma finite_open_conns: "conn_inv_off d w \<Longrightarrow> finite (open_conns w)"
proof -
  assume "conn_inv_off d w"
  then have "open_conns w \<subseteq> {..<next_conn w}"
    by (auto simp: conn_inv_off_def open_conns_def open_state_def not_le[symmetric])
  then show ?thesis by (rule finite_subset) simp
qed

section \<open>Changes of state\<close>

lemma upd_conn_world [simp]:
  "numConnected (upd_conn n f w) = numConnected w"
  "server_connectionCallback (upd_conn n f w) = server_connectionCallback w"
  by (simp_all add: upd_conn_def)

lemma upd_conn_heap [simp]:
  "conn_heap (upd_conn n f w) = (conn_heap w)(n := f (conn_heap w n))" "next_conn (upd_conn n f w) = next_conn w"
  "refs (upd_conn n f w) = refs w"
  by (simp_all add: upd_conn_def)

lemma setState_simps [simp]:
  "state (setState s cn) = s" "connectionCallback (setState s cn) = connectionCallback cn"
  "conn_closeCallback (setState s cn) = conn_closeCallback cn" "channel_of (setState s cn) = channel_of cn"
  by (simp_all add: setState_def)

lemma works_upd_conn: "works w (upd_conn n f w)"
  by (rule same_loop_works) (simp_all add: same_loop_def wake_due_def upd_conn_def)

lemma open_conns_setState:
  "open_conns (upd_conn n (setState s) w) = (if open_state s then insert n (open_conns w) else open_conns w - {n})"
  by (auto simp: open_conns_def)

lemma ages_setState: "state (conn_heap w n) \<le> s \<Longrightarrow> ages w (upd_conn n (setState s) w)"
  by (simp add: ages_def)

text \<open>Opening, closing, and staying open.\<close>

lemma inv_opens:
  assumes "conn_inv w" "state (conn_heap w n) = kConnecting"
  shows "conn_inv_off 1 (upd_conn n (setState kConnected) w)"
proof -
  have "n \<notin> open_conns w" using assms(2) by (simp add: open_conns_def open_state_def)
  then have "card (insert n (open_conns w)) = Suc (card (open_conns w))"
    using finite_open_conns[OF assms(1)] by simp
  then show ?thesis
    using assms by (auto simp: conn_inv_off_def open_conns_setState open_state_def)
qed

lemma inv_closes:
  assumes "conn_inv w" "open_state (state (conn_heap w n))"
  shows "conn_inv_off (- 1) (upd_conn n (setState kDisconnected) w)"
proof -
  have n: "n \<in> open_conns w" using assms(2) by (simp add: open_conns_def)
  with finite_open_conns[OF assms(1)] have "0 < card (open_conns w)" by (auto simp: card_gt_0_iff)
  moreover have "card (open_conns w - {n}) = card (open_conns w) - 1" using n by (rule card_Diff_singleton)
  ultimately have "int (card (open_conns w - {n})) = int (card (open_conns w)) - 1" by simp
  then show ?thesis
    using assms(1) by (auto simp: conn_inv_off_def open_conns_setState open_state_def)
qed

lemma inv_stays_open:
  assumes "conn_inv_off d w" "open_state (state (conn_heap w n))"
  shows "conn_inv_off d (upd_conn n (setState kDisconnecting) w)"
proof -
  have "insert n (open_conns w) = open_conns w" using assms(2) by (auto simp: open_conns_def)
  then show ?thesis
    using assms by (auto simp: conn_inv_off_def open_conns_setState open_state_def)
qed

section \<open>Operations that change the state of a connection\<close>

lemma shutdown_step:
  assumes "shutdown S n w = Inr v" "conn_inv_off d w"
  shows "works w v \<and> conn_inv_off d v \<and> ages w v"
proof (cases "state (conn_heap w n) = kConnected")
  case False
  then show ?thesis using assms by (simp add: shutdown_def)
next
  case True
  let ?u = "upd_conn n (setState kDisconnecting) w"
  have "silent ?u v"
    using assms(1) True
    by (auto simp: shutdown_def runInLoop_def intro: silent_queueInLoop quiet_silent quiet_intros split: if_splits)
  note t = silent_tame[OF this]
  have "conn_inv_off d ?u" "ages w ?u"
    using assms(2) True by (simp_all add: inv_stays_open open_state_def ages_setState)
  with t show ?thesis
    unfolding tame_def using works_upd_conn works_trans calm_conn_inv calm_ages ages_trans by blast
qed

lemma forceClose_step:
  assumes "forceClose S n w = Inr v" "conn_inv_off d w"
  shows "works w v \<and> conn_inv_off d v \<and> ages w v"
proof (cases "open_state (state (conn_heap w n))")
  case False
  then show ?thesis using assms by (simp add: forceClose_def open_state_def)
next
  case True
  let ?u = "upd_conn n (setState kDisconnecting) w"
  have "silent ?u v"
    using assms(1) True by (auto simp: forceClose_def open_state_def intro: silent_queue_shared)
  note t = silent_tame[OF this]
  have "conn_inv_off d ?u" "ages w ?u"
    using assms(2) True by (auto simp: inv_stays_open open_state_def intro!: ages_setState)
  with t show ?thesis
    unfolding tame_def using works_upd_conn works_trans calm_conn_inv calm_ages ages_trans by blast
qed

lemma works_myserver_fields:
  "works w (w\<lparr>numConnected := k\<rparr>)" "works w (w\<lparr>flag := b, hostPtr := p\<rparr>)"
  by (rule same_loop_works; simp add: same_loop_def wake_due_def)+

lemma inv_count: "conn_inv_off d w \<Longrightarrow> conn_inv_off (d - k) (w\<lparr>numConnected := numConnected w + k\<rparr>)"
  by (simp add: conn_inv_off_def open_conns_def)

text \<open>The connection callback settles the count, whatever it does with the connection.\<close>

lemma onConnection_step:
  assumes run: "onConnection S n w = Inr v"
    and inv: "conn_inv_off (if state (conn_heap w n) = kConnected then 1 else - 1) w"
  shows "works w v \<and> conn_inv v \<and> ages w v"
proof (cases "state (conn_heap w n) = kConnected")
  case True
  let ?u = "w\<lparr>numConnected := numConnected w + 1\<rparr>"
  have u: "works w ?u" "conn_inv ?u" "ages w ?u"
    using inv_count[of 1 w 1] inv True by (simp_all add: works_myserver_fields ages_def)
  show ?thesis
  proof (cases "kMaxConnections ?u < numConnected ?u")
    case full: True
    then obtain u1 where "shutdown S n ?u = Inr u1" "forceClose S n u1 = Inr v"
      using run True by (auto simp: onConnection_def connected_def ebind_eq_Inr split: if_splits)
    then show ?thesis
      using shutdown_step[of S n ?u u1 0] forceClose_step[of S n u1 v 0] u works_trans ages_trans by blast
  next
    case False
    then have "v = ?u \<or> v = ?u\<lparr>flag := False, hostPtr := Some n\<rparr>"
      using run True by (auto simp: onConnection_def connected_def Let_def split: if_splits)
    moreover have "works ?u (?u\<lparr>flag := False, hostPtr := Some n\<rparr>)" by (rule works_myserver_fields)
    moreover have "conn_inv (?u\<lparr>flag := False, hostPtr := Some n\<rparr>) = conn_inv ?u"
      by (simp add: conn_inv_off_def open_conns_def)
    moreover have "ages w (?u\<lparr>flag := False, hostPtr := Some n\<rparr>)" by (simp add: ages_def)
    ultimately show ?thesis using u works_trans by metis
  qed
next
  case False
  let ?u = "w\<lparr>numConnected := numConnected w - 1\<rparr>"
  have "v = ?u" using run False by (auto simp: onConnection_def connected_def split: if_splits)
  moreover have "works w ?u" by (rule works_myserver_fields)
  moreover have "conn_inv ?u" using inv_count[of "- 1" w "- 1"] inv False by simp
  ultimately show ?thesis by (simp add: ages_def)
qed

section \<open>Removal from the server's map\<close>

lemma tame_connections: "tame w (w\<lparr>connections := cs\<rparr>)"
proof -
  have "works w (w\<lparr>connections := cs\<rparr>)" by (rule same_loop_works) (simp_all add: same_loop_def wake_due_def)
  then show ?thesis by (simp add: tame_def calm_def)
qed

lemma tame_removeConnectionInLoop: "tame w (removeConnectionInLoop S n w)"
proof -
  let ?u = "w\<lparr>connections := AList.delete (conn_name (conn_heap w n)) (connections w)\<rparr>"
  let ?r = "release_opt (conn_dtor S) (map_of (connections w) (conn_name (conn_heap w n))) ?u"
  have "tame w ?u" by (rule tame_connections)
  moreover have "tame ?u ?r" by (intro silent_tame quiet_silent quiet_intros)
  moreover have "tame ?r (queueInLoop S task_owner (ConnConnectDestroyed n) ?r)"
    by (intro silent_tame silent_queueInLoop) simp
  ultimately show ?thesis
    unfolding removeConnectionInLoop_def Let_def loop_op_defs by (blast intro: tame_trans)
qed

lemma tame_removeConnection:
  "removeConnection S n w = Inr v \<Longrightarrow> tame w v"
  by (auto simp: removeConnection_def runInLoop_def tame_removeConnectionInLoop
      intro!: silent_tame[OF silent_queueInLoop] split: if_splits)

lemma tame_on_close: "my_on_close S u n w = Inr v \<Longrightarrow> tame w v"
  by (auto simp: my_on_close_def tame_removeConnection split: callback.splits)

section \<open>Closing, establishing, destroying\<close>

lemma with_shared_split:
  assumes "with_shared S n f w = Inr v"
  obtains u where "f (acquire n w) = Inr u" "v = release (conn_dtor S) n u" "silent w (acquire n w)" "silent u v"
proof -
  from assms obtain u where u: "f (acquire n w) = Inr u" "v = release (conn_dtor S) n u"
    by (auto simp: with_shared_def ebind_eq_Inr split: if_splits)
  have "silent w (acquire n w)" "silent u v" unfolding u(2) by (intro quiet_silent quiet_intros)+
  with u that show thesis by blast
qed

lemma settle:
  assumes u: "tame w u" and inv: "conn_inv_off d w"
    and v: "works u v \<and> conn_inv v \<and> ages u v"
  shows "works w v \<and> conn_inv v \<and> ages w v"
  using assms unfolding tame_def by (blast intro: works_trans ages_trans calm_ages)

lemma callback_step:
  assumes run: "call_fn (connectionCallback (conn_heap w n)) (\<lambda>u. my_on_connection S u n w) = Inr v"
    and cb: "connectionCallback (conn_heap w n) = Some MyServerOnConnection"
    and inv: "conn_inv_off (if state (conn_heap w n) = kConnected then 1 else - 1) w"
  shows "works w v \<and> conn_inv v \<and> ages w v"
  using run cb onConnection_step[OF _ inv] by (simp add: call_fn_def my_on_connection_def)

lemma callback_after:
  assumes run: "call_fn (connectionCallback (conn_heap u n)) (\<lambda>cb. my_on_connection S cb n u) = Inr v"
    and t: "tame w u" and cb: "connectionCallback (conn_heap w n) = Some MyServerOnConnection"
    and inv: "conn_inv_off (if state (conn_heap w n) = kConnected then 1 else - 1) w"
  shows "works w v \<and> conn_inv v \<and> ages w v"
proof -
  have c: "calm w u" using t by (simp add: tame_def)
  have "works u v \<and> conn_inv v \<and> ages u v"
    using run by (rule callback_step) (use c cb inv in \<open>simp_all add: calm_callback calm_state calm_conn_inv\<close>)
  with settle[OF t inv] show ?thesis by blast
qed

lemma handleClose_step:
  assumes run: "handleClose S (my_handlers S) n w = Inr v" and inv: "conn_inv w"
  shows "works w v \<and> conn_inv v \<and> ages w v"
proof (cases "open_state (state (conn_heap w n))")
  case False
  then show ?thesis using run inv by (simp add: handleClose_def loop_op_defs open_state_def)
next
  case True
  let ?w1 = "upd_conn n (setState kDisconnected) w"
  let ?w2 = "disableAll S (channel_of (conn_heap ?w1 n)) ?w1"
  have cb: "connectionCallback (conn_heap w n) = Some MyServerOnConnection"
    using inv True by (auto simp: conn_inv_off_def open_state_def)
  have w1: "conn_inv_off (- 1) ?w1" "ages w ?w1" "works w ?w1"
    using inv True by (simp_all add: inv_closes ages_setState works_upd_conn)
  from run True obtain w4 w5 where w4: "call_fn (connectionCallback (conn_heap (acquire n ?w2) n))
        (\<lambda>u. my_on_connection S u n (acquire n ?w2)) = Inr w4"
    and w5: "call_fn (conn_closeCallback (conn_heap w4 n)) (\<lambda>u. my_on_close S u n w4) = Inr w5"
    and v: "silent w5 v" and a: "silent ?w2 (acquire n ?w2)"
    by (auto simp: handleClose_def loop_op_defs Let_def my_handlers_def open_state_def ebind_eq_Inr
        elim!: with_shared_split)
  have "tame ?w1 ?w2" by (intro silent_tame quiet_silent quiet_intros)
  with silent_tame[OF a] have t: "tame ?w1 (acquire n ?w2)" by (blast intro: tame_trans)
  have s: "works ?w1 w4 \<and> conn_inv w4 \<and> ages ?w1 w4"
    using w4 t by (rule callback_after) (use w1 cb in simp_all)
  have "tame w4 w5" using w5 tame_on_close by (auto simp: call_fn_def split: option.splits)
  with silent_tame[OF v] have "tame w4 v" by (blast intro: tame_trans)
  with s w1 show ?thesis
    unfolding tame_def by (metis works_trans ages_trans calm_ages calm_conn_inv)
qed

lemma connectEstablished_step:
  assumes run: "connectEstablished S (my_handlers S) n w = Inr v" and inv: "conn_inv w"
  shows "works w v \<and> conn_inv v \<and> ages w v"
proof -
  have st: "state (conn_heap w n) = kConnecting"
    using run by (auto simp: connectEstablished_def loop_op_defs eassert_eq_Inr)
  let ?w1 = "upd_conn n (setState kConnected) w"
  let ?c = "channel_of (conn_heap ?w1 n)"
  let ?w2 = "enableReading S ?c (upd_chan ?c (channel_tie n) ?w1)"
  have cb: "connectionCallback (conn_heap w n) = Some MyServerOnConnection"
    using inv st by (auto simp: conn_inv_off_def)
  have w1: "conn_inv_off 1 ?w1" "ages w ?w1" "works w ?w1"
    using inv st by (simp_all add: inv_opens ages_setState works_upd_conn)
  from run obtain w4 where w4: "call_fn (connectionCallback (conn_heap (acquire n ?w2) n))
        (\<lambda>u. my_on_connection S u n (acquire n ?w2)) = Inr w4"
    and v: "silent w4 v" and a: "silent ?w2 (acquire n ?w2)"
    by (auto simp: connectEstablished_def loop_op_defs Let_def my_handlers_def eassert_eq_Inr
        elim!: with_shared_split split: if_splits)
  have "tame ?w1 ?w2" by (intro silent_tame quiet_silent quiet_intros)
  with silent_tame[OF a] have t: "tame ?w1 (acquire n ?w2)" by (blast intro: tame_trans)
  have s: "works ?w1 w4 \<and> conn_inv w4 \<and> ages ?w1 w4"
    using w4 t by (rule callback_after) (use w1 cb in simp_all)
  with silent_tame[OF v] w1 show ?thesis
    unfolding tame_def by (metis works_trans ages_trans calm_ages calm_conn_inv)
qed

lemma connectDestroyed_step:
  assumes run: "connectDestroyed S (my_handlers S) n w = Inr v" and inv: "conn_inv w"
  shows "works w v \<and> conn_inv v \<and> ages w v"
proof -
  have rm: "tame u (channel_remove S c u)" for c u by (intro silent_tame quiet_silent quiet_intros)
  show ?thesis
  proof (cases "state (conn_heap w n) = kConnected")
    case False
    then have "v = channel_remove S (channel_of (conn_heap w n)) w"
      using run by (simp add: connectDestroyed_def loop_op_defs)
    with rm inv show ?thesis unfolding tame_def by (metis calm_ages calm_conn_inv)
  next
    case True
    let ?w1 = "upd_conn n (setState kDisconnected) w"
    let ?w2 = "disableAll S (channel_of (conn_heap w n)) ?w1"
    have cb: "connectionCallback (conn_heap w n) = Some MyServerOnConnection"
      using inv True by (auto simp: conn_inv_off_def)
    have w1: "conn_inv_off (- 1) ?w1" "ages w ?w1" "works w ?w1"
      using inv True by (simp_all add: inv_closes ages_setState works_upd_conn open_state_def)
    from run True obtain w4 w5 where w4: "call_fn (connectionCallback (conn_heap (acquire n ?w2) n))
          (\<lambda>u. my_on_connection S u n (acquire n ?w2)) = Inr w4"
      and w5: "silent w4 w5" "v = channel_remove S (channel_of (conn_heap w5 n)) w5"
      and a: "silent ?w2 (acquire n ?w2)"
      by (auto simp: connectDestroyed_def loop_op_defs Let_def my_handlers_def ebind_eq_Inr elim!: with_shared_split)
    have "tame ?w1 ?w2" by (intro silent_tame quiet_silent quiet_intros)
    with silent_tame[OF a] have t: "tame ?w1 (acquire n ?w2)" by (blast intro: tame_trans)
    have s: "works ?w1 w4 \<and> conn_inv w4 \<and> ages ?w1 w4"
      using w4 t by (rule callback_after) (use w1 cb in simp_all)
    have "tame w4 v" unfolding w5(2) using silent_tame[OF w5(1)] rm by (blast intro: tame_trans)
    with s w1 show ?thesis
      unfolding tame_def by (metis works_trans ages_trans calm_ages calm_conn_inv)
  qed
qed

section \<open>A new connection\<close>

lemma works_alloc: "works w (snd (alloc_channel sockfd w))"
  by (rule same_loop_works) (simp_all add: same_loop_def wake_due_def alloc_channel_def)

text \<open>What the constructor allocates.\<close>

lemma new_connection_shape:
  assumes "new_connection nm sockfd local peer w = Inr (n, v)"
  shows "n = next_conn w" "next_conn v = Suc (next_conn w)" "works w v" "net_st.more v = net_st.more w"
    "state (conn_heap v n) = kConnecting" "\<And>m. m \<noteq> n \<Longrightarrow> conn_heap v m = conn_heap w m"
    "conn_name (conn_heap v n) = nm"
proof -
  from assms obtain inb outb where b: "new_buffer kInitialSize = Inr inb" "new_buffer kInitialSize = Inr outb"
    by (auto simp: new_connection_def ebind_eq_Inr case_prod_beta)
  let ?w1 = "snd (alloc_channel sockfd w)"
  from assms b show "n = next_conn w" "next_conn v = Suc (next_conn w)" "net_st.more v = net_st.more w"
    "state (conn_heap v n) = kConnecting" "\<And>m. m \<noteq> n \<Longrightarrow> conn_heap v m = conn_heap w m"
    "conn_name (conn_heap v n) = nm"
    by (auto simp: new_connection_def alloc_channel_def Let_def upd_chan_def)
  have "same_loop ?w1 v \<and> wake_due v = wake_due ?w1"
    using assms b by (auto simp: new_connection_def alloc_channel_def Let_def same_loop_def wake_due_def upd_chan_def)
  then have "works ?w1 v" by (intro same_loop_works) simp_all
  with works_alloc show "works w v" by (rule works_trans)
qed

lemma works_nextConnId: "works w (w\<lparr>nextConnId := k\<rparr>)"
  by (rule same_loop_works) (simp_all add: same_loop_def wake_due_def)

lemma tame_store: "tame w (store_connection S nm n w)"
proof -
  let ?u = "w\<lparr>connections := AList.update nm n (connections w)\<rparr>"
  have "tame w ?u" by (rule tame_connections)
  moreover have "tame ?u (store_connection S nm n w)"
    unfolding store_connection_def by (intro silent_tame quiet_silent quiet_intros)
  ultimately show ?thesis by (rule tame_trans)
qed

text \<open>The connection is in its final shape when \<open>connectEstablished\<close> is run or queued.\<close>

lemma inv_new:
  assumes inv: "conn_inv w" and v: "next_conn v = Suc (next_conn w)" "numConnected v = numConnected w"
      "server_connectionCallback v = server_connectionCallback w"
    and n: "state (conn_heap v (next_conn w)) = kConnecting"
      "connectionCallback (conn_heap v (next_conn w)) = Some MyServerOnConnection"
    and m: "\<And>m. m \<noteq> next_conn w \<Longrightarrow> state (conn_heap v m) = state (conn_heap w m) \<and>
              connectionCallback (conn_heap v m) = connectionCallback (conn_heap w m)"
  shows "conn_inv v \<and> ages w v"
proof -
  have old: "\<not> open_state (state (conn_heap w (next_conn w)))"
    using inv by (simp add: conn_inv_off_def open_state_def)
  have "open_state (state (conn_heap v k)) = open_state (state (conn_heap w k))" for k
    using m[of k] n(1) old by (cases "k = next_conn w") (simp_all add: open_state_def)
  then have o: "open_conns v = open_conns w" by (simp add: open_conns_def)
  have "\<forall>k\<ge>next_conn v. state (conn_heap v k) = kDisconnected"
    using inv m v(1) by (auto simp: conn_inv_off_def)
  moreover have "\<forall>k. state (conn_heap v k) \<noteq> kDisconnected \<longrightarrow>
      connectionCallback (conn_heap v k) = Some MyServerOnConnection"
    using inv m n(2) by (auto simp: conn_inv_off_def) (metis)
  ultimately show ?thesis
    using inv v o m by (auto simp: conn_inv_off_def ages_def)
qed

lemma on_aliveD: "on_alive n f w = Inr v \<Longrightarrow> f w = Inr v"
  by (simp add: on_alive_def split: if_splits)

lemma newConnection_step:
  assumes run: "newConnection S (my_handlers S) sockfd peer w = Inr v" and inv: "conn_inv w"
  shows "works w v \<and> conn_inv v \<and> ages w v"
proof -
  let ?w1 = "w\<lparr>nextConnId := nextConnId w + 1\<rparr>"
  let ?w2 = "snd (getLocalAddr S sockfd ?w1)"
  let ?nm = "server_name ?w1 @ connection_suffix (hostport w) (nextConnId w)"
  from run obtain n w3 w7 where w3: "new_connection ?nm sockfd (fst (getLocalAddr S sockfd ?w1)) peer ?w2 = Inr (n, w3)"
    and w7: "runInLoop S task_owner (ConnConnectEstablished n) (on_alive n (connectEstablished S (my_handlers S) n))
        (upd_conn n (setConnCloseCallback (Some ServerRemoveConnection) \<circ>
           setWriteCompleteCallback (server_writeCompleteCallback (store_connection S ?nm n (acquire n w3))) \<circ>
           setMessageCallback (server_messageCallback (store_connection S ?nm n (acquire n w3))) \<circ>
           setConnectionCallback (server_connectionCallback (store_connection S ?nm n (acquire n w3))))
         (store_connection S ?nm n (acquire n w3))) = Inr w7"
    and v: "v = release (conn_dtor S) n w7"
    by (auto simp: newConnection_def assertInLoopThread_def Let_def ebind_eq_Inr case_prod_beta split: if_splits)
  let ?w5 = "store_connection S ?nm n (acquire n w3)"
  define w6 where "w6 = upd_conn n (setConnCloseCallback (Some ServerRemoveConnection) \<circ>
           setWriteCompleteCallback (server_writeCompleteCallback ?w5) \<circ>
           setMessageCallback (server_messageCallback ?w5) \<circ>
           setConnectionCallback (server_connectionCallback ?w5)) ?w5"
  have t2: "tame ?w1 ?w2" by (intro silent_tame quiet_silent quiet_intros)
  have "tame w3 (acquire n w3)" by (intro silent_tame quiet_silent quiet_intros)
  then have t5: "tame w3 ?w5" using tame_store tame_trans by blast
  note N = new_connection_shape[OF w3]
  have c1: "calm w ?w1" by (simp add: calm_def)
  have c2: "calm w ?w2" using t2 c1 calm_trans unfolding tame_def by blast
  have more: "numConnected w3 = numConnected ?w2" "server_connectionCallback w3 = server_connectionCallback ?w2"
    using more_eqD[OF N(4)] by simp_all
  have cb: "server_connectionCallback ?w5 = Some MyServerOnConnection"
    using t5 c2 inv more by (simp add: tame_def calm_def conn_inv_off_def)
  have n: "n = next_conn w" using N(1) c2 by (simp add: calm_def)
  have i6: "conn_inv w6 \<and> ages w w6"
  proof (rule inv_new[OF inv])
    show "next_conn w6 = Suc (next_conn w)" "numConnected w6 = numConnected w"
      "server_connectionCallback w6 = server_connectionCallback w"
      using t5 c2 N more by (simp_all add: w6_def tame_def calm_def)
    show "state (conn_heap w6 (next_conn w)) = kConnecting"
      using t5 N(5) by (simp add: w6_def n[symmetric] tame_def calm_def setConnCloseCallback_def
          setWriteCompleteCallback_def setMessageCallback_def setConnectionCallback_def)
    show "connectionCallback (conn_heap w6 (next_conn w)) = Some MyServerOnConnection"
      using cb by (simp add: w6_def n[symmetric] setConnCloseCallback_def
          setWriteCompleteCallback_def setMessageCallback_def setConnectionCallback_def)
    fix m assume "m \<noteq> next_conn w"
    then show "state (conn_heap w6 m) = state (conn_heap w m) \<and>
        connectionCallback (conn_heap w6 m) = connectionCallback (conn_heap w m)"
      using t5 c2 N(6)[of m] n by (simp add: w6_def tame_def calm_def)
  qed
  have k6: "works w w6"
    using works_nextConnId[of w] t2 N(3) t5 works_upd_conn[of ?w5 n] unfolding tame_def w6_def
    by (meson works_trans)
  have "works w6 w7 \<and> conn_inv w7 \<and> ages w6 w7"
  proof (cases "isInLoopThread w6")
    case True
    then have "connectEstablished S (my_handlers S) n w6 = Inr w7"
      using w7[folded w6_def] by (auto simp: runInLoop_def dest: on_aliveD)
    then show ?thesis using connectEstablished_step i6 by blast
  next
    case False
    then have "w7 = queueInLoop S task_owner (ConnConnectEstablished n) w6"
      using w7[folded w6_def] by (simp add: runInLoop_def)
    moreover have "silent w6 (queueInLoop S task_owner (ConnConnectEstablished n) w6)"
      by (rule silent_queueInLoop) simp
    ultimately show ?thesis
      using silent_tame i6 unfolding tame_def by (metis calm_ages calm_conn_inv)
  qed
  moreover have "tame w7 v" unfolding v by (intro silent_tame quiet_silent quiet_intros)
  ultimately show ?thesis
    using i6 k6 unfolding tame_def by (metis works_trans ages_trans calm_ages calm_conn_inv)
qed

section \<open>Reading and accepting\<close>

lemma tame_step: "tame w v \<Longrightarrow> conn_inv w \<Longrightarrow> works w v \<and> conn_inv v \<and> ages w v"
  using calm_conn_inv[of w v] calm_ages[of w v] by (simp add: tame_def)

lemma onMessage_tame:
  assumes "onMessage S n bs w = Inr v" shows "tame w v"
proof -
  from assms obtain h u where h: "hostPtr w = Some h" "send S h greeting (acquire h w) = Inr u"
    "v = release (conn_dtor S) h u"
    by (auto simp: onMessage_def ebind_eq_Inr split: if_splits option.splits)
  have "silent w (acquire h w)" "silent u v" unfolding h(3) by (intro quiet_silent quiet_intros)+
  moreover have "silent (acquire h w) u" using h(2) by (auto simp: send_def intro: silent_sendInLoop)
  ultimately show ?thesis using silent_tame silent_trans by blast
qed

lemma on_message_tame: "my_on_message S u n bs w = Inr v \<Longrightarrow> tame w v"
  by (auto simp: my_on_message_def defaultMessageCallback_def onMessage_tame split: callback.splits)

text \<open>Reading a socket may consume a wake-up in the trace, but changes nothing else.\<close>

lemma read_calm: "calm w (snd (sock_read S s k w)) \<and> enqueues is_functor w (snd (sock_read S s k w))"
proof -
  have "calm w (log_call e k w) \<and> enqueues is_functor w (log_call e k w)" for e k
    by (simp add: calm_def enqueues_def) (simp add: log_call_def)
  then show ?thesis by (simp add: sock_read_def sys_eqs)
qed

lemma handleRead_step:
  assumes run: "handleRead S (my_handlers S) n w = Inr v" and inv: "conn_inv w"
  shows "enqueues is_functor w v \<and> conn_inv v \<and> ages w v"
proof -
  obtain r bs e u where rd: "sock_read S (fd (conn_channel n w)) 1024 w = ((r, bs, e), u)"
    by (metis surj_pair)
  with read_calm[of w S "fd (conn_channel n w)" 1024] have u: "calm w u" "enqueues is_functor w u" by simp_all
  then have iu: "conn_inv u" "ages w u" using inv calm_conn_inv calm_ages by blast+
  have "works u v \<and> conn_inv v \<and> ages u v"
  proof -
    consider "0 < r" | "r = 0" | "r < 0" by linarith
    then show ?thesis
    proof cases
      case 1
      then obtain x where x: "call_fn (messageCallback (conn_heap (acquire n u) n))
          (\<lambda>cb. my_on_message S cb n (take (nat r) bs) (acquire n u)) = Inr x"
        "silent u (acquire n u)" "silent x v"
        using run by (auto simp: handleRead_def loop_op_defs rd my_handlers_def elim!: with_shared_split)
      have "tame (acquire n u) x" using x(1) on_message_tame by (auto simp: call_fn_def split: option.splits)
      with silent_tame[OF x(2)] silent_tame[OF x(3)] have "tame u v" by (blast intro: tame_trans)
      from tame_step[OF this iu(1)] show ?thesis .
    next
      case 2
      then show ?thesis using run iu handleClose_step by (simp add: handleRead_def loop_op_defs rd)
    next
      case 3
      then show ?thesis using run iu by (simp add: handleRead_def loop_op_defs rd handleError_def)
    qed
  qed
  with u iu show ?thesis unfolding works_def using enqueues_trans ages_trans by blast
qed

lemma acceptor_handleRead_step:
  assumes run: "acceptor_handleRead S (my_new_connection S) w = Inr v" and inv: "conn_inv w"
  shows "works w v \<and> conn_inv v \<and> ages w v"
proof -
  let ?p = "InetAddress_port big_endian_host 0"
  obtain connfd peer u where ac: "Socket_Accept S (acceptSocket w) ?p w = ((connfd, peer), u)"
    by (metis surj_pair)
  have "silent w (snd (Socket_Accept S (acceptSocket w) ?p w))" by (intro quiet_silent quiet_intros)
  then have t: "tame w u" using silent_tame by (simp add: ac)
  then have iu: "conn_inv u" "ages w u" using tame_step inv by blast+
  have "works u v \<and> conn_inv v \<and> ages u v"
  proof (cases "0 \<le> connfd \<and> newConnectionCallback u \<noteq> None")
    case True
    then show ?thesis
      using run newConnection_step[OF _ iu(1)]
      by (auto simp: acceptor_handleRead_def ac my_new_connection_def split: callback.splits)
  next
    case False
    have "tame u (sock_close S connfd u)" by (intro silent_tame quiet_silent quiet_intros)
    moreover have "v = u \<or> v = sock_close S connfd u"
      using run False by (auto simp: acceptor_handleRead_def ac split: if_splits)
    ultimately show ?thesis using tame_step iu(1) by (auto simp: works_def)
  qed
  with t iu show ?thesis unfolding tame_def using works_trans ages_trans by blast
qed

section \<open>Every task\<close>

lemma wakeup_read_calm: "calm w (loop_handleRead S w) \<and> enqueues is_functor w (loop_handleRead S w)"
  by (simp add: loop_handleRead_def read_calm)

lemma listen_silent: "silent w (acceptor_listen S w)"
  unfolding acceptor_listen_def Let_def by (intro quiet_silent quiet_intros)

lemma run_task_step:
  assumes run: "run_task S t w = Inr v" and inv: "conn_inv w"
  shows "enqueues is_functor w v \<and> (t \<noteq> LoopHandleRead \<and> (\<forall>n. t \<noteq> ConnHandleRead n) \<longrightarrow> wakes w v) \<and>
         conn_inv v \<and> ages w v"
proof (cases t)
  case LoopHandleRead
  then have "calm w v" "enqueues is_functor w v" using run wakeup_read_calm[of w S] by auto
  then show ?thesis using LoopHandleRead inv calm_conn_inv[of w v] calm_ages by auto
next
  case (ConnHandleRead n)
  then have "handleRead S (my_handlers S) n w = Inr v" using run on_aliveD by simp
  from handleRead_step[OF this inv] show ?thesis using ConnHandleRead by simp
next
  case AcceptorListen
  then have "tame w v" using run silent_tame[OF listen_silent] by auto
  from tame_step[OF this inv] show ?thesis by (simp add: works_def)
next
  case AcceptorHandleRead
  then show ?thesis using acceptor_handleRead_step[OF _ inv] run by (simp add: works_def)
next
  case (ConnHandleWrite n)
  then have "handleWrite S n w = Inr v" using run on_aliveD by simp
  from tame_step[OF silent_tame[OF silent_handleWrite[OF this]] inv] show ?thesis by (simp add: works_def)
next
  case (ConnHandleClose n)
  then have "handleClose S (my_handlers S) n w = Inr v" using run on_aliveD by simp
  from handleClose_step[OF this inv] show ?thesis by (simp add: works_def)
next
  case (ConnHandleError n)
  then have "handleError w = Inr v" using run on_aliveD[of n handleError] by simp
  then show ?thesis using inv by (simp add: handleError_def)
next
  case (ConnShutdownInLoop n)
  then have "Inr (shutdownInLoop S n w) = (Inr v :: _ res)"
    using run on_aliveD[of n "\<lambda>v. Inr (shutdownInLoop S n v)"] by simp
  moreover have "silent w (shutdownInLoop S n w)" by (intro quiet_silent quiet_intros)
  ultimately have "tame w v" using silent_tame by simp
  from tame_step[OF this inv] show ?thesis by (simp add: works_def)
next
  case (ConnForceCloseInLoop n)
  then have "forceCloseInLoop S (my_handlers S) n w = Inr v" using run on_aliveD by simp
  then show ?thesis using handleClose_step[OF _ inv] inv
    by (auto simp: works_def forceCloseInLoop_def loop_op_defs split: if_splits)
next
  case (ConnConnectEstablished n)
  then have "connectEstablished S (my_handlers S) n w = Inr v" using run on_aliveD by simp
  from connectEstablished_step[OF this inv] show ?thesis by (simp add: works_def)
next
  case (ConnConnectDestroyed n)
  then have "connectDestroyed S (my_handlers S) n w = Inr v" using run on_aliveD by simp
  from connectDestroyed_step[OF this inv] show ?thesis by (simp add: works_def)
next
  case (ServerRemoveConnectionInLoop n)
  then have "tame w v" using run tame_removeConnectionInLoop by auto
  from tame_step[OF this inv] show ?thesis by (simp add: works_def)
qed (use run in simp_all)

end
