(* ===== verification/ServerRuns.thy ===== *)
theory ServerRuns
  imports ServerSteps
begin

text \<open>
  The complete program: start-up as in \<open>InitNetworkServer\<close> (Network.cpp), the iterations of
  the loop thread, and the states reachable between iterations.  The contracts of the loop
  are discharged for the program's tasks by the interpretations \<open>srv\<close> (the count of
  connections as invariant, the queue contract) and \<open>life\<close> (the lifecycle), and the
  properties follow from the locales' lemmas by rule induction.
\<close>

section \<open>Interpretations\<close>

lemma quiet_poll: "quiet w (loop_poll S w)"
proof -
  have fill: "quiet w u \<Longrightarrow> quiet w (snd (fillActiveChannels es u))" for es u
  proof (induction es arbitrary: u)
    case (Cons e es)
    obtain ev c where e: "e = (ev, c)" by (cases e)
    from Cons.IH[OF quiet_upd_chan[OF Cons.prems]] show ?case by (simp add: e case_prod_beta)
  qed simp
  have "quiet w (log_call (Sys_epoll_wait ep k r) o1 (w\<lparr>activeChannels := []\<rparr>))" for ep k r o1
    by (intro quiet_log_call quiet_intros) simp
  then show ?thesis
    by (auto simp: loop_poll_def poller_poll_def sys_eqs case_prod_beta intro!: quiet_intros fill)
qed

lemma quiet_tame: "quiet w v \<Longrightarrow> tame w v"
  by (intro silent_tame quiet_silent)

lemma calm_keeps:
  assumes "calm w v" "conn_inv w \<and> ages w0 w" shows "conn_inv v \<and> ages w0 v"
  using assms calm_conn_inv calm_ages ages_trans by blast

lemma quiet_keeps: "quiet w v \<Longrightarrow> conn_inv w \<and> ages w0 w \<Longrightarrow> conn_inv v \<and> ages w0 v"
  using quiet_tame calm_keeps unfolding tame_def by blast

lemma calm_loop_fields:
  "calm w (w\<lparr>callingPendingFunctors := b\<rparr>)" "calm w (w\<lparr>pendingFunctors := []\<rparr>)"
  "calm w (w\<lparr>quit := b\<rparr>)" "calm w (w\<lparr>thisThread := t\<rparr>)"
  by (simp_all add: calm_def)

interpretation life: loop_invariant S "conn_dtor S" task_owner "run_task S" "\<lambda>v. conn_inv v \<and> ages w0 v"
  for S w0
proof
  fix w v :: "('a, 'b) world" and t p f c b a
  assume w: "conn_inv w \<and> ages w0 w"
  show "run_task S t w = Inr v \<Longrightarrow> conn_inv v \<and> ages w0 v"
    using run_task_step w ages_trans by blast
  show "conn_inv (conn_dtor S p w) \<and> ages w0 (conn_dtor S p w)"
    using w by (rule quiet_keeps[rotated]) (intro quiet_intros)
  show "conn_inv (w\<lparr>refs := f\<rparr>) \<and> ages w0 (w\<lparr>refs := f\<rparr>)"
    using w by (rule quiet_keeps[rotated]) (intro quiet_intros)
  show "conn_inv (loop_poll S w) \<and> ages w0 (loop_poll S w)"
    using w by (rule quiet_keeps[rotated]) (rule quiet_poll)
  show "conn_inv (upd_chan c (\<lambda>ch. ch\<lparr>ch_eventHandling := b\<rparr>) w) \<and>
      ages w0 (upd_chan c (\<lambda>ch. ch\<lparr>ch_eventHandling := b\<rparr>) w)"
    using w by (rule quiet_keeps[rotated]) (intro quiet_intros)
  show "conn_inv (w\<lparr>eventHandling := b\<rparr>) \<and> ages w0 (w\<lparr>eventHandling := b\<rparr>)"
    using w by (rule quiet_keeps[rotated]) (intro quiet_intros)
  show "conn_inv (w\<lparr>currentActiveChannel := a\<rparr>) \<and> ages w0 (w\<lparr>currentActiveChannel := a\<rparr>)"
    using w by (rule quiet_keeps[rotated]) (intro quiet_intros)
  show "conn_inv (w\<lparr>callingPendingFunctors := b\<rparr>) \<and> ages w0 (w\<lparr>callingPendingFunctors := b\<rparr>)"
    using w by (rule calm_keeps[rotated]) (rule calm_loop_fields)
  show "conn_inv (w\<lparr>pendingFunctors := []\<rparr>) \<and> ages w0 (w\<lparr>pendingFunctors := []\<rparr>)"
    using w by (rule calm_keeps[rotated]) (rule calm_loop_fields)
qed

interpretation srv: loop_client S "conn_dtor S" task_owner "run_task S" "\<lambda>v. conn_inv v \<and> ages w0 v" is_functor
  for S w0
proof
  fix w v :: "('a, 'b) world" and t p
  assume w: "conn_inv w \<and> ages w0 w"
  show "run_task S t w = Inr v \<Longrightarrow> enqueues is_functor w v" using run_task_step w by blast
  show "is_functor t \<Longrightarrow> run_task S t w = Inr v \<Longrightarrow> wakes w v"
    using run_task_step[of S t w v] w by (cases t) auto
next
  fix w :: "('a, 'b) world" and p
  have "quiet w (conn_dtor S p w)" by (intro quiet_intros)
  then show "same_loop w (conn_dtor S p w)" "wake_due w \<Longrightarrow> wake_due (conn_dtor S p w)"
    by (simp_all add: quiet_def)
qed

section \<open>The program\<close>

definition initial_world :: "'o \<Rightarrow> ('o myserver_st)" where
  "initial_world k =
     \<lparr>os = k, trace = [], refs = (\<lambda>_. 0), chan_heap = (\<lambda>_. new_channel 0), next_chan = 0, epollfd = -1,
      events_size = 0, channels = Map.empty, quit = False, eventHandling = False,
      callingPendingFunctors = False, wakeupFd = -1, wakeupChannel = 0, threadId = 0, thisThread = 0,
      activeChannels = [], currentActiveChannel = None, pendingFunctors = [],
      conn_heap = (\<lambda>_. \<lparr>channel_of = 0, socket_of = -1, conn_name = [], localAddr = zero_addr,
         peerAddr = zero_addr, state = kDisconnected, connectionCallback = None, messageCallback = None,
         writeCompleteCallback = None, highWaterMarkCallback = None, conn_closeCallback = None,
         highWaterMark = 0, inputBuffer = \<lparr>storage = [], readerIndex = 0, writerIndex = 0\<rparr>,
         outputBuffer = \<lparr>storage = [], readerIndex = 0, writerIndex = 0\<rparr>\<rparr>),
      next_conn = 0, acceptSocket = -1, acceptChannel = 0, newConnectionCallback = None,
      hostport = [], server_name = [], server_connectionCallback = None, server_messageCallback = None,
      server_writeCompleteCallback = None, nextConnId = 0, connections = [],
      numConnected = 0, kMaxConnections = 0, hostPtr = None, flag = True\<rparr>"

text \<open>
  The global \<open>EventLoop\<close> is built by the main thread before \<open>main\<close>; \<open>InitNetworkServer\<close>
  builds the server on port 55266 with at most two connections, starts it, and starts the
  loop thread.  The main thread has the identity 0 and the loop thread the identity 1.
\<close>

definition boot :: "'o os_calls \<Rightarrow> 'o \<Rightarrow> 'o myserver_st res" where
  "boot S k =
     ebind (loop_new S LoopHandleRead (initial_world k)) (\<lambda>w.
     ebind (myserver_new S (InetAddress_port big_endian_host 55266) 2 w) (myserver_start S))"

definition InitNetworkServer :: "'o os_calls \<Rightarrow> 'o \<Rightarrow> 'o myserver_st res option" where
  "InitNetworkServer S k =
     (case boot S k of
        Inl e \<Rightarrow> Some (Inl e)
      | Inr w \<Rightarrow> loop_start S (conn_dtor S) task_owner (run_task S) 1 w)"

text \<open>The states between the iterations of the loop thread.\<close>

inductive reachable :: "'o os_calls \<Rightarrow> 'o \<Rightarrow> 'o myserver_st \<Rightarrow> bool" for S k where
  enter: "boot S k = Inr w \<Longrightarrow> reachable S k (w\<lparr>thisThread := 1, quit := False\<rparr>)"
| iterate: "reachable S k w \<Longrightarrow> server_iteration S w = Inr v \<Longrightarrow> reachable S k v"

inductive_cases reachableE: "reachable S k w"

section \<open>Start-up\<close>

lemma quiet_alloc [quiet_intros]: "quiet w u \<Longrightarrow> quiet w (snd (alloc_channel sockfd u))"
  by (erule quietI) (simp_all add: same_loop_def wake_due_def alloc_channel_def)

lemma quiet_poller_new [quiet_intros]:
  assumes "quiet w u" shows "quiet w (poller_new S u)"
proof -
  have "quiet w (log_call (Sys_epoll_create r) k u)" for r k using assms by (rule quiet_log_call) simp
  then have "quiet w ((log_call (Sys_epoll_create r) k u)\<lparr>epollfd := r', events_size := n, channels := m\<rparr>)" for r k r' n m
    by (rule quietI) (simp_all add: same_loop_def wake_due_def)
  then show ?thesis by (simp add: poller_new_def sys_eqs case_prod_beta)
qed

lemma quiet_wakeupChannel [quiet_intros]: "quiet w u \<Longrightarrow> quiet w (u\<lparr>wakeupChannel := c\<rparr>)"
  by (erule quietI) (simp_all add: same_loop_def wake_due_def)

lemma loop_new_shape:
  assumes "loop_new S wake w = Inr v"
  shows "next_conn v = next_conn w" "net_st.more v = net_st.more w" "pendingFunctors v = []"
    "isInLoopThread v" "\<And>n. state (conn_heap v n) = state (conn_heap w n)"
proof -
  obtain r u where u: "createEventfd S w = Inr (r, u)" using assms by (auto simp: loop_new_def ebind_eq_Inr)
  let ?u = "u\<lparr>quit := False, eventHandling := False, callingPendingFunctors := False, wakeupFd := r,
              threadId := thisThread u, activeChannels := [], currentActiveChannel := None, pendingFunctors := []\<rparr>"
  have "quiet ?u (enableReading S (fst (alloc_channel r (poller_new S (snd (alloc_channel r ?u)))))
      (upd_chan (fst (alloc_channel r (poller_new S (snd (alloc_channel r ?u))))) (setReadCallback wake)
        ((snd (alloc_channel r (poller_new S (snd (alloc_channel r ?u)))))\<lparr>wakeupChannel :=
            fst (alloc_channel r (poller_new S (snd (alloc_channel r ?u))))\<rparr>)))"
    by (intro quiet_intros)
  then have q: "quiet ?u v" using assms u by (auto simp: loop_new_def case_prod_beta Let_def)
  have eq: "conn_heap u = conn_heap w" "next_conn u = next_conn w" "net_st.more u = net_st.more w"
    using u by (auto simp: createEventfd_def sys_eqs log_call_def split: if_splits)
  have sc: "same_conns ?u v" and sl: "same_loop ?u v" using q by (simp_all add: quiet_def)
  show "next_conn v = next_conn w" "net_st.more v = net_st.more w" using same_connsD(6,7)[OF sc] eq by simp_all
  show "pendingFunctors v = []" "isInLoopThread v" using sl by (simp_all add: same_loop_def isInLoopThread_def)
  show "state (conn_heap v n) = state (conn_heap w n)" for n using same_connsD(1)[OF sc, of n] eq by simp
qed

text \<open>Building the acceptor queues nothing.\<close>

lemma acceptor_new_shape: "same_loop w (acceptor_new S addr b w) \<and> calm w (acceptor_new S addr b w)"
proof -
  let ?u = "snd (alloc_channel (fst (createNonblockingOrDie S w)) (snd (createNonblockingOrDie S w)))"
  have qs: "quiet x y \<Longrightarrow> same_loop x y \<and> calm x y" for x y :: "('a, 'b) world"
    using quiet_tame[of x y] by (auto simp: quiet_def tame_def)
  have "quiet w (snd (createNonblockingOrDie S w))"
    by (simp add: createNonblockingOrDie_def sys_eqs quiet_log_call)
  then have "quiet w ?u" by (rule quiet_alloc)
  from qs[OF this] have u: "same_loop w ?u \<and> calm w ?u" .
  have f: "same_loop ?u (?u\<lparr>acceptSocket := s, acceptChannel := c, newConnectionCallback := None\<rparr>) \<and>
      calm ?u (?u\<lparr>acceptSocket := s, acceptChannel := c, newConnectionCallback := None\<rparr>)" for s c
    by (simp add: same_loop_def calm_def)
  have s: "quiet x (setReuseAddr S k True x)" "quiet x (setReusePort S k b x)" "quiet x (Socket_Bind S k addr x)"
    for k and x :: "('a, 'b) world"
    by (simp_all add: socket_defs sys_eqs quiet_log_call)
  have "quiet x (upd_chan c g (Socket_Bind S k addr (setReusePort S k b (setReuseAddr S k True x))))"
    for k c g and x :: "('a, 'b) world"
    by (rule quiet_upd_chan) (meson s quiet_trans)
  note r = qs[OF this]
  have t: "same_loop x z \<and> calm x z" if "same_loop x y \<and> calm x y" "same_loop y z \<and> calm y z"
    for x y z :: "('a, 'b) world"
    using that same_loop_trans[of x y z] calm_trans[of x y z] by simp
  from t[OF u t[OF f r]] show ?thesis unfolding acceptor_new_def case_prod_beta Let_def .
qed

lemma boot_shape:
  assumes "boot S k = Inr w"
  shows "conn_inv w" "next_conn w = 0" "pendingFunctors w = []"
proof -
  let ?addr = "InetAddress_port big_endian_host 55266"
  obtain w1 where w1: "loop_new S LoopHandleRead (initial_world k) = Inr w1"
    and s: "ebind (myserver_new S ?addr 2 w1) (myserver_start S) = Inr w"
    using assms by (auto simp: boot_def ebind_eq_Inr)
  note L = loop_new_shape[OF w1]
  let ?w2 = "acceptor_new S ?addr True w1"
  have t2: "same_loop w1 ?w2" "calm w1 ?w2" using acceptor_new_shape[of w1 S ?addr True] by simp_all
  from s obtain w3 where m3: "myserver_new S ?addr 2 w1 = Inr w3" and st: "myserver_start S w3 = Inr w"
    by (auto simp: ebind_eq_Inr)
  from m3 have w3: "server_connectionCallback w3 = Some MyServerOnConnection" "numConnected w3 = 0"
    "next_conn w3 = next_conn ?w2" "conn_heap w3 = conn_heap ?w2" "pendingFunctors w3 = pendingFunctors ?w2"
    "isInLoopThread w3 = isInLoopThread ?w2"
    by (auto simp: myserver_new_def server_new_def ebind_eq_Inr Let_def setNewConnectionCallback_def
        server_setMessageCallback_def server_setConnectionCallback_def isInLoopThread_def)
  have nc: "next_conn w3 = 0" using w3(3) t2 L(1) by (simp add: calm_def initial_world_def)
  have d: "state (conn_heap w3 n) = kDisconnected" for n
    using w3(4) t2 L(5)[of n] by (simp add: calm_def initial_world_def)
  have i3: "conn_inv w3" using w3 d by (simp add: conn_inv_off_def open_conns_def open_state_def)
  have "isInLoopThread w3" using w3(6) t2(1) L(4) by (simp add: same_loop_def isInLoopThread_def)
  then have "w = acceptor_listen S w3"
    using st by (simp add: myserver_start_def server_start_def runInLoop_def)
  then have q: "quiet w3 w" unfolding acceptor_listen_def Let_def by (intro quiet_intros | simp)+
  show "conn_inv w" using tame_step[OF quiet_tame[OF q] i3] by simp
  show "next_conn w = 0" using q nc by (simp add: quiet_def same_conns_def)
  have "pendingFunctors w = pendingFunctors w3" using q by (simp add: quiet_def same_loop_def)
  moreover have "pendingFunctors ?w2 = []" using t2(1) L(3) by (simp add: same_loop_def)
  ultimately show "pendingFunctors w = []" using w3(5) by simp
qed

section \<open>Invariants of the runs\<close>

definition run_inv :: "'o myserver_st \<Rightarrow> bool" where
  "run_inv w \<longleftrightarrow> conn_inv w \<and> (\<forall>t\<in>set (pendingFunctors w). is_functor t) \<and>
     (pendingFunctors w \<noteq> [] \<longrightarrow> wake_due w)"

lemma run_inv_enter: "boot S k = Inr w \<Longrightarrow> run_inv (w\<lparr>thisThread := 1, quit := False\<rparr>)"
  using boot_shape[of S k w] by (simp add: run_inv_def conn_inv_off_def open_conns_def)

lemma run_inv_iterate:
  assumes "run_inv w" and "server_iteration S w = Inr v" shows "run_inv v \<and> ages w v"
proof -
  have I: "conn_inv w \<and> ages w w" using assms(1) by (simp add: run_inv_def)
  have b: "loop_body S (conn_dtor S) task_owner (run_task S) w = Inr v" using assms(2) by (simp add: server_iteration_def)
  from life.body_keeps[OF b I] have "conn_inv v \<and> ages w v" .
  moreover from srv.body_wakes[OF b I] assms(1)
  have "(\<forall>t\<in>set (pendingFunctors v). is_functor t) \<and> (pendingFunctors v \<noteq> [] \<longrightarrow> wake_due v)"
    by (simp add: run_inv_def)
  ultimately show ?thesis by (simp add: run_inv_def)
qed

lemma reachable_run_inv: "reachable S k w \<Longrightarrow> run_inv w"
proof (induction rule: reachable.induct)
  case (enter w)
  then show ?case by (rule run_inv_enter)
next
  case (iterate w v)
  then show ?case using run_inv_iterate by blast
qed

lemma reachable_iterations:
  "reachable S k w \<Longrightarrow> iterations S (conn_dtor S) task_owner (run_task S) m w = Inr v \<Longrightarrow> reachable S k v"
proof (induction m arbitrary: w)
  case (Suc m)
  then obtain u where u: "server_iteration S w = Inr u"
    "iterations S (conn_dtor S) task_owner (run_task S) m u = Inr v"
    by (auto simp: server_iteration_def ebind_eq_Inr)
  from reachable.iterate[OF Suc.prems(1) u(1)] u(2) show ?case by (rule Suc.IH)
qed simp

end
