(* ===== verification/DemoRun.thy ===== *)
theory DemoRun
  imports ServerRuns
begin

text \<open>
  A concrete kernel and the first iterations of the program on it, used by the witnesses of
  the properties of runs.  A first client connects and hangs up, a second one connects and
  sends a byte.  The runs are evaluated by rewriting; the weak congruence rules make the
  rewriting follow the order of execution.
\<close>

section \<open>The kernel\<close>

text \<open>
  The kernel state counts the calls of \<open>epoll_wait\<close>.  Channel 1 is the wake-up channel,
  channel 2 the acceptor's, channels 3 and 4 those of the two connections.
\<close>

definition demo_events :: "nat \<Rightarrow> (32 word \<times> nat) list" where
  "demo_events n =
     (if n = 0 then [(EPOLLIN, 2)]
      else if n = 1 then [(EPOLLIN, 3)]
      else if n = 2 then [(EPOLLIN, 1), (EPOLLIN, 2)]
      else [(EPOLLIN, 4)])"

definition demo_kernel :: "nat os_calls" where
  "demo_kernel =
     \<lparr>os_socket = (\<lambda>k. (6, k)), os_eventfd = (\<lambda>k. (4, k)), os_epoll_create = (\<lambda>k. (5, k)),
      os_setsockopt = (\<lambda>_ _ _ k. (0, k)), os_bind = (\<lambda>_ _ k. (0, k)), os_listen = (\<lambda>_ k. (0, k)),
      os_accept = (\<lambda>_ k. ((6 + int k, InetAddress_port False 4000), k)),
      os_getsockname = (\<lambda>_ k. ((0, InetAddress_port False 55266), k)),
      os_read = (\<lambda>f n k. ((if f = 4 then (8, eventfd_one, EINTR) else if f = 7 then (0, [], EINTR)
                           else (1, [65], EINTR)), k)),
      os_write = (\<lambda>_ bs k. ((int (length bs), EINTR), k)),
      os_shutdown = (\<lambda>_ _ k. (0, k)), os_close = (\<lambda>_ k. (0, k)),
      os_epoll_ctl = (\<lambda>_ _ _ _ _ k. (0, k)),
      os_epoll_wait = (\<lambda>_ _ _ k. ((int (length (demo_events k)), demo_events k), Suc k))\<rparr>"

definition demo_run :: "nat \<Rightarrow> nat myserver_st res" where
  "demo_run n = ebind (boot demo_kernel 0) (\<lambda>w.
     iterations demo_kernel (conn_dtor demo_kernel) task_owner (run_task demo_kernel) n
       (w\<lparr>thisThread := 1, quit := False\<rparr>))"

lemma demo_kernel_simps:
  "os_socket demo_kernel k = (6, k)" "os_eventfd demo_kernel k = (4, k)" "os_epoll_create demo_kernel k = (5, k)"
  "os_setsockopt demo_kernel a b c k = (0, k)" "os_bind demo_kernel a d k = (0, k)" "os_listen demo_kernel a k = (0, k)"
  "os_epoll_ctl demo_kernel a q f ev p k = (0, k)" "os_close demo_kernel a k = (0, k)" "os_shutdown demo_kernel a h k = (0, k)"
  "os_accept demo_kernel a k = ((6 + int k, InetAddress_port False 4000), k)"
  "os_getsockname demo_kernel a k = ((0, InetAddress_port False 55266), k)"
  "os_epoll_wait demo_kernel a n t k = ((int (length (demo_events k)), demo_events k), Suc k)"
  "os_write demo_kernel a bs k = ((int (length bs), EINTR), k)"
  "os_read demo_kernel f n k = ((if f = 4 then (8, eventfd_one, EINTR) else if f = 7 then (0, [], EINTR)
     else (1, [65], EINTR)), k)"
  by (simp_all add: demo_kernel_def)

lemma demo_events_simps:
  "demo_events 0 = [(EPOLLIN, 2)]" "demo_events 1 = [(EPOLLIN, 3)]"
  "demo_events 2 = [(EPOLLIN, 1), (EPOLLIN, 2)]" "demo_events 3 = [(EPOLLIN, 4)]"
  by (simp_all add: demo_events_def)

section \<open>Evaluation\<close>

lemma ebind_weak_cong: "m = m' \<Longrightarrow> ebind m f = ebind m' f"
  by simp

definition fresh_buffer :: buffer where
  "fresh_buffer = \<lparr>storage = replicate 1032 0, readerIndex = 8, writerIndex = 8\<rparr>"

lemma demo_new_buffer: "new_buffer kInitialSize = Inr fresh_buffer"
  by (simp add: new_buffer_def fresh_buffer_def vector_resize_def kInitialSize_def kCheapPrepend_def
      size_add_def vector_max_def Let_def readableBytes_def writableBytes_def prependableBytes_def size_sub_def)

lemma demo_host: "InetAddress_toIpPort big_endian_host (InetAddress_port big_endian_host 55266) = Inr ''0.0.0.0:55266''"
  by code_simp

lemma demo_names:
  "connection_suffix ''0.0.0.0:55266'' 1 = ''-0.0.0.0:55266#1''"
  "connection_suffix ''0.0.0.0:55266'' 2 = ''-0.0.0.0:55266#2''"
  by code_simp+

lemma demo_peer: "InetAddress_toIpPort big_endian_host (InetAddress_port False 4000) = Inr ''0.0.0.0:4000''"
  by code_simp

lemma iterations_unrolled:
  "iterations S d a r 1 w = ebind (loop_body S d a r w) Inr"
  "iterations S d a r 2 w = ebind (loop_body S d a r w) (\<lambda>w. ebind (loop_body S d a r w) Inr)"
  "iterations S d a r 3 w = ebind (loop_body S d a r w)
     (\<lambda>w. ebind (loop_body S d a r w) (\<lambda>w. ebind (loop_body S d a r w) Inr))"
  "iterations S d a r 4 w = ebind (loop_body S d a r w)
     (\<lambda>w. ebind (loop_body S d a r w) (\<lambda>w. ebind (loop_body S d a r w) (\<lambda>w. ebind (loop_body S d a r w) Inr)))"
proof -
  have four: "4 = Suc (Suc (Suc (Suc 0)))" by simp
  have z: "iterations S d a r 0 = Inr" by (rule ext) simp
  have s: "iterations S d a r (Suc n) = (\<lambda>w. ebind (loop_body S d a r w) (iterations S d a r n))" for n
    by (rule ext) simp
  show "iterations S d a r 1 w = ebind (loop_body S d a r w) Inr"
    "iterations S d a r 2 w = ebind (loop_body S d a r w) (\<lambda>w. ebind (loop_body S d a r w) Inr)"
    "iterations S d a r 3 w = ebind (loop_body S d a r w)
       (\<lambda>w. ebind (loop_body S d a r w) (\<lambda>w. ebind (loop_body S d a r w) Inr))"
    "iterations S d a r 4 w = ebind (loop_body S d a r w)
       (\<lambda>w. ebind (loop_body S d a r w) (\<lambda>w. ebind (loop_body S d a r w) (\<lambda>w. ebind (loop_body S d a r w) Inr)))"
    by (simp_all only: s z One_nat_def numeral_2_eq_2 numeral_3_eq_3 four)
qed

lemma Suc_zero: "Suc 0 = 1"
  by simp

lemmas boot_defs = boot_def loop_new_def myserver_new_def myserver_start_def server_start_def server_new_def
  acceptor_new_def createEventfd_def sys_eqs socket_defs log_call_def alloc_channel_def poller_new_def
  enableReading_def channel_update_def loop_op_defs poller_updateChannel_def upd_chan_def poller_update_def
  initial_world_def setNewConnectionCallback_def server_setMessageCallback_def
  server_setConnectionCallback_def isInLoopThread_def acceptor_listen_def new_channel_def want_defs
  event_defs setReadCallback_def set_index_def setSockAddr_def getSockAddr_def

lemmas iteration_defs = loop_body_def loop_poll_def poller_poll_def kInitEventListSize_def kPollTimeMs_def
  handleActive_def handleEvent_def handleEventWithGuard_def fire_def doPendingFunctors_def
  acceptor_handleRead_def my_new_connection_def newConnection_def new_connection_def store_connection_def
  setConnectionCallback_def setMessageCallback_def setWriteCompleteCallback_def setConnCloseCallback_def
  setWriteCallback_def setErrorCallback_def setCloseCallback_def runInLoop_def queueInLoop_def
  acquire_opt_def acquire_def release_opt_def release_def wakeup_def set_revents_def upd_conn_def
  on_alive_def connectEstablished_def eassert_def with_shared_def call_fn_def my_handlers_def
  my_on_connection_def onConnection_def connected_def setState_def conn_channel_def channel_tie_def
  int_max_def expired_def loop_handleRead_def handleRead_def handleClose_def my_on_close_def
  removeConnection_def removeConnectionInLoop_def disableAll_def connectDestroyed_def channel_remove_def
  poller_removeChannel_def conn_dtor_def isNoneEvent_def kNoneEvent_def my_on_message_def onMessage_def

lemmas demo_eval = boot_defs iteration_defs demo_kernel_simps demo_events_simps demo_new_buffer demo_host
  demo_names demo_peer iterations_unrolled Suc_zero demo_run_def

lemma demo_one: "case demo_run 1 of Inr v \<Rightarrow> next_conn v = 1 \<and> state (conn_heap v 0) = kConnected \<and>
    numConnected v = 1 | Inl e \<Rightarrow> False"
  by (simp add: demo_eval del: One_nat_def iterations.simps
      cong: ebind_weak_cong let_weak_cong prod.case_cong_weak)

lemma demo_two: "case demo_run 2 of Inr v \<Rightarrow> next_conn v = 1 \<and> state (conn_heap v 0) = kDisconnected \<and>
    numConnected v = 0 \<and> pendingFunctors v = [ConnConnectDestroyed 0] | Inl e \<Rightarrow> False"
  by (simp add: demo_eval del: One_nat_def iterations.simps
      cong: ebind_weak_cong let_weak_cong prod.case_cong_weak)

lemma demo_four: "demo_run 4 = Inl Null_dereference"
  by (simp add: demo_eval del: One_nat_def iterations.simps
      cong: ebind_weak_cong let_weak_cong prod.case_cong_weak)

end
