(* ===== verification/ServerProps.thy ===== *)
theory ServerProps
  imports DemoRun
begin

text \<open>
  The properties of the runs of the complete server, with the witnesses that apply them to
  the demonstration run.
\<close>

section \<open>The demonstration run\<close>

lemma demo_reachable:
  assumes "demo_run n = Inr w" shows "reachable demo_kernel 0 w"
proof -
  from assms obtain u where u: "boot demo_kernel 0 = Inr u"
    "iterations demo_kernel (conn_dtor demo_kernel) task_owner (run_task demo_kernel) n
       (u\<lparr>thisThread := 1, quit := False\<rparr>) = Inr w"
    by (auto simp: demo_run_def ebind_eq_Inr)
  show ?thesis using reachable.enter[OF u(1)] u(2) by (rule reachable_iterations)
qed

lemma demo_boot: "\<exists>w. boot demo_kernel 0 = Inr w"
  using demo_four by (cases "boot demo_kernel 0") (use demo_one in \<open>auto simp: demo_run_def\<close>)

lemma demo_state1:
  "\<exists>w. demo_run 1 = Inr w \<and> next_conn w = 1 \<and> state (conn_heap w 0) = kConnected \<and> numConnected w = 1"
  using demo_one by (auto split: sum.splits)

lemma demo_state2:
  "\<exists>w. demo_run 2 = Inr w \<and> next_conn w = 1 \<and> state (conn_heap w 0) = kDisconnected \<and> numConnected w = 0
     \<and> pendingFunctors w = [ConnConnectDestroyed 0]"
  using demo_two by (auto split: sum.splits)

lemma demo_step:
  assumes "demo_run 1 = Inr w" "demo_run 2 = Inr v" shows "server_iteration demo_kernel w = Inr v"
  using assms by (auto simp: demo_run_def iterations_unrolled ebind_eq_Inr server_iteration_def)

section \<open>Properties\<close>

text \<open>C1: In every state the loop thread reaches, whatever the kernel returns and however the
  tasks are ordered, \<open>numConnected_\<close> is exactly the number of connections that are connected
  or disconnecting: every connection the server counted up is counted down once.\<close>
theorem numConnected_counts:
  assumes "reachable S k w"
  shows "numConnected w = int (card {n. n < next_conn w \<and>
           state (conn_heap w n) \<in> {kConnected, kDisconnecting}})"
proof -
  have i: "conn_inv w" using reachable_run_inv[OF assms] by (simp add: run_inv_def)
  then have "open_conns w = {n. n < next_conn w \<and> state (conn_heap w n) \<in> {kConnected, kDisconnecting}}"
    by (auto simp: conn_inv_off_def open_conns_def open_state_def not_le[symmetric])
  then show ?thesis using i by (simp add: conn_inv_off_def)
qed

lemma numConnected_counts_witness:
  "\<exists>w. demo_run 1 = Inr w \<and> numConnected w = 1 \<and>
     card {n. n < next_conn w \<and> state (conn_heap w n) \<in> {kConnected, kDisconnecting}} = 1"
proof -
  obtain w where w: "demo_run 1 = Inr w" "numConnected w = 1" using demo_state1 by blast
  from numConnected_counts[OF demo_reachable[OF w(1)]] w(2)
  have "card {n. n < next_conn w \<and> state (conn_heap w n) \<in> {kConnected, kDisconnecting}} = 1" by linarith
  with w show ?thesis by blast
qed

text \<open>C10: A connection only moves forward through kConnecting, kConnected, kDisconnecting,
  kDisconnected: no iteration of the loop revives a connection or reopens a closing one.\<close>
theorem lifecycle_forward:
  assumes "reachable S k w" and "iterations S (conn_dtor S) task_owner (run_task S) m w = Inr v"
    and "n < next_conn w"
  shows "n < next_conn v \<and> state (conn_heap w n) \<le> state (conn_heap v n)"
proof -
  have "conn_inv w \<and> ages w w" using reachable_run_inv[OF assms(1)] by (simp add: run_inv_def)
  from life.iterations_keep[OF assms(2) this] have "ages w v" by simp
  with assms(3) show ?thesis by (simp add: ages_def)
qed

lemma lifecycle_forward_witness:
  "\<exists>w v. reachable demo_kernel 0 w \<and> server_iteration demo_kernel w = Inr v \<and>
     0 < next_conn v \<and> state (conn_heap w 0) \<le> state (conn_heap v 0)"
proof -
  obtain w v where wv: "demo_run 1 = Inr w" "next_conn w = 1" "demo_run 2 = Inr v"
    using demo_state1 demo_state2 by blast
  note r = demo_reachable[OF wv(1)] and s = demo_step[OF wv(1,3)]
  have "iterations demo_kernel (conn_dtor demo_kernel) task_owner (run_task demo_kernel) 1 w = Inr v"
    using s by (simp add: server_iteration_def)
  from lifecycle_forward[OF r this, of 0] wv(2) r s show ?thesis by auto
qed

text \<open>C2: No wake-up is lost.  Whenever the loop thread goes back to \<open>epoll_wait\<close>, its queue is
  empty or the wake-up descriptor has been written since it was last read, so the wait does
  not block while functors are queued.\<close>
theorem no_lost_wakeup:
  assumes "reachable S k w"
  shows "pendingFunctors w = [] \<or> wake_after (wakeupFd w) (trace w) False"
  using reachable_run_inv[OF assms] by (auto simp: run_inv_def wake_due_def)

lemma no_lost_wakeup_witness:
  "\<exists>w. demo_run 2 = Inr w \<and> pendingFunctors w = [ConnConnectDestroyed 0] \<and> wake_after (wakeupFd w) (trace w) False"
proof -
  obtain w where w: "demo_run 2 = Inr w" "pendingFunctors w = [ConnConnectDestroyed 0]" using demo_state2 by blast
  from no_lost_wakeup[OF demo_reachable[OF w(1)]] w show ?thesis by auto
qed

text \<open>C13: A request to quit that precedes the loop thread is lost: \<open>loopthread\<close> clears \<open>quit_\<close>,
  and no task of the program sets it again, so that after \<open>quitLoop\<close> and then \<open>loop\<close> the thread
  never returns normally from its loop: it runs forever or ends with a fault.\<close>
theorem early_quit_is_lost:
  assumes "boot S k = Inr w"
  shows "loop_start S (conn_dtor S) task_owner (run_task S) 1 (quitLoop S w) \<noteq> Some (Inr v)"
proof
  assume run: "loop_start S (conn_dtor S) task_owner (run_task S) 1 (quitLoop S w) = Some (Inr v)"
  let ?v = "(quitLoop S w)\<lparr>thisThread := 1\<rparr>"
  have "quiet (w\<lparr>quit := True\<rparr>) (wakeup S (w\<lparr>quit := True\<rparr>))" unfolding wakeup_def by (intro quiet_intros)
  then have "calm (w\<lparr>quit := True\<rparr>) (wakeup S (w\<lparr>quit := True\<rparr>))" using quiet_tame tame_def by blast
  then have "calm w (quitLoop S w)"
    using calm_loop_fields(3)[of w True] calm_trans by (auto simp: quitLoop_def Let_def)
  then have "calm w (?v\<lparr>quit := False\<rparr>)" by (simp add: calm_def)
  then have "conn_inv (?v\<lparr>quit := False\<rparr>)" using boot_shape(1)[OF assms] calm_conn_inv by blast
  then have "conn_inv (?v\<lparr>quit := False\<rparr>) \<and> ages (?v\<lparr>quit := False\<rparr>) (?v\<lparr>quit := False\<rparr>)"
    using ages_refl by blast
  from srv.never_quits[OF run[unfolded loop_start_def] this] show False by simp
qed

lemma early_quit_is_lost_witness:
  "\<exists>w. boot demo_kernel 0 = Inr w \<and>
     (\<nexists>v. loop_start demo_kernel (conn_dtor demo_kernel) task_owner (run_task demo_kernel) 1
            (quitLoop demo_kernel w) = Some (Inr v))"
  using demo_boot early_quit_is_lost[of demo_kernel 0] by blast

lemma host_loss_run:
  "\<exists>w. reachable demo_kernel 0 w \<and> server_iteration demo_kernel w = Inl Null_dereference"
proof -
  obtain u where u: "boot demo_kernel 0 = Inr u" using demo_boot by blast
  let ?it = "iterations demo_kernel (conn_dtor demo_kernel) task_owner (run_task demo_kernel)"
  have "?it 4 (u\<lparr>thisThread := 1, quit := False\<rparr>) = Inl Null_dereference"
    using demo_four u by (simp add: demo_run_def)
  moreover have "\<exists>w. reachable demo_kernel 0 w \<and> server_iteration demo_kernel w = Inl e"
    if "?it m x = Inl e" "reachable demo_kernel 0 x" for m x e
    using that
  proof (induction m arbitrary: x)
    case (Suc m)
    show ?case
    proof (cases "server_iteration demo_kernel x")
      case (Inl e')
      then show ?thesis using Suc.prems by (auto simp: server_iteration_def)
    next
      case (Inr y)
      then have "?it m y = Inl e" using Suc.prems(1) by (simp add: server_iteration_def)
      with Suc.IH reachable.iterate[OF Suc.prems(2) Inr] show ?thesis by blast
    qed
  qed simp
  ultimately show ?thesis using reachable.enter[OF u] by blast
qed

end
