(* ===== verification/LoopOwnership.thy ===== *)
theory LoopOwnership
  imports LoopThread "HOL-Library.Multiset"
begin

text \<open>
  Who keeps the shared objects alive while the loop runs.  The owners of an object are the
  functors that wait in the queue, the functors of the batch that is being run, the locks
  taken for tied channels, and what the program's own structures hold.  The locale
  \<open>owned_loop\<close> is the contract under which the loop never runs a task on a dead object: its
  invariant \<open>safe L B\<close> is indexed by the owners \<open>L\<close> that the loop holds in local variables
  and by the rest \<open>B\<close> of the batch.
\<close>

section \<open>Results up to tolerated faults\<close>

text \<open>The operation ends in a state with \<open>P\<close>, or with a fault that \<open>tol\<close> tolerates.\<close>

definition safely :: "(fault \<Rightarrow> bool) \<Rightarrow> 'a res \<Rightarrow> ('a \<Rightarrow> bool) \<Rightarrow> bool" where
  "safely tol m P \<longleftrightarrow> (case m of Inl e \<Rightarrow> tol e | Inr a \<Rightarrow> P a)"

lemma safely_simps [simp]:
  "safely tol (Inl e) P = tol e" "safely tol (Inr a) P = P a"
  by (simp_all add: safely_def)

lemma safely_mono: "safely tol m P \<Longrightarrow> (\<And>a. P a \<Longrightarrow> Q a) \<Longrightarrow> safely tol m Q"
  by (auto simp: safely_def split: sum.splits)

lemma safely_ebind:
  assumes "safely tol m P" and "\<And>a. P a \<Longrightarrow> safely tol (f a) Q" shows "safely tol (ebind m f) Q"
  using assms by (cases m) simp_all

lemma safely_foldE:
  assumes "J xs w" and "\<And>x ys u. J (x # ys) u \<Longrightarrow> safely tol (f x u) (J ys)"
  shows "safely tol (foldE f xs w) (J [])"
  using assms(1)
proof (induction xs arbitrary: w)
  case (Cons x xs)
  then show ?case using assms(2)[OF Cons.prems] by (auto intro: safely_ebind)
qed simp

section \<open>Owners\<close>

fun owners :: "('t \<Rightarrow> nat option) \<Rightarrow> 't list \<Rightarrow> nat multiset" where
  "owners own [] = {#}"
| "owners own (t # ts) = (case own t of None \<Rightarrow> owners own ts | Some n \<Rightarrow> add_mset n (owners own ts))"

lemma owners_append [simp]: "owners own (ts @ us) = owners own ts + owners own us"
  by (induction ts) (auto split: option.split)

lemma owners_member: "t \<in> set ts \<Longrightarrow> own t = Some n \<Longrightarrow> n \<in># owners own ts"
  by (induction ts) (auto split: option.split)

lemma owners_memberE: "n \<in># owners own ts \<Longrightarrow> \<exists>t\<in>set ts. own t = Some n"
  by (induction ts) (auto split: option.splits)

text \<open>The function objects in the four slots of a channel.\<close>

definition channel_tasks :: "'t channel \<Rightarrow> 't set" where
  "channel_tasks ch = set_option (readCallback ch) \<union> set_option (writeCallback ch) \<union>
     set_option (closeCallback ch) \<union> set_option (errorCallback ch)"

lemma fire_safely:
  assumes "J w" and "\<And>t u. cb (chan_heap u c) = Some t \<Longrightarrow> J u \<Longrightarrow> safely tol (run t u) J"
  shows "safely tol (fire run c happened cb w) J"
  using assms by (auto simp: fire_def split: option.split)

lemma handleEventWithGuard_safely:
  assumes J: "J w"
    and run: "\<And>t u. t \<in> channel_tasks (chan_heap u c) \<Longrightarrow> J u \<Longrightarrow> safely tol (run t u) J"
    and mark: "\<And>u b. J u \<Longrightarrow> J (upd_chan c (\<lambda>ch. ch\<lparr>ch_eventHandling := b\<rparr>) u)"
  shows "safely tol (handleEventWithGuard run c w) J"
proof -
  have "safely tol (fire run c h cb u) J"
    if "J u" "cb \<in> {readCallback, writeCallback, closeCallback, errorCallback}" for h cb u
    using that by (intro fire_safely) (auto simp: channel_tasks_def intro!: run)
  then show ?thesis
    unfolding handleEventWithGuard_def using J mark by (intro safely_ebind[where P = J]) auto
qed

section \<open>The contract\<close>

text \<open>
  \<open>fn\<close> are the functors and \<open>cb\<close> the channel callbacks of the program, \<open>uses t\<close> is the object
  whose method \<open>t\<close> calls, and \<open>tol\<close> are the faults that are not failures of ownership.
\<close>

locale owned_loop =
  fixes S :: "'o os_calls"
    and dtor :: "nat \<Rightarrow> ('o, 't, 'z) loop_st_scheme \<Rightarrow> ('o, 't, 'z) loop_st_scheme"
    and own :: "'t \<Rightarrow> nat option"
    and run :: "'t \<Rightarrow> ('o, 't, 'z) loop_st_scheme \<Rightarrow> ('o, 't, 'z) loop_st_scheme res"
    and safe :: "nat multiset \<Rightarrow> 't list \<Rightarrow> ('o, 't, 'z) loop_st_scheme \<Rightarrow> bool"
    and fn :: "'t \<Rightarrow> bool" and cb :: "'t \<Rightarrow> bool" and uses :: "'t \<Rightarrow> nat option"
    and tol :: "fault \<Rightarrow> bool"
  assumes functor_safe: "safe L (t # B) w \<Longrightarrow> fn t \<Longrightarrow> (\<And>n. uses t = Some n \<Longrightarrow> 0 < refs w n) \<Longrightarrow>
        safely tol (run t w) (safe L B)"
    and callback_safe: "safe L [] w \<Longrightarrow> cb t \<Longrightarrow> t \<in> channel_tasks (chan_heap w c) \<Longrightarrow>
        (\<And>n. uses t = Some n \<Longrightarrow> 0 < refs w n) \<Longrightarrow>
        safely tol (run t w) (\<lambda>v. safe L [] v \<and> tied (chan_heap v c) = tied (chan_heap w c) \<and>
          tie (chan_heap v c) = tie (chan_heap w c))"
    and slot_callback: "safe L [] w \<Longrightarrow> t \<in> channel_tasks (chan_heap w c) \<Longrightarrow> cb t"
    and slot_owner: "safe L [] w \<Longrightarrow> t \<in> channel_tasks (chan_heap w c) \<Longrightarrow> uses t = Some n \<Longrightarrow>
        tied (chan_heap w c) \<and> tie (chan_heap w c) = Some n \<or> 0 < refs w n"
    and queue_functor: "safe {#} [] w \<Longrightarrow> t \<in> set (pendingFunctors w) \<Longrightarrow> fn t"
    and queue_owner: "safe {#} [] w \<Longrightarrow> t \<in> set (pendingFunctors w) \<Longrightarrow> uses t = Some n \<Longrightarrow>
        n \<in># owners own (pendingFunctors w)"
    and local_alive: "safe L B w \<Longrightarrow> n \<in># L \<Longrightarrow> 0 < refs w n"
    and acquire_safe: "safe L B w \<Longrightarrow> 0 < refs w n \<Longrightarrow> safe (add_mset n L) B (acquire n w)"
    and release_safe: "safe (add_mset n L) [] w \<Longrightarrow> safe L [] (release dtor n w)"
    and swap_safe: "safe {#} [] w \<Longrightarrow> safe (owners own (pendingFunctors w)) (pendingFunctors w)
        (w\<lparr>callingPendingFunctors := b, pendingFunctors := []\<rparr>)"
    and poll_safe: "safe L B w \<Longrightarrow> safe L B (loop_poll S w)"
    and mark_safe: "safe L B w \<Longrightarrow> safe L B (upd_chan c (\<lambda>ch. ch\<lparr>ch_eventHandling := b\<rparr>) w)"
    and flag_safe: "safe L B w \<Longrightarrow> safe L B (w\<lparr>eventHandling := b\<rparr>)"
    and current_safe: "safe L B w \<Longrightarrow> safe L B (w\<lparr>currentActiveChannel := a\<rparr>)"
    and calling_safe: "safe L B w \<Longrightarrow> safe L B (w\<lparr>callingPendingFunctors := b\<rparr>)"
begin

text \<open>While the lock of a channel is held, its callbacks run on a living object.\<close>

lemma guarded_safe:
  assumes safe: "safe L [] w" and lock: "\<And>n. tied (chan_heap w c) \<Longrightarrow> tie (chan_heap w c) = Some n \<Longrightarrow> n \<in># L"
  shows "safely tol (handleEventWithGuard run c w) (safe L [])"
proof -
  let ?J = "\<lambda>u. safe L [] u \<and> tied (chan_heap u c) = tied (chan_heap w c) \<and> tie (chan_heap u c) = tie (chan_heap w c)"
  have "safely tol (handleEventWithGuard run c w) ?J"
  proof (rule handleEventWithGuard_safely)
    fix t u assume t: "t \<in> channel_tasks (chan_heap u c)" and u: "?J u"
    have "0 < refs u n" if "uses t = Some n" for n
      using slot_owner[of L u t c n] local_alive[of L "[]" u n] lock[of n] t u that by auto
    with callback_safe[of L u t c] slot_callback[of L u t c] t u have "safely tol (run t u)
        (\<lambda>v. safe L [] v \<and> tied (chan_heap v c) = tied (chan_heap u c) \<and> tie (chan_heap v c) = tie (chan_heap u c))"
      by blast
    then show "safely tol (run t u) ?J" by (rule safely_mono) (use u in simp)
  qed (use safe mark_safe in auto)
  then show ?thesis by (rule safely_mono) simp
qed

lemma handleEvent_safe:
  assumes safe: "safe {#} [] w" shows "safely tol (handleEvent dtor run c w) (safe {#} [])"
proof (cases "tied (chan_heap w c)")
  case True
  show ?thesis
  proof (cases "tie (chan_heap w c)")
    case None
    then show ?thesis using True safe by (simp add: handleEvent_def expired_def)
  next
    case (Some n)
    have "safely tol (handleEventWithGuard run c (acquire n w)) (safe {#n#} [])" if "0 < refs w n"
    proof (rule guarded_safe)
      show "safe {#n#} [] (acquire n w)" using acquire_safe[OF safe that] by simp
      show "n' \<in># {#n#}" if "tie (chan_heap (acquire n w) c) = Some n'" for n'
        using that Some by (simp add: acquire_def)
    qed
    then show ?thesis
      using True Some safe
      by (auto simp: handleEvent_def Let_def expired_def acquire_opt_def release_opt_def
          intro!: safely_ebind[where P = "safe {#n#} []"] release_safe)
  qed
next
  case False
  then show ?thesis using safe by (simp add: handleEvent_def) (rule guarded_safe, simp_all)
qed

lemma release_all_safe: "safe (owners own ts) [] w \<Longrightarrow> safe {#} [] (release_all dtor own ts w)"
  by (induction ts arbitrary: w) (auto simp: release_opt_def release_safe split: option.splits)

text \<open>The functors of a batch are owned until all of them have run.\<close>

lemma batch_safe:
  assumes "safe L ts w" and "\<forall>t\<in>set ts. fn t" and "\<forall>t\<in>set ts. \<forall>n. uses t = Some n \<longrightarrow> n \<in># L"
  shows "safely tol (foldE run ts w) (safe L [])"
proof -
  let ?J = "\<lambda>us u. safe L us u \<and> (\<forall>t\<in>set us. fn t \<and> (\<forall>n. uses t = Some n \<longrightarrow> n \<in># L))"
  have "safely tol (foldE run ts w) (?J [])"
  proof (rule safely_foldE)
    fix t us u assume J: "?J (t # us) u"
    have "safely tol (run t u) (safe L us)"
    proof (rule functor_safe)
      show "safe L (t # us) u" "fn t" using J by simp_all
      show "0 < refs u n" if "uses t = Some n" for n using J that local_alive by fastforce
    qed
    then show "safely tol (run t u) (?J us)" by (rule safely_mono) (use J in simp)
  qed (use assms in auto)
  then show ?thesis by (rule safely_mono) simp
qed

lemma doPendingFunctors_safe:
  assumes safe: "safe {#} [] w" shows "safely tol (doPendingFunctors dtor own run w) (safe {#} [])"
proof -
  let ?ts = "pendingFunctors w"
  have "safely tol (foldE run ?ts (w\<lparr>callingPendingFunctors := True, pendingFunctors := []\<rparr>)) (safe (owners own ?ts) [])"
    by (rule batch_safe) (use swap_safe[OF safe] queue_functor[OF safe] queue_owner[OF safe] in auto)
  then show ?thesis
    unfolding doPendingFunctors_def Let_def
    by (rule safely_ebind) (simp add: release_all_safe calling_safe)
qed

text \<open>The two halves of an iteration: the handlers end in \<open>w2\<close>, from whose queue the batch is taken.\<close>

lemma handlers_safe:
  assumes safe: "safe {#} [] w"
  shows "safely tol (foldE (handleActive dtor run) (activeChannels (loop_poll S w))
           ((loop_poll S w)\<lparr>eventHandling := True\<rparr>)) (safe {#} [])"
proof -
  have "safely tol (foldE (handleActive dtor run) cs u) (safe {#} [])" if "safe {#} [] u" for cs u
    using that by (intro safely_foldE[where J = "\<lambda>_. safe {#} []"])
      (auto simp: handleActive_def intro: handleEvent_safe current_safe)
  then show ?thesis using safe poll_safe flag_safe by blast
qed

lemma body_halves:
  assumes body: "loop_body S dtor own run w = Inr v" and safe: "safe {#} [] w"
  obtains w2 w4 where "safe {#} [] w2"
    and "foldE run (pendingFunctors w2) (w2\<lparr>callingPendingFunctors := True, pendingFunctors := []\<rparr>) = Inr w4"
    and "v = release_all dtor own (pendingFunctors w2) (w4\<lparr>callingPendingFunctors := False\<rparr>)"
proof -
  obtain u where u: "foldE (handleActive dtor run) (activeChannels (loop_poll S w))
      ((loop_poll S w)\<lparr>eventHandling := True\<rparr>) = Inr u"
    and d: "doPendingFunctors dtor own run (u\<lparr>currentActiveChannel := None, eventHandling := False\<rparr>) = Inr v"
    using body by (auto simp: loop_body_def Let_def ebind_eq_Inr)
  let ?w2 = "u\<lparr>currentActiveChannel := None, eventHandling := False\<rparr>"
  have "safe {#} [] ?w2" using handlers_safe[OF safe] u by (simp add: flag_safe current_safe)
  moreover obtain w4 where "foldE run (pendingFunctors ?w2) (?w2\<lparr>callingPendingFunctors := True, pendingFunctors := []\<rparr>) = Inr w4"
    "v = release_all dtor own (pendingFunctors ?w2) (w4\<lparr>callingPendingFunctors := False\<rparr>)"
    using d by (auto simp: doPendingFunctors_def Let_def ebind_eq_Inr)
  ultimately show thesis using that by blast
qed

text \<open>The batch, functor by functor: \<open>J\<close> holds of the functors still to run and the state.\<close>

lemma batch_invariant:
  assumes safe: "safe {#} [] w2"
    and run: "foldE run (pendingFunctors w2) (w2\<lparr>callingPendingFunctors := True, pendingFunctors := []\<rparr>) = Inr w4"
    and start: "J (pendingFunctors w2) (w2\<lparr>callingPendingFunctors := True, pendingFunctors := []\<rparr>)"
    and step: "\<And>t us u v. safe (owners own (pendingFunctors w2)) (t # us) u \<Longrightarrow> fn t \<Longrightarrow>
        J (t # us) u \<Longrightarrow> run t u = Inr v \<Longrightarrow> J us v"
  shows "J [] w4"
proof -
  let ?L = "owners own (pendingFunctors w2)"
  have "foldE run ts u = Inr v \<Longrightarrow> safe ?L ts u \<Longrightarrow> J ts u \<Longrightarrow> \<forall>t\<in>set ts. fn t \<and> (\<forall>n. uses t = Some n \<longrightarrow> n \<in># ?L) \<Longrightarrow> J [] v"
    for ts u v
  proof (induction ts arbitrary: u)
    case (Cons t ts)
    from Cons.prems(1) obtain x where x: "run t u = Inr x" "foldE run ts x = Inr v" by (auto simp: ebind_eq_Inr)
    have "safely tol (run t u) (safe ?L ts)"
    proof (rule functor_safe[OF Cons.prems(2)])
      show "fn t" using Cons.prems(4) by simp
      show "0 < refs u n" if "uses t = Some n" for n
        using local_alive[OF Cons.prems(2)] Cons.prems(4) that by simp
    qed
    then have "safe ?L ts x" using x(1) by simp
    moreover have "J ts x" using step[OF Cons.prems(2) _ Cons.prems(3) x(1)] Cons.prems(4) by simp
    ultimately show ?case using Cons.IH[OF x(2)] Cons.prems(4) by simp
  qed simp
  from this[OF run swap_safe[OF safe] start] show ?thesis
    using queue_functor[OF safe] queue_owner[OF safe] by blast
qed

text \<open>One iteration keeps the invariant or ends with a tolerated fault.\<close>

lemma body_safe:
  assumes safe: "safe {#} [] w" shows "safely tol (loop_body S dtor own run w) (safe {#} [])"
  unfolding loop_body_def Let_def
  by (rule safely_ebind[OF handlers_safe[OF safe]]) (simp add: doPendingFunctors_safe flag_safe current_safe)

end

section \<open>Further invariants\<close>

text \<open>
  An invariant that the tasks keep on top of the ownership.  With it the loop has the same
  contract for the conjunction, so that nothing about the loop is proved again.
\<close>

locale owned_invariant = owned_loop S dtor own run safe fn cb uses tol
  for S :: "'o os_calls"
    and dtor :: "nat \<Rightarrow> ('o, 't, 'z) loop_st_scheme \<Rightarrow> ('o, 't, 'z) loop_st_scheme"
    and own :: "'t \<Rightarrow> nat option"
    and run :: "'t \<Rightarrow> ('o, 't, 'z) loop_st_scheme \<Rightarrow> ('o, 't, 'z) loop_st_scheme res"
    and safe :: "nat multiset \<Rightarrow> 't list \<Rightarrow> ('o, 't, 'z) loop_st_scheme \<Rightarrow> bool"
    and fn :: "'t \<Rightarrow> bool" and cb :: "'t \<Rightarrow> bool" and uses :: "'t \<Rightarrow> nat option"
    and tol :: "fault \<Rightarrow> bool" +
  fixes inv :: "nat multiset \<Rightarrow> 't list \<Rightarrow> ('o, 't, 'z) loop_st_scheme \<Rightarrow> bool"
  assumes functor_inv: "safe L (t # B) w \<Longrightarrow> inv L (t # B) w \<Longrightarrow> fn t \<Longrightarrow> run t w = Inr v \<Longrightarrow> inv L B v"
    and callback_inv: "safe L [] w \<Longrightarrow> inv L [] w \<Longrightarrow> cb t \<Longrightarrow> run t w = Inr v \<Longrightarrow> inv L [] v"
    and acquire_inv: "inv L B w \<Longrightarrow> 0 < refs w n \<Longrightarrow> inv (add_mset n L) B (acquire n w)"
    and release_inv: "inv (add_mset n L) [] w \<Longrightarrow> inv L [] (release dtor n w)"
    and swap_inv: "safe {#} [] w \<Longrightarrow> inv {#} [] w \<Longrightarrow> inv (owners own (pendingFunctors w)) (pendingFunctors w)
        (w\<lparr>callingPendingFunctors := b, pendingFunctors := []\<rparr>)"
    and poll_inv: "inv L B w \<Longrightarrow> inv L B (loop_poll S w)"
    and mark_inv: "inv L B w \<Longrightarrow> inv L B (upd_chan c (\<lambda>ch. ch\<lparr>ch_eventHandling := b\<rparr>) w)"
    and flag_inv: "inv L B w \<Longrightarrow> inv L B (w\<lparr>eventHandling := b\<rparr>)"
    and current_inv: "inv L B w \<Longrightarrow> inv L B (w\<lparr>currentActiveChannel := a\<rparr>)"
    and calling_inv: "inv L B w \<Longrightarrow> inv L B (w\<lparr>callingPendingFunctors := b\<rparr>)"

lemma safely_and: "safely tol m P \<Longrightarrow> (\<And>v. m = Inr v \<Longrightarrow> P v \<Longrightarrow> Q v) \<Longrightarrow> safely tol m Q"
  by (cases m) simp_all

sublocale owned_invariant \<subseteq> both: owned_loop S dtor own run "\<lambda>L B w. safe L B w \<and> inv L B w" fn cb uses tol
proof
  fix L B w t assume w: "safe L (t # B) w \<and> inv L (t # B) w" and t: "fn t" and a: "\<And>n. uses t = Some n \<Longrightarrow> 0 < refs w n"
  have "safely tol (run t w) (safe L B)" using w by (intro functor_safe[OF _ t a]) simp
  then show "safely tol (run t w) (\<lambda>v. safe L B v \<and> inv L B v)"
    by (rule safely_and) (use functor_inv w t in blast)
next
  fix L w t c
  assume w: "safe L [] w \<and> inv L [] w" and t: "cb t" "t \<in> channel_tasks (chan_heap w c)"
    and a: "\<And>n. uses t = Some n \<Longrightarrow> 0 < refs w n"
  have "safely tol (run t w) (\<lambda>v. safe L [] v \<and> tied (chan_heap v c) = tied (chan_heap w c) \<and>
      tie (chan_heap v c) = tie (chan_heap w c))"
    using w by (intro callback_safe[OF _ t a]) simp
  then show "safely tol (run t w) (\<lambda>v. (safe L [] v \<and> inv L [] v) \<and> tied (chan_heap v c) = tied (chan_heap w c) \<and>
      tie (chan_heap v c) = tie (chan_heap w c))"
    by (rule safely_and) (use callback_inv w t(1) in blast)
next
  fix L w t c n assume w: "safe L [] w \<and> inv L [] w" and t: "t \<in> channel_tasks (chan_heap w c)"
  show "cb t" "uses t = Some n \<Longrightarrow> tied (chan_heap w c) \<and> tie (chan_heap w c) = Some n \<or> 0 < refs w n"
    using slot_callback[OF conjunct1[OF w] t] slot_owner[OF conjunct1[OF w] t] by simp_all
next
  fix w t n b assume w: "safe {#} [] w \<and> inv {#} [] w"
  show "t \<in> set (pendingFunctors w) \<Longrightarrow> fn t"
    "t \<in> set (pendingFunctors w) \<Longrightarrow> uses t = Some n \<Longrightarrow> n \<in># owners own (pendingFunctors w)"
    using queue_functor[OF conjunct1[OF w]] queue_owner[OF conjunct1[OF w]] by simp_all
  let ?v = "w\<lparr>callingPendingFunctors := b, pendingFunctors := []\<rparr>"
  show "safe (owners own (pendingFunctors w)) (pendingFunctors w) ?v \<and> inv (owners own (pendingFunctors w)) (pendingFunctors w) ?v"
    using w swap_safe swap_inv by simp
next
  fix L w n assume "safe (add_mset n L) [] w \<and> inv (add_mset n L) [] w"
  then show "safe L [] (release dtor n w) \<and> inv L [] (release dtor n w)" using release_safe release_inv by blast
next
  fix L B w c n a b assume w: "safe L B w \<and> inv L B w"
  show "n \<in># L \<Longrightarrow> 0 < refs w n" using w local_alive[of L B w n] by simp
  show "0 < refs w n \<Longrightarrow> safe (add_mset n L) B (acquire n w) \<and> inv (add_mset n L) B (acquire n w)"
    using w acquire_safe acquire_inv by simp
  show "safe L B (loop_poll S w) \<and> inv L B (loop_poll S w)" using w poll_safe poll_inv by simp
  show "safe L B (upd_chan c (\<lambda>ch. ch\<lparr>ch_eventHandling := b\<rparr>) w) \<and> inv L B (upd_chan c (\<lambda>ch. ch\<lparr>ch_eventHandling := b\<rparr>) w)"
    using w mark_safe mark_inv by simp
  show "safe L B (w\<lparr>eventHandling := b\<rparr>) \<and> inv L B (w\<lparr>eventHandling := b\<rparr>)" using w flag_safe flag_inv by simp
  show "safe L B (w\<lparr>currentActiveChannel := a\<rparr>) \<and> inv L B (w\<lparr>currentActiveChannel := a\<rparr>)"
    using w current_safe current_inv by simp
  show "safe L B (w\<lparr>callingPendingFunctors := b\<rparr>) \<and> inv L B (w\<lparr>callingPendingFunctors := b\<rparr>)"
    using w calling_safe calling_inv by simp
qed

end
