(* ===== verification/Ownership.thy ===== *)
theory Ownership
  imports ServerSteps LoopOwnership
begin

text \<open>
  Who owns the connections of the server.  \<open>safe\<close> is the invariant of a running server: the
  count of every connection is exactly the number of its owners, every stored function
  object has the type of its slot and is bound to an existing connection, and every queued
  functor is bound to a connection the queue owns.  This theory shows that each operation
  keeps it, and which faults it can end with.
\<close>

section \<open>Steps that change no ownership\<close>

named_theorems still_intros "operations that change neither owners nor bindings"

definition binding :: "'t channel \<Rightarrow> bool \<times> nat option \<times> 't option \<times> 't option \<times> 't option \<times> 't option" where
  "binding ch = (tied ch, tie ch, readCallback ch, writeCallback ch, closeCallback ch, errorCallback ch)"

lemma bindingD:
  "binding ch = binding ch' \<Longrightarrow> tied ch = tied ch' \<and> tie ch = tie ch' \<and> channel_tasks ch = channel_tasks ch'"
  by (simp add: binding_def channel_tasks_def)

definition still :: "('o, 'z) net_st_scheme \<Rightarrow> ('o, 'z) net_st_scheme \<Rightarrow> bool" where
  "still w v \<longleftrightarrow> refs v = refs w \<and> pendingFunctors v = pendingFunctors w \<and> threadId v = threadId w \<and>
     thisThread v = thisThread w \<and> conn_heap v = conn_heap w \<and> next_conn v = next_conn w \<and>
     net_st.more v = net_st.more w \<and> next_chan v = next_chan w \<and>
     (\<forall>c. binding (chan_heap v c) = binding (chan_heap w c))"

lemma still_refl [simp, intro, still_intros]: "still w w"
  by (simp add: still_def)

lemma still_trans: "still u v \<Longrightarrow> still v w \<Longrightarrow> still u w"
  by (simp add: still_def)

lemma stillI:
  assumes "still w u" "refs v = refs u" "pendingFunctors v = pendingFunctors u" "threadId v = threadId u"
    "thisThread v = thisThread u" "conn_heap v = conn_heap u" "next_conn v = next_conn u"
    "net_st.more v = net_st.more u" "next_chan v = next_chan u"
    "\<And>c. binding (chan_heap v c) = binding (chan_heap u c)"
  shows "still w v"
  using assms by (simp add: still_def)

lemma still_log_call [still_intros]: "still w u \<Longrightarrow> still w (log_call e k u)"
  by (erule stillI) (simp_all add: log_call_def)

lemma still_upd_chan:
  "still w u \<Longrightarrow> (\<And>ch. binding (f ch) = binding ch) \<Longrightarrow> still w (upd_chan c f u)"
  by (erule stillI) (simp_all add: upd_chan_def)

lemma still_fields [still_intros]:
  "still w u \<Longrightarrow> still w (u\<lparr>channels := m\<rparr>)" "still w u \<Longrightarrow> still w (u\<lparr>events_size := k\<rparr>)"
  "still w u \<Longrightarrow> still w (u\<lparr>eventHandling := b\<rparr>)" "still w u \<Longrightarrow> still w (u\<lparr>currentActiveChannel := a\<rparr>)"
  "still w u \<Longrightarrow> still w (u\<lparr>activeChannels := cs\<rparr>)" "still w u \<Longrightarrow> still w (u\<lparr>callingPendingFunctors := b\<rparr>)"
  "still w u \<Longrightarrow> still w (u\<lparr>quit := b\<rparr>)" "still w u \<Longrightarrow> still w (u\<lparr>wakeupChannel := c\<rparr>)"
  "still w u \<Longrightarrow> still w (u\<lparr>epollfd := i\<rparr>)" "still w u \<Longrightarrow> still w (u\<lparr>wakeupFd := i\<rparr>)"
  by (erule stillI; simp)+

lemma still_marks [still_intros]:
  "still w u \<Longrightarrow> still w (upd_chan c (set_index i) u)" "still w u \<Longrightarrow> still w (upd_chan c (set_revents r) u)"
  "still w u \<Longrightarrow> still w (upd_chan c (\<lambda>ch. ch\<lparr>addedToLoop := b\<rparr>) u)"
  "still w u \<Longrightarrow> still w (upd_chan c (\<lambda>ch. ch\<lparr>ch_eventHandling := b\<rparr>) u)"
  "still w u \<Longrightarrow> still w (upd_chan c want_reading u)" "still w u \<Longrightarrow> still w (upd_chan c want_writing u)"
  "still w u \<Longrightarrow> still w (upd_chan c unwant_writing u)" "still w u \<Longrightarrow> still w (upd_chan c want_nothing u)"
  by (erule still_upd_chan; simp add: binding_def set_index_def set_revents_def want_defs)+

lemma still_poller [still_intros]:
  "still w u \<Longrightarrow> still w (poller_update S q c u)"
  "still w u \<Longrightarrow> still w (poller_updateChannel S c u)" "still w u \<Longrightarrow> still w (poller_removeChannel S c u)"
proof -
  show up: "still w u \<Longrightarrow> still w (poller_update S q c u)" for u q
    by (simp add: poller_update_def sys_eqs still_intros)
  show "still w u \<Longrightarrow> still w (poller_updateChannel S c u)"
    by (auto simp: poller_updateChannel_def Let_def intro: still_intros up split: channel_index.split)
  show "still w u \<Longrightarrow> still w (poller_removeChannel S c u)"
    by (auto simp: poller_removeChannel_def Let_def intro: still_intros up split: channel_index.split)
qed

lemma still_channel_ops [still_intros]:
  "still w u \<Longrightarrow> still w (channel_remove S c u)" "still w u \<Longrightarrow> still w (enableReading S c u)"
  "still w u \<Longrightarrow> still w (enableWriting S c u)" "still w u \<Longrightarrow> still w (disableWriting S c u)"
  "still w u \<Longrightarrow> still w (disableAll S c u)"
  by (auto simp: channel_update_def channel_remove_def channel_op_defs loop_op_defs intro!: still_intros)

lemma still_socket_ops [still_intros]:
  "still w u \<Longrightarrow> still w (Socket_ShutdownWrite S s u)" "still w u \<Longrightarrow> still w (Socket_Listen S s u)"
  "still w u \<Longrightarrow> still w (shutdownReadWrite S s u)" "still w u \<Longrightarrow> still w (sock_close S s u)"
  "still w u \<Longrightarrow> still w (snd (sock_write S s bs u))" "still w u \<Longrightarrow> still w (snd (sock_read S s n u))"
  "still w u \<Longrightarrow> still w (snd (getLocalAddr S s u))" "still w u \<Longrightarrow> still w (snd (Socket_Accept S s p u))"
  "still w u \<Longrightarrow> still w (setReuseAddr S s b u)" "still w u \<Longrightarrow> still w (setReusePort S s b u)"
  "still w u \<Longrightarrow> still w (Socket_Bind S s a u)" "still w u \<Longrightarrow> still w (snd (createNonblockingOrDie S u))"
  by (simp_all add: socket_defs sys_eqs case_prod_beta still_intros)

lemma still_net_ops [still_intros]:
  "still w u \<Longrightarrow> still w (conn_dtor S n u)" "still w u \<Longrightarrow> still w (shutdownInLoop S n u)"
  "still w u \<Longrightarrow> still w (wakeup S u)" "still w u \<Longrightarrow> still w (loop_handleRead S u)"
  by (simp_all add: conn_dtor_def shutdownInLoop_def loop_op_defs Let_def still_intros)

lemma still_poll [still_intros]:
  assumes "still w u" shows "still w (loop_poll S u)"
proof -
  have fill: "still w v \<Longrightarrow> still w (snd (fillActiveChannels es v))" for es v
  proof (induction es arbitrary: v)
    case (Cons e es)
    obtain ev c where e: "e = (ev, c)" by (cases e)
    from Cons.IH[OF still_marks(2)[OF Cons.prems]] show ?case by (simp add: e case_prod_beta)
  qed simp
  show ?thesis
    using assms by (auto simp: loop_poll_def poller_poll_def sys_eqs case_prod_beta intro!: still_intros fill)
qed

section \<open>The invariant\<close>

text \<open>The object whose method a task calls.\<close>

fun conn_of :: "task \<Rightarrow> nat option" where
  "conn_of LoopHandleRead = None"
| "conn_of AcceptorListen = None"
| "conn_of AcceptorHandleRead = None"
| "conn_of (ConnHandleRead n) = Some n"
| "conn_of (ConnHandleWrite n) = Some n"
| "conn_of (ConnHandleClose n) = Some n"
| "conn_of (ConnHandleError n) = Some n"
| "conn_of (ConnShutdownInLoop n) = Some n"
| "conn_of (ConnForceCloseInLoop n) = Some n"
| "conn_of (ConnConnectEstablished n) = Some n"
| "conn_of (ConnConnectDestroyed n) = Some n"
| "conn_of (ConnWriteComplete u n) = Some n"
| "conn_of (ConnHighWaterMark u n k) = Some n"
| "conn_of (ServerRemoveConnectionInLoop n) = Some n"

definition conn_tasks :: "nat \<Rightarrow> task set" where
  "conn_tasks n = {ConnHandleRead n, ConnHandleWrite n, ConnHandleClose n, ConnHandleError n}"

fun is_callback :: "task \<Rightarrow> bool" where
  "is_callback LoopHandleRead = True"
| "is_callback AcceptorHandleRead = True"
| "is_callback (ConnHandleRead n) = True"
| "is_callback (ConnHandleWrite n) = True"
| "is_callback (ConnHandleClose n) = True"
| "is_callback (ConnHandleError n) = True"
| "is_callback _ = False"

text \<open>The functors that this program queues: it sets no write-complete or high-water callback.\<close>

fun queueable :: "task \<Rightarrow> bool" where
  "queueable (ConnWriteComplete u n) = False"
| "queueable (ConnHighWaterMark u n k) = False"
| "queueable t = is_functor t"

text \<open>The slots of the server and of a connection hold callbacks of the slots' signatures.\<close>

definition server_slots :: "('o, 'z) world \<Rightarrow> bool" where
  "server_slots w \<longleftrightarrow> newConnectionCallback w = Some ServerNewConnection \<and>
     server_connectionCallback w = Some MyServerOnConnection \<and>
     server_messageCallback w = Some MyServerOnMessage \<and> server_writeCompleteCallback w = None"

definition conn_slots :: "connection \<Rightarrow> bool" where
  "conn_slots cn \<longleftrightarrow> connectionCallback cn = Some MyServerOnConnection \<and>
     messageCallback cn = Some MyServerOnMessage \<and> conn_closeCallback cn = Some ServerRemoveConnection \<and>
     writeCompleteCallback cn = None"

definition conn_ok :: "('o, 'z) net_st_scheme \<Rightarrow> nat \<Rightarrow> bool" where
  "conn_ok w n \<longleftrightarrow> channel_of (conn_heap w n) < next_chan w \<and> channel_tasks (conn_channel n w) = conn_tasks n \<and>
     buffer_inv (outputBuffer (conn_heap w n)) \<and> highWaterMarkCallback (conn_heap w n) = None"

text \<open>A channel calls back the loop, the acceptor, or the connection it belongs to, to which it is tied
  once the connection is established.\<close>

definition channel_ok :: "('o, 'z) net_st_scheme \<Rightarrow> nat \<Rightarrow> bool" where
  "channel_ok w c \<longleftrightarrow> (\<forall>t\<in>channel_tasks (chan_heap w c). c < next_chan w \<and>
     (t = LoopHandleRead \<or> t = AcceptorHandleRead \<or>
      (\<exists>n<next_conn w. t \<in> conn_tasks n \<and> channel_of (conn_heap w n) = c \<and>
         (state (conn_heap w n) = kConnecting \<or> tied (chan_heap w c) \<and> tie (chan_heap w c) = Some n))))"

text \<open>What the map of the server and the queue of the loop own.\<close>

definition held :: "('o, 'z) world \<Rightarrow> nat multiset" where
  "held w = mset (map snd (connections w)) + owners task_owner (pendingFunctors w)"

definition queue_ok :: "task list \<Rightarrow> bool" where
  "queue_ok q \<longleftrightarrow> (\<forall>t\<in>set q. queueable t \<and> (\<forall>n. conn_of t = Some n \<longrightarrow> n \<in># owners task_owner q))"

text \<open>A connection is connecting while its \<open>connectEstablished\<close> is queued, once, or still in the batch.\<close>

definition establishing :: "task list \<Rightarrow> ('o, 'z) net_st_scheme \<Rightarrow> bool" where
  "establishing B w \<longleftrightarrow> (\<forall>n. count (mset (B @ pendingFunctors w)) (ConnConnectEstablished n) =
     (if n < next_conn w \<and> state (conn_heap w n) = kConnecting then 1 else 0))"

text \<open>
  \<open>L\<close> are the owners in local variables, \<open>B\<close> is the rest of the batch, \<open>X\<close> are the connections whose
  slots are not filled yet, and \<open>G\<close> are ties that must not change.
\<close>

definition ties :: "(nat \<rightharpoonup> bool \<times> nat option) \<Rightarrow> ('o, 'z) net_st_scheme \<Rightarrow> bool" where
  "ties G w \<longleftrightarrow> (\<forall>c b. G c = Some b \<longrightarrow> c < next_chan w \<and> (tied (chan_heap w c), tie (chan_heap w c)) = b)"

definition safe :: "(nat \<rightharpoonup> bool \<times> nat option) \<Rightarrow> nat set \<Rightarrow> nat multiset \<Rightarrow> task list \<Rightarrow> ('o, 'z) world \<Rightarrow> bool" where
  "safe G X L B w \<longleftrightarrow>
     (\<forall>n. refs w n = count (held w + L) n) \<and> (\<forall>n\<in>#held w + L. n < next_conn w) \<and>
     distinct (map fst (connections w)) \<and> queue_ok (pendingFunctors w) \<and> establishing B w \<and>
     (\<forall>n<next_conn w. conn_ok w n) \<and> (\<forall>n<next_conn w. n \<notin> X \<longrightarrow> conn_slots (conn_heap w n)) \<and>
     (\<forall>c. channel_ok w c) \<and> server_slots w \<and> threadId w \<noteq> thisThread w \<and>
     (\<forall>h. hostPtr w = Some h \<longrightarrow> h < next_conn w \<and> state (conn_heap w h) \<noteq> kConnecting) \<and> ties G w"

lemma safeI:
  assumes "\<And>n. refs w n = count (held w + L) n" "\<And>n. n \<in># held w + L \<Longrightarrow> n < next_conn w"
    "distinct (map fst (connections w))" "queue_ok (pendingFunctors w)" "establishing B w"
    "\<And>n. n < next_conn w \<Longrightarrow> conn_ok w n" "\<And>n. n < next_conn w \<Longrightarrow> n \<notin> X \<Longrightarrow> conn_slots (conn_heap w n)"
    "\<And>c. channel_ok w c" "server_slots w" "threadId w \<noteq> thisThread w" "\<And>h. hostPtr w = Some h \<Longrightarrow> h < next_conn w \<and> state (conn_heap w h) \<noteq> kConnecting"
    "ties G w"
  shows "safe G X L B w"
  using assms by (simp add: safe_def)

lemma safeD:
  assumes "safe G X L B w"
  shows "refs w n = count (held w + L) n" "n \<in># held w + L \<Longrightarrow> n < next_conn w"
    "distinct (map fst (connections w))" "queue_ok (pendingFunctors w)" "establishing B w"
    "n < next_conn w \<Longrightarrow> conn_ok w n" "n < next_conn w \<Longrightarrow> n \<notin> X \<Longrightarrow> conn_slots (conn_heap w n)"
    "channel_ok w c" "server_slots w" "threadId w \<noteq> thisThread w" "hostPtr w = Some h \<Longrightarrow> h < next_conn w \<and> state (conn_heap w h) \<noteq> kConnecting"
    "ties G w"
  using assms unfolding safe_def by blast+

text \<open>The components depend on a few members each.\<close>

lemma world_more_eqD:
  assumes "net_st.more v = net_st.more w"
  shows "connections v = connections w" "hostPtr v = hostPtr w" "server_slots v = server_slots w"
  using assms
  by (cases v rule: myserver_st.cases_scheme; cases w rule: myserver_st.cases_scheme;
      simp only: net_st.select_convs server_st.select_convs myserver_st.select_convs acceptor_st.select_convs
        acceptor_st.ext_inject server_st.ext_inject myserver_st.ext_inject server_slots_def)+

lemma safe_still:
  assumes "still w v" "safe G X L B w" shows "safe G X L B v"
proof -
  have b: "binding (chan_heap v c) = binding (chan_heap w c)" for c using assms(1) by (simp add: still_def)
  have e: "refs v = refs w" "pendingFunctors v = pendingFunctors w" "threadId v = threadId w"
    "thisThread v = thisThread w" "conn_heap v = conn_heap w" "next_conn v = next_conn w"
    "next_chan v = next_chan w" and m: "net_st.more v = net_st.more w"
    using assms(1) by (simp_all add: still_def)
  have c: "conn_ok v n = conn_ok w n" "channel_ok v c = channel_ok w c" for n c
    using bindingD[OF b[of c]] bindingD[OF b[of "channel_of (conn_heap w n)"]]
    by (simp_all add: conn_ok_def channel_ok_def conn_channel_def e)
  have "tied (chan_heap v c) = tied (chan_heap w c)" "tie (chan_heap v c) = tie (chan_heap w c)" for c
    using bindingD[OF b] by simp_all
  then have "held v = held w" "establishing B v = establishing B w" "ties G v = ties G w"
    using world_more_eqD[OF m] by (simp_all add: held_def establishing_def ties_def e)
  then show ?thesis using assms(2) world_more_eqD[OF m] by (simp add: safe_def c e)
qed

lemma safe_refs:
  assumes "safe G X L B w" and "\<And>n. f n = count (held w + L') n" and "\<And>n. n \<in># L' \<Longrightarrow> n < next_conn w"
  shows "safe G X L' B (w\<lparr>refs := f\<rparr>)"
  using assms by (auto simp: safe_def held_def establishing_def ties_def conn_ok_def channel_ok_def conn_channel_def server_slots_def)

lemma safe_alive: "safe G X L B w \<Longrightarrow> n \<in># held w + L \<Longrightarrow> 0 < refs w n"
  using safeD(1)[of G X L B w n] by simp

lemma safe_exists: "safe G X L B w \<Longrightarrow> 0 < refs w n \<Longrightarrow> n < next_conn w"
  using safeD(1,2)[of G X L B w n] by simp

lemma safe_acquire:
  assumes "safe G X L B w" "n < next_conn w" shows "safe G X (add_mset n L) B (acquire n w)"
  unfolding acquire_def using assms safeD(1,2)[OF assms(1)] by (intro safe_refs[OF assms(1)]) auto

lemma safe_release:
  assumes "safe G X (add_mset n L) B w" shows "safe G X L B (release (conn_dtor S) n w)"
proof -
  let ?w = "w\<lparr>refs := (refs w)(n := refs w n - 1)\<rparr>"
  have "safe G X L B ?w" using safeD(1,2)[OF assms] by (intro safe_refs[OF assms]) auto
  moreover have "still ?w (conn_dtor S n ?w)" by (intro still_intros)
  ultimately show ?thesis unfolding release_def Let_def using safe_still by auto
qed

lemma establishing_skip:
  "(\<And>n. t \<noteq> ConnConnectEstablished n) \<Longrightarrow> establishing (t # B) w = establishing B w"
  by (simp add: establishing_def)

lemma safe_skip: "(\<And>n. t \<noteq> ConnConnectEstablished n) \<Longrightarrow> safe G X L (t # B) w = safe G X L B w"
  by (simp add: safe_def establishing_skip)

section \<open>Changes of a connection and of the queue\<close>

text \<open>A connection that has been established keeps its bindings through its further life.\<close>

lemma safe_upd_conn:
  assumes safe: "safe G X L B w"
    and f: "\<And>cn. channel_of (f cn) = channel_of cn \<and> highWaterMarkCallback (f cn) = highWaterMarkCallback cn"
      "\<And>cn. conn_slots cn \<Longrightarrow> conn_slots (f cn)"
      "buffer_inv (outputBuffer (conn_heap w n)) \<Longrightarrow> buffer_inv (outputBuffer (f (conn_heap w n)))"
      "(state (f (conn_heap w n)) = kConnecting) = (state (conn_heap w n) = kConnecting)"
  shows "safe G X L B (upd_conn n f w)"
proof -
  note D = safeD[OF safe]
  let ?v = "upd_conn n f w"
  have e: "refs ?v = refs w" "pendingFunctors ?v = pendingFunctors w" "threadId ?v = threadId w"
    "thisThread ?v = thisThread w" "next_conn ?v = next_conn w" "next_chan ?v = next_chan w"
    "chan_heap ?v = chan_heap w" "connections ?v = connections w" "hostPtr ?v = hostPtr w"
    "server_slots ?v = server_slots w"
    by (simp_all add: upd_conn_def server_slots_def)
  have s: "(state (conn_heap ?v m) = kConnecting) = (state (conn_heap w m) = kConnecting)"
    "channel_of (conn_heap ?v m) = channel_of (conn_heap w m)" for m
    using f by simp_all
  have "conn_ok w m \<Longrightarrow> conn_ok ?v m" for m using f(1,3) by (auto simp: conn_ok_def conn_channel_def e)
  moreover have "conn_slots (conn_heap w m) \<Longrightarrow> conn_slots (conn_heap ?v m)" for m using f(2) by auto
  ultimately show ?thesis
    using D by (intro safeI)
      (simp_all only: held_def establishing_def channel_ok_def ties_def e s, simp_all)
qed

lemma safe_setState:
  assumes "safe G X L B w" "state (conn_heap w n) \<noteq> kConnecting" "s \<noteq> kConnecting"
  shows "safe G X L B (upd_conn n (setState s) w)"
  using assms by (intro safe_upd_conn) (simp_all add: conn_slots_def setState_def)

lemma safe_outputBuffer:
  "safe G X L B w \<Longrightarrow> buffer_inv b \<Longrightarrow> safe G X L B (upd_conn n (\<lambda>cn. cn\<lparr>outputBuffer := b\<rparr>) w)"
  by (rule safe_upd_conn) (simp_all add: conn_slots_def)

lemma conn_ok_upd_chan:
  assumes "\<And>ch. channel_tasks (f ch) = channel_tasks ch"
  shows "conn_ok (upd_chan c f w) n = conn_ok w n"
  using assms by (simp add: conn_ok_def conn_channel_def upd_chan_def)

text \<open>Establishing: the state, the tie, and the end of the functor that did it.\<close>

lemma safe_establish:
  assumes safe: "safe Map.empty {} L (ConnConnectEstablished n # B) w"
  shows "state (conn_heap w n) = kConnecting" and "n < next_conn w"
    and "safe Map.empty {} L B (upd_chan (channel_of (conn_heap w n)) (channel_tie n) (upd_conn n (setState kConnected) w))"
proof -
  note D = safeD[OF safe]
  have c: "count (mset (B @ pendingFunctors w)) (ConnConnectEstablished m) + (if m = n then 1 else 0) =
      (if m < next_conn w \<and> state (conn_heap w m) = kConnecting then 1 else 0)" for m
    using spec[OF D(5)[unfolded establishing_def], of m] by (auto split: if_splits)
  from c[of n] show st: "state (conn_heap w n) = kConnecting" and n: "n < next_conn w"
    by (auto split: if_splits)
  let ?c = "channel_of (conn_heap w n)"
  let ?v = "upd_chan ?c (channel_tie n) (upd_conn n (setState kConnected) w)"
  have e: "refs ?v = refs w" "pendingFunctors ?v = pendingFunctors w" "threadId ?v = threadId w"
    "thisThread ?v = thisThread w" "next_conn ?v = next_conn w" "next_chan ?v = next_chan w"
    "connections ?v = connections w" "hostPtr ?v = hostPtr w" "server_slots ?v = server_slots w"
    "conn_heap ?v = (conn_heap w)(n := setState kConnected (conn_heap w n))"
    "chan_heap ?v = (chan_heap w)(?c := channel_tie n (chan_heap w ?c))"
    by (simp_all add: upd_conn_def upd_chan_def server_slots_def)
  have t: "channel_tasks (channel_tie n ch) = channel_tasks ch" "tied (channel_tie n ch)" "tie (channel_tie n ch) = Some n"
    for ch :: "task channel" by (simp_all add: channel_tie_def channel_tasks_def)
  have chan_eq: "conn_ok w m \<Longrightarrow> t \<in> conn_tasks k \<Longrightarrow> t \<in> channel_tasks (chan_heap w (channel_of (conn_heap w m))) \<Longrightarrow> m = k"
    for m k t by (auto simp: conn_ok_def conn_channel_def conn_tasks_def)
  show "safe Map.empty {} L B ?v"
  proof (rule safeI)
    show "establishing B ?v"
      unfolding establishing_def
    proof
      fix m show "count (mset (B @ pendingFunctors ?v)) (ConnConnectEstablished m) =
          (if m < next_conn ?v \<and> state (conn_heap ?v m) = kConnecting then 1 else 0)"
        using c[of m] st n unfolding e by (cases "m = n") auto
    qed
    show "conn_ok ?v m" if "m < next_conn ?v" for m
    proof -
      have k: "conn_ok w m" using D(6)[of m] that e(5) by simp
      have h: "channel_of (conn_heap ?v m) = channel_of (conn_heap w m)"
        "outputBuffer (conn_heap ?v m) = outputBuffer (conn_heap w m)"
        "highWaterMarkCallback (conn_heap ?v m) = highWaterMarkCallback (conn_heap w m)"
        unfolding e(10) by (simp_all add: setState_def)
      have "channel_tasks (conn_channel m ?v) = channel_tasks (conn_channel m w)"
        unfolding conn_channel_def h e(11) by (simp add: t(1))
      with k show ?thesis unfolding conn_ok_def h e(6) by simp
    qed
    show "conn_slots (conn_heap ?v m)" if "m < next_conn ?v" for m
    proof -
      have "conn_slots (conn_heap w m)" using D(7)[of m] that e(5) by simp
      moreover have "conn_slots (setState s cn) = conn_slots cn" for s cn
        by (simp add: conn_slots_def setState_def)
      ultimately show ?thesis unfolding e(10) by (cases "m = n") simp_all
    qed
    show "channel_ok ?v c" for c
      unfolding channel_ok_def
    proof
      fix t assume "t \<in> channel_tasks (chan_heap ?v c)"
      then have tk: "t \<in> channel_tasks (chan_heap w c)" unfolding e(11) by (auto simp: t split: if_splits)
      with D(8)[of c] have cl: "c < next_chan w" and
        k: "t = LoopHandleRead \<or> t = AcceptorHandleRead \<or>
        (\<exists>m<next_conn w. t \<in> conn_tasks m \<and> channel_of (conn_heap w m) = c \<and>
           (state (conn_heap w m) = kConnecting \<or> tied (chan_heap w c) \<and> tie (chan_heap w c) = Some m))"
        unfolding channel_ok_def by blast+
      let ?own = "\<lambda>u m. m < next_conn u \<and> t \<in> conn_tasks m \<and> channel_of (conn_heap u m) = c \<and>
          (state (conn_heap u m) = kConnecting \<or> tied (chan_heap u c) \<and> tie (chan_heap u c) = Some m)"
      have "?own ?v m" if m: "?own w m" for m
      proof -
        have "m = n" if "c = ?c" using chan_eq[OF D(6)[OF n], of t m] m tk that by simp
        then have "state (conn_heap ?v m) = kConnecting \<or> tied (chan_heap ?v c) \<and> tie (chan_heap ?v c) = Some m"
          using m unfolding e(10,11) by (auto simp: t)
        moreover have "channel_of (conn_heap ?v m) = channel_of (conn_heap w m)" by (simp only: e(10)) auto
        ultimately show ?thesis using m unfolding e(5) by metis
      qed
      with k have "t = LoopHandleRead \<or> t = AcceptorHandleRead \<or> (\<exists>m. ?own ?v m)" by blast
      with cl show "c < next_chan ?v \<and> (t = LoopHandleRead \<or> t = AcceptorHandleRead \<or>
        (\<exists>m<next_conn ?v. t \<in> conn_tasks m \<and> channel_of (conn_heap ?v m) = c \<and>
           (state (conn_heap ?v m) = kConnecting \<or> tied (chan_heap ?v c) \<and> tie (chan_heap ?v c) = Some m)))"
        unfolding e(6) by blast
    qed
  qed (use D in \<open>simp_all add: held_def ties_def e\<close>)
qed

text \<open>Queueing functors.\<close>

lemma queueInLoop_still:
  "still (acquire_opt (task_owner t) (w\<lparr>pendingFunctors := pendingFunctors w @ [t]\<rparr>)) (queueInLoop S task_owner t w)"
  by (simp add: queueInLoop_def Let_def) (intro conjI impI still_intros)

lemma queue_ok_snoc: "queue_ok q \<Longrightarrow> queue_ok ts \<Longrightarrow> queue_ok (q @ ts)"
  by (auto simp: queue_ok_def)

text \<open>
  The connections that the queue owns, and the ones that are connecting, follow the queue; a
  functor that is queued moves from the batch of the ghost \<open>B\<close> to the queue.
\<close>

lemma safe_queue:
  assumes safe: "safe G X L (us @ B) w" and ts: "queue_ok (pendingFunctors w @ ts)"
    and n: "\<And>n. n \<in># owners task_owner ts \<Longrightarrow> n < next_conn w"
    and us: "\<And>n. count (mset us) (ConnConnectEstablished n) = count (mset ts) (ConnConnectEstablished n)"
    and v: "v = w\<lparr>pendingFunctors := pendingFunctors w @ ts,
               refs := (\<lambda>n. refs w n + count (owners task_owner ts) n)\<rparr>"
  shows "safe G X L B v"
proof -
  note D = safeD[OF safe]
  have h: "held v = held w + owners task_owner ts" by (simp add: v held_def)
  have e: "refs v n = refs w n + count (owners task_owner ts) n" "pendingFunctors v = pendingFunctors w @ ts"
    "next_conn v = next_conn w" "connections v = connections w" "hostPtr v = hostPtr w" "conn_heap v = conn_heap w"
    "conn_ok v n = conn_ok w n" "channel_ok v c = channel_ok w c" "server_slots v = server_slots w"
    "ties G v = ties G w" "threadId v = threadId w" "thisThread v = thisThread w" for n c
    by (simp_all add: v conn_ok_def channel_ok_def conn_channel_def server_slots_def ties_def)
  show ?thesis
  proof (rule safeI)
    show "establishing B v"
      unfolding establishing_def
    proof
      fix n show "count (mset (B @ pendingFunctors v)) (ConnConnectEstablished n) =
          (if n < next_conn v \<and> state (conn_heap v n) = kConnecting then 1 else 0)"
        using spec[OF D(5)[unfolded establishing_def], of n] us[of n] by (simp add: e(2,3,6))
    qed
    show "refs v n = count (held v + L) n" for n using D(1)[of n] by (simp add: h e(1))
    show "m < next_conn v" if "m \<in># held v + L" for m using that D(2)[of m] n[of m] by (auto simp: h e(3))
  qed (use D(3,6-) ts in \<open>simp_all add: e(2-)\<close>)
qed

lemma safe_queueInLoop:
  assumes safe: "safe G X L (us @ B) w" and t: "queueable t" "conn_of t = task_owner t"
    and n: "\<And>n. task_owner t = Some n \<Longrightarrow> n < next_conn w"
    and us: "us = (if \<exists>n. t = ConnConnectEstablished n then [t] else [])"
  shows "safe G X L B (queueInLoop S task_owner t w)"
proof -
  let ?v = "acquire_opt (task_owner t) (w\<lparr>pendingFunctors := pendingFunctors w @ [t]\<rparr>)"
  have "safe G X L B ?v"
  proof (rule safe_queue[OF safe])
    have "queue_ok [t]" using t by (auto simp: queue_ok_def split: option.split)
    then show "queue_ok (pendingFunctors w @ [t])" using safeD(4)[OF safe] queue_ok_snoc by blast
    show "n < next_conn w" if "n \<in># owners task_owner [t]" for n
      using that n by (auto split: option.splits)
    show "count (mset us) (ConnConnectEstablished n) = count (mset [t]) (ConnConnectEstablished n)" for n
      using us by auto
    show "?v = w\<lparr>pendingFunctors := pendingFunctors w @ [t],
        refs := (\<lambda>n. refs w n + count (owners task_owner [t]) n)\<rparr>"
      by (auto simp: acquire_opt_def acquire_def fun_eq_iff split: option.split)
  qed
  with queueInLoop_still show ?thesis by (rule safe_still)
qed

end
