(* ===== verification/OwnershipSteps.thy ===== *)
theory OwnershipSteps
  imports Ownership
begin

text \<open>
  Every operation of the connections and of the server keeps the ownership invariant
  \<open>safe\<close>, or ends with one of the faults \<open>server_fault\<close>: the dereference of the lost host, a
  buffer beyond the largest vector, or an overflow of a counter.  The kernel is only assumed
  to keep the documented contracts of \<open>write\<close> and \<open>accept\<close>.
\<close>

section \<open>Faults and kernel\<close>

definition server_fault :: "fault \<Rightarrow> bool" where
  "server_fault e \<longleftrightarrow> e \<in> {Null_dereference, Length_error, Signed_overflow}"

lemma server_fault_simps [simp]:
  "server_fault Null_dereference" "server_fault Length_error" "server_fault Signed_overflow"
  by (simp_all add: server_fault_def)

text \<open>\<open>write\<close> accepts at most what it is given; the peer of an accepted connection has an IPv4 address.\<close>

definition documented_calls :: "'o os_calls \<Rightarrow> bool" where
  "documented_calls S \<longleftrightarrow>
     (\<forall>f bs k. fst (fst (os_write S f bs k)) \<le> int (length bs)) \<and>
     (\<forall>l k. 0 \<le> fst (fst (os_accept S l k)) \<longrightarrow> sin_family (snd (fst (os_accept S l k))) = AF_INET)"

section \<open>The map of the connections\<close>

lemma values_delete:
  assumes "distinct (map fst xs)"
  shows "mset (map snd (AList.delete k xs)) + (case map_of xs k of None \<Rightarrow> {#} | Some m \<Rightarrow> {#m#}) = mset (map snd xs)"
  using assms
proof (induction xs)
  case (Cons x xs)
  obtain a b where x: "x = (a, b)" by (cases x)
  from Cons show ?case by (auto simp: x split: option.splits)
qed simp

lemma values_update:
  assumes "distinct (map fst xs)"
  shows "mset (map snd (AList.update k n xs)) + (case map_of xs k of None \<Rightarrow> {#} | Some m \<Rightarrow> {#m#}) =
         add_mset n (mset (map snd xs))"
  using assms
proof (induction xs)
  case (Cons x xs)
  obtain a b where x: "x = (a, b)" by (cases x)
  from Cons show ?case by (auto simp: x split: option.splits)
qed simp

lemma safe_connections:
  assumes safe: "safe G X L B w" and "distinct (map fst cs)"
    and eq: "mset (map snd cs) + L' = mset (map snd (connections w)) + L"
  shows "safe G X L' B (w\<lparr>connections := cs\<rparr>)"
proof -
  note D = safeD[OF safe]
  have h: "held (w\<lparr>connections := cs\<rparr>) + L' = held w + L"
    unfolding held_def using eq by (simp add: add.commute add.left_commute)
  have e: "conn_ok (w\<lparr>connections := cs\<rparr>) n = conn_ok w n" "channel_ok (w\<lparr>connections := cs\<rparr>) = channel_ok w"
    "establishing B (w\<lparr>connections := cs\<rparr>) = establishing B w" "ties G (w\<lparr>connections := cs\<rparr>) = ties G w"
    "server_slots (w\<lparr>connections := cs\<rparr>) = server_slots w" for n
    by (simp_all add: fun_eq_iff establishing_def conn_ok_def channel_ok_def conn_channel_def server_slots_def ties_def)
  show ?thesis using safe assms(2) unfolding safe_def h by (simp add: e) blast
qed

lemma safe_release_opt:
  "safe G X (L + (case p of None \<Rightarrow> {#} | Some m \<Rightarrow> {#m#})) B w \<Longrightarrow> safe G X L B (release_opt (conn_dtor S) p w)"
  by (auto simp: release_opt_def safe_release split: option.splits)

lemma safe_store:
  assumes safe: "safe G X (add_mset n L) B w" shows "safe G X (add_mset n L) B (store_connection S nm n w)"
proof -
  let ?cs = "AList.update nm n (connections w)" and ?old = "map_of (connections w) nm"
  let ?o = "case ?old of None \<Rightarrow> {#} | Some m \<Rightarrow> {#m#}"
  note D = safeD[OF safe]
  have n: "n < next_conn w" by (rule D(2)) simp
  have "safe G X (L + ?o) B (w\<lparr>connections := ?cs\<rparr>)"
  proof (rule safe_connections[OF safe])
    show "distinct (map fst ?cs)" using D(3) by (rule AList.distinct_update)
    show "mset (map snd ?cs) + (L + ?o) = mset (map snd (connections w)) + add_mset n L"
      using values_update[OF D(3), of nm n] by (simp add: add.left_commute)
  qed
  then have "safe G X (add_mset n L + ?o) B (acquire n (w\<lparr>connections := ?cs\<rparr>))"
    using safe_acquire[of G X "L + ?o" B "w\<lparr>connections := ?cs\<rparr>" n] n by simp
  from safe_release_opt[OF this] show ?thesis by (simp add: store_connection_def)
qed

lemma safe_unmap:
  assumes safe: "safe G X L B w"
  shows "safe G X L B (release_opt (conn_dtor S) (map_of (connections w) nm) (w\<lparr>connections := AList.delete nm (connections w)\<rparr>))"
proof -
  let ?cs = "AList.delete nm (connections w)"
  let ?o = "case map_of (connections w) nm of None \<Rightarrow> {#} | Some m \<Rightarrow> {#m#}"
  note D = safeD[OF safe]
  have "safe G X (L + ?o) B (w\<lparr>connections := ?cs\<rparr>)"
  proof (rule safe_connections[OF safe])
    show "distinct (map fst ?cs)" using D(3) by (rule AList.distinct_delete)
    show "mset (map snd ?cs) + (L + ?o) = mset (map snd (connections w)) + L"
      using values_delete[OF D(3), of nm] by (simp add: add.left_commute add.commute)
  qed
  then show ?thesis by (rule safe_release_opt)
qed

lemma safe_removeConnectionInLoop:
  assumes safe: "safe G X L B w" and n: "n < next_conn w"
  shows "safe G X L B (removeConnectionInLoop S n w)"
proof -
  let ?w1 = "w\<lparr>connections := AList.delete (conn_name (conn_heap w n)) (connections w)\<rparr>"
  let ?w2 = "release_opt (conn_dtor S) (map_of (connections w) (conn_name (conn_heap w n))) ?w1"
  have "quiet ?w1 ?w2" by (intro quiet_intros)
  then have "next_conn ?w2 = next_conn w" by (simp add: quiet_def same_conns_def)
  then have "safe G X L B (queueInLoop S task_owner (ConnConnectDestroyed n) ?w2)"
    using safe_unmap[OF safe] n by (intro safe_queueInLoop[where us = "[]"]) simp_all
  then show ?thesis by (simp add: removeConnectionInLoop_def assertInLoopThread_def Let_def)
qed

section \<open>Operations of a connection\<close>

abbreviation keeps :: "(nat \<rightharpoonup> bool \<times> nat option) \<Rightarrow> nat multiset \<Rightarrow> task list \<Rightarrow> ('o, 'z) world \<Rightarrow> bool" where
  "keeps G L B w \<equiv> safe G {} L B w"

abbreviation safe_result :: "(nat \<rightharpoonup> bool \<times> nat option) \<Rightarrow> nat multiset \<Rightarrow> task list \<Rightarrow> ('o, 'z) world res \<Rightarrow> bool" where
  "safe_result G L B m \<equiv> safely server_fault m (safe G {} L B)"

lemma not_in_loop: "safe G X L B w \<Longrightarrow> \<not> isInLoopThread w"
  using safeD(10) by (simp add: isInLoopThread_def)

lemma slotsD:
  assumes "keeps G L B w" "n < next_conn w"
  shows "connectionCallback (conn_heap w n) = Some MyServerOnConnection"
    "messageCallback (conn_heap w n) = Some MyServerOnMessage"
    "conn_closeCallback (conn_heap w n) = Some ServerRemoveConnection"
    "writeCompleteCallback (conn_heap w n) = None" "highWaterMarkCallback (conn_heap w n) = None"
    "buffer_inv (outputBuffer (conn_heap w n))"
  using safeD(6,7)[OF assms(1), of n] assms(2) by (simp_all add: conn_slots_def conn_ok_def)

lemma with_shared_safe:
  assumes "keeps G L B w" "0 < refs w n"
    and "\<And>u. keeps G (add_mset n L) B u \<Longrightarrow> n < next_conn u \<Longrightarrow> u = acquire n w \<Longrightarrow> safe_result G (add_mset n L) B (f u)"
  shows "safe_result G L B (with_shared S n f w)"
proof -
  have n: "n < next_conn w" using assms(1,2) by (rule safe_exists)
  with assms(1) have a: "keeps G (add_mset n L) B (acquire n w)" by (rule safe_acquire)
  have "n < next_conn (acquire n w)" using n by (simp add: acquire_def)
  from assms(3)[OF a this refl] show ?thesis
    using assms(2) by (simp add: with_shared_def) (erule safely_ebind, simp add: safe_release)
qed

lemma safe_queue_functor:
  assumes "safe G X L B w" "queueable t" "conn_of t = task_owner t" "\<And>n. task_owner t = Some n \<Longrightarrow> n < next_conn w"
    "\<And>n. t \<noteq> ConnConnectEstablished n"
  shows "safe G X L B (queueInLoop S task_owner t w)"
  using assms by (intro safe_queueInLoop[where us = "[]"]) simp_all

text \<open>Sending: the queue of bytes grows or the vector is full.\<close>

lemma send_remaining_safe:
  assumes safe: "keeps G L B w" and n: "n < next_conn w" and len: "length data < 2 ^ 63"
  shows "safe_result G L B (send_remaining S n data nwrote remaining e w)"
proof (cases "remaining \<le> length data \<and> \<not> e \<and> 0 < remaining")
  case True
  note sl = slotsD[OF safe n]
  let ?bs = "take remaining (drop nwrote data)"
  have "length ?bs < 2 ^ 63" using len by simp
  from append_buf_cases[OF sl(6) this]
  have "safely server_fault (append_buf ?bs (outputBuffer (conn_heap w n))) buffer_inv"
    by (auto split: if_splits)
  moreover have "keeps G L B (if \<not> isWriting (conn_channel n u) then enableWriting S (channel_of (conn_heap u n)) u else u)"
    if "keeps G L B u" for u
  proof -
    have "still u (enableWriting S (channel_of (conn_heap u n)) u)" by (intro still_intros)
    with that safe_still show ?thesis by auto
  qed
  moreover have "send_remaining S n data nwrote remaining e w =
      ebind (append_buf ?bs (outputBuffer (conn_heap w n))) (\<lambda>b. let w2 = upd_conn n (\<lambda>cn. cn\<lparr>outputBuffer := b\<rparr>) w in
        Inr (if \<not> isWriting (conn_channel n w2) then enableWriting S (channel_of (conn_heap w2 n)) w2 else w2))"
    using True sl(5) by (simp add: send_remaining_def Let_def)
  ultimately show ?thesis
    using safe_outputBuffer[OF safe] by (simp only: Let_def) (erule safely_ebind, simp only: safely_simps, blast)
next
  case False
  then show ?thesis using safe by (auto simp: send_remaining_def)
qed

lemma write_bound:
  "documented_calls S \<Longrightarrow> sock_write S f bs w = ((r, e), u) \<Longrightarrow> r \<le> int (length bs)"
  by (auto simp: documented_calls_def sock_write_def sys_eqs) (metis fst_conv)

lemma send_safe:
  assumes safe: "keeps G L B w" and n: "n < next_conn w" and len: "length data < 2 ^ 63"
  shows "safe_result G L B (send S n data w)"
proof -
  obtain nwrote e u where wr: "sock_write S (fd (conn_channel n w)) data w = ((nwrote, e), u)" by (metis surj_pair)
  have "still w (snd (sock_write S (fd (conn_channel n w)) data w))" by (intro still_intros)
  then have st: "still w u" by (simp add: wr)
  then have u: "keeps G L B u" using safe by (rule safe_still)
  have nu: "n < next_conn u" using st n by (simp add: still_def)
  note r = send_remaining_safe[OF u nu len] send_remaining_safe[OF safe n len]
  have "safe_result G L B (ebind (case writeCompleteCallback (conn_heap u n) of
          Some cb \<Rightarrow> (if k = 0 then queue_shared S n (ConnWriteComplete cb n) u else Inr u) | None \<Rightarrow> Inr u)
        (send_remaining S n data (nat nwrote) k False))" for k
    using slotsD(4)[OF u nu] r(1) by simp
  with r safe show ?thesis by (auto simp: send_def sendInLoop_def loop_op_defs Let_def wr)
qed

text \<open>The handler of writability drains at most what is queued.\<close>

lemma handleWrite_safe:
  assumes S: "documented_calls S" and safe: "keeps G L B w" and n: "n < next_conn w"
  shows "safe_result G L B (handleWrite S n w)"
proof (cases "isWriting (conn_channel n w)")
  case False
  then show ?thesis using safe by (simp add: handleWrite_def loop_op_defs)
next
  case True
  let ?out = "outputBuffer (conn_heap w n)"
  let ?bs = "slice (peek ?out) (peek ?out + readableBytes ?out) (storage ?out)"
  note inv = slotsD(6)[OF safe n]
  obtain r e u where wr: "sock_write S (fd (conn_channel n w)) ?bs w = ((r, e), u)" by (metis surj_pair)
  have "still w (snd (sock_write S (fd (conn_channel n w)) ?bs w))" by (intro still_intros)
  then have st: "still w u" by (simp add: wr)
  then have u: "keeps G L B u" and nu: "n < next_conn u" and cu: "conn_heap u = conn_heap w"
    using safe_still safe n by (simp_all add: still_def) blast
  show ?thesis
  proof (cases "0 < r")
    case False
    then show ?thesis using True u by (simp add: handleWrite_def loop_op_defs Let_def wr)
  next
    case pos: True
    have "length ?bs = length (content ?out)"
      using inv buffer_invD[OF inv] by (simp add: content_def peek_def readableBytes_eq)
    with write_bound[OF S wr] pos have "nat r \<le> length (content ?out)" by linarith
    from retrieve_ok[OF inv this] obtain b where b: "retrieve (nat r) ?out = Inr b" "buffer_inv b" by blast
    let ?w2 = "upd_conn n (\<lambda>cn. cn\<lparr>outputBuffer := b\<rparr>) u"
    let ?w3 = "disableWriting S (channel_of (conn_heap ?w2 n)) ?w2"
    have w2: "keeps G L B ?w2" using u b(2) by (rule safe_outputBuffer)
    have s3: "still ?w2 ?w3" by (intro still_intros)
    have w3: "keeps G L B ?w3" using s3 w2 by (rule safe_still)
    have "n < next_conn ?w3" using s3 nu by (simp add: still_def)
    from slotsD(4)[OF w3 this] have wc: "writeCompleteCallback (conn_heap ?w3 n) = None" .
    have "still ?w3 (shutdownInLoop S n ?w3)" by (intro still_intros)
    then have w4: "keeps G L B (shutdownInLoop S n ?w3)" using w3 by (rule safe_still)
    show ?thesis
      using True pos b(1) w2 w3 w4 wc cu unfolding handleWrite_def loop_op_defs Let_def wr by simp
  qed
qed

text \<open>The connection callback: it may close the new connection again.\<close>

lemma safe_numConnected: "safe G X L B w \<Longrightarrow> safe G X L B (w\<lparr>numConnected := k\<rparr>)"
  by (simp add: safe_def held_def establishing_def conn_ok_def channel_ok_def conn_channel_def server_slots_def ties_def)

lemma safe_hostPtr: "safe G X L B w \<Longrightarrow> n < next_conn w \<Longrightarrow> state (conn_heap w n) \<noteq> kConnecting \<Longrightarrow>
    safe G X L B (w\<lparr>flag := b, hostPtr := Some n\<rparr>)"
  by (simp add: safe_def held_def establishing_def conn_ok_def channel_ok_def conn_channel_def server_slots_def ties_def)

text \<open>\<open>shutdown\<close> queues a functor that owns nothing, but \<open>forceClose\<close> queues an owner right behind it.\<close>

lemma close_again_safe:
  assumes safe: "keeps G L B w" and alive: "0 < refs w n" and st: "state (conn_heap w n) = kConnected"
  shows "safe_result G L B (ebind (shutdown S n w) (forceClose S n))"
proof -
  let ?w1 = "upd_conn n (setState kDisconnecting) w"
  let ?ts = "[ConnShutdownInLoop n, ConnForceCloseInLoop n]"
  have n: "n < next_conn w" using safe alive by (rule safe_exists)
  have w1: "keeps G L B ?w1" using safe st by (intro safe_setState) simp_all
  let ?q1 = "?w1\<lparr>pendingFunctors := pendingFunctors w @ [ConnShutdownInLoop n]\<rparr>"
  let ?u = "queueInLoop S task_owner (ConnShutdownInLoop n) ?w1"
  have pw: "pendingFunctors ?w1 = pendingFunctors w" by (simp add: upd_conn_def)
  have u: "still ?q1 ?u"
    using queueInLoop_still[of "ConnShutdownInLoop n" ?w1 S] by (simp add: acquire_opt_def pw)
  have sh: "shutdown S n w = Inr ?u"
    using st not_in_loop[OF w1] by (simp add: shutdown_def runInLoop_def)
  have hu: "conn_heap ?u = conn_heap ?w1" "refs ?u = refs w" using u by (simp_all add: still_def upd_conn_def)
  then have id: "upd_conn n (setState kDisconnecting) ?u = ?u"
    by (simp add: upd_conn_def setState_def)
  let ?v = "queueInLoop S task_owner (ConnForceCloseInLoop n) ?u"
  have "state (conn_heap ?u n) = kDisconnecting" by (simp add: hu(1))
  then have fc: "forceClose S n ?u = Inr ?v"
    using alive hu(2) id by (simp add: forceClose_def queue_shared_def)
  let ?q2 = "?w1\<lparr>pendingFunctors := pendingFunctors ?w1 @ ?ts, refs := (\<lambda>m. refs ?w1 m + count (owners task_owner ?ts) m)\<rparr>"
  have "keeps G L B ?q2"
  proof (rule safe_queue[where us = "[]" and ts = ?ts])
    show "keeps G L ([] @ B) ?w1" using w1 by simp
    have "queue_ok ?ts" by (simp add: queue_ok_def)
    then show "queue_ok (pendingFunctors ?w1 @ ?ts)" using safeD(4)[OF w1] queue_ok_snoc by blast
  qed (use n in \<open>simp_all add: upd_conn_def\<close>)
  moreover have "still ?q2 (acquire n (?u\<lparr>pendingFunctors := pendingFunctors ?u @ [ConnForceCloseInLoop n]\<rparr>))"
    using u by (simp add: still_def pw acquire_def fun_eq_iff)
  moreover have "still (acquire n (?u\<lparr>pendingFunctors := pendingFunctors ?u @ [ConnForceCloseInLoop n]\<rparr>)) ?v"
    using queueInLoop_still[of "ConnForceCloseInLoop n" ?u S] by (simp add: acquire_opt_def)
  ultimately have "keeps G L B ?v" using safe_still by blast
  then show ?thesis by (simp add: sh fc)
qed

lemma onConnection_safe:
  assumes safe: "keeps G L B w" and alive: "0 < refs w n"
  shows "safe_result G L B (onConnection S n w)"
proof -
  let ?w1 = "w\<lparr>numConnected := numConnected w + 1\<rparr>"
  have n: "n < next_conn w" using safe alive by (rule safe_exists)
  have w1: "keeps G L B ?w1" using safe by (rule safe_numConnected)
  moreover have "safe_result G L B (ebind (shutdown S n ?w1) (forceClose S n))" if "state (conn_heap w n) = kConnected"
    using w1 alive that by (intro close_again_safe) simp_all
  moreover have "keeps G L B (?w1\<lparr>flag := False, hostPtr := Some n\<rparr>)" if "state (conn_heap w n) = kConnected"
    using w1 n that by (intro safe_hostPtr) simp_all
  moreover have "keeps G L B (w\<lparr>numConnected := numConnected w - 1\<rparr>)" using safe by (rule safe_numConnected)
  ultimately show ?thesis
    unfolding onConnection_def connected_def Let_def
    by (simp only: safely_simps server_fault_simps HOL.simp_thms myserver_st.simps split: if_split) blast
qed

lemma onMessage_safe:
  assumes S: "documented_calls S" and safe: "keeps G L B w"
  shows "safe_result G L B (onMessage S n bs w)"
proof (cases "expired (hostPtr w) w")
  case False
  then obtain h where h: "hostPtr w = Some h" by (cases "hostPtr w") (simp_all add: expired_def)
  have lt: "h < next_conn w" using safeD(11)[OF safe h] by simp
  with safe have "keeps G (add_mset h L) B (acquire h w)" by (rule safe_acquire)
  moreover have "h < next_conn (acquire h w)" using lt by (simp add: acquire_def)
  moreover have "length greeting < 2 ^ 63" by (simp add: greeting_def)
  ultimately have "safe_result G (add_mset h L) B (send S h greeting (acquire h w))" by (rule send_safe)
  then show ?thesis
    using False h by (simp add: onMessage_def) (erule safely_ebind, simp add: safe_release)
qed (simp add: onMessage_def)

section \<open>Closing, establishing, destroying\<close>

lemma callback_safe:
  assumes "keeps G L B w" "0 < refs w n" "n < next_conn w"
  shows "safe_result G L B (call_fn (connectionCallback (conn_heap w n)) (\<lambda>u. on_connection (my_handlers S) u n w))"
  using onConnection_safe[OF assms(1,2)] slotsD(1)[OF assms(1,3)]
  by (simp add: call_fn_def my_handlers_def my_on_connection_def)

lemma removeConnection_safe:
  assumes "keeps G L B w" "n < next_conn w" shows "safe_result G L B (removeConnection S n w)"
proof -
  have "keeps G L B (queueInLoop S task_owner (ServerRemoveConnectionInLoop n) w)"
    using assms by (intro safe_queue_functor) simp_all
  then show ?thesis using not_in_loop[OF assms(1)] by (simp add: removeConnection_def runInLoop_def)
qed

lemma handleClose_safe:
  fixes w :: "('o, 'z) world"
  assumes safe: "keeps G L B w" and alive: "0 < refs w n"
  shows "safe_result G L B (handleClose S (my_handlers S) n w)"
proof (cases "state (conn_heap w n) = kConnected \<or> state (conn_heap w n) = kDisconnecting")
  case False
  then show ?thesis using safe by (simp add: handleClose_def loop_op_defs)
next
  case True
  let ?w1 = "upd_conn n (setState kDisconnected) w"
  let ?w2 = "disableAll S (channel_of (conn_heap ?w1 n)) ?w1"
  have w1: "keeps G L B ?w1" using safe True by (intro safe_setState) auto
  have s2: "still ?w1 ?w2" by (intro still_intros)
  have w2: "keeps G L B ?w2" using s2 w1 by (rule safe_still)
  have a2: "0 < refs ?w2 n" using s2 alive by (simp add: still_def upd_conn_def)
  have "safe_result G L B (with_shared S n
      (\<lambda>w3. ebind (call_fn (connectionCallback (conn_heap w3 n)) (\<lambda>u. on_connection (my_handlers S) u n w3))
        (\<lambda>w4. call_fn (conn_closeCallback (conn_heap w4 n)) (\<lambda>u. on_close (my_handlers S) u n w4))) ?w2)"
  proof (rule with_shared_safe[OF w2 a2])
    fix u :: "('o, 'z) world" assume u: "keeps G (add_mset n L) B u" "n < next_conn u"
    have "safe_result G (add_mset n L) B (call_fn (conn_closeCallback (conn_heap v n)) (\<lambda>cb. on_close (my_handlers S) cb n v))"
      if v: "keeps G (add_mset n L) B v" for v :: "('o, 'z) world"
    proof -
      have n: "n < next_conn v" using safeD(2)[OF v, of n] by simp
      show ?thesis
        using slotsD(3)[OF v n] removeConnection_safe[OF v n]
        by (simp add: call_fn_def my_handlers_def my_on_close_def)
    qed
    moreover have "0 < refs u n" using u(1) by (rule safe_alive) simp
    ultimately show "safe_result G (add_mset n L) B
        (ebind (call_fn (connectionCallback (conn_heap u n)) (\<lambda>cb. on_connection (my_handlers S) cb n u))
          (\<lambda>w4. call_fn (conn_closeCallback (conn_heap w4 n)) (\<lambda>cb. on_close (my_handlers S) cb n w4)))"
      using callback_safe[OF u(1) _ u(2)] by (blast intro: safely_ebind)
  qed
  then show ?thesis using True unfolding handleClose_def loop_op_defs Let_def by simp
qed

lemma connectEstablished_safe:
  assumes safe: "safe Map.empty {} L (ConnConnectEstablished n # B) w" and alive: "0 < refs w n"
  shows "safe_result Map.empty L B (connectEstablished S (my_handlers S) n w)"
proof -
  let ?w1 = "upd_conn n (setState kConnected) w" let ?c = "channel_of (conn_heap ?w1 n)"
  let ?w2 = "upd_chan ?c (channel_tie n) ?w1" let ?w3 = "enableReading S ?c ?w2"
  have w2: "keeps Map.empty L B ?w2" using safe_establish(3)[OF safe] by simp
  have s3: "still ?w2 ?w3" by (intro still_intros)
  have w3: "keeps Map.empty L B ?w3" using s3 w2 by (rule safe_still)
  have "0 < refs ?w3 n" using s3 alive by (simp add: still_def upd_conn_def)
  then have "safe_result Map.empty L B (with_shared S n
      (\<lambda>v. call_fn (connectionCallback (conn_heap v n)) (\<lambda>u. on_connection (my_handlers S) u n v)) ?w3)"
    by (rule with_shared_safe[OF w3]) (rule callback_safe, auto intro: safe_alive)
  then show ?thesis
    using safe_establish(1)[OF safe] alive by (simp add: connectEstablished_def loop_op_defs Let_def)
qed

lemma connectDestroyed_safe:
  assumes safe: "keeps G L B w" and alive: "0 < refs w n"
  shows "safe_result G L B (connectDestroyed S (my_handlers S) n w)"
proof -
  have rm: "keeps G L B (channel_remove S c u)" if "keeps G L B u" for c u
  proof -
    have "still u (channel_remove S c u)" by (intro still_intros)
    with that safe_still show ?thesis by blast
  qed
  show ?thesis
  proof (cases "state (conn_heap w n) = kConnected")
    case False
    then show ?thesis using rm[OF safe] by (simp add: connectDestroyed_def loop_op_defs)
  next
    case True
    let ?w1 = "upd_conn n (setState kDisconnected) w" let ?w2 = "disableAll S (channel_of (conn_heap w n)) ?w1"
    have w1: "keeps G L B ?w1" using safe True by (intro safe_setState) auto
    have s2: "still ?w1 ?w2" by (intro still_intros)
    have w2: "keeps G L B ?w2" using s2 w1 by (rule safe_still)
    have "0 < refs ?w2 n" using s2 alive by (simp add: still_def upd_conn_def)
    then have "safe_result G L B (with_shared S n
        (\<lambda>v. call_fn (connectionCallback (conn_heap v n)) (\<lambda>u. on_connection (my_handlers S) u n v)) ?w2)"
      by (rule with_shared_safe[OF w2]) (rule callback_safe, auto intro: safe_alive)
    then show ?thesis
      using True rm by (simp add: connectDestroyed_def loop_op_defs) (erule safely_ebind, simp)
  qed
qed

lemma handleRead_safe:
  fixes w :: "('o, 'z) world"
  assumes S: "documented_calls S" and safe: "keeps G L B w" and alive: "0 < refs w n"
  shows "safe_result G L B (handleRead S (my_handlers S) n w)"
proof -
  obtain r bs e u where rd: "sock_read S (fd (conn_channel n w)) 1024 w = ((r, bs, e), u)" by (metis surj_pair)
  have "still w (snd (sock_read S (fd (conn_channel n w)) 1024 w))" by (intro still_intros)
  then have st: "still w u" by (simp add: rd)
  then have u: "keeps G L B u" using safe by (rule safe_still)
  have a: "0 < refs u n" using st alive by (simp add: still_def)
  have "safe_result G L B (with_shared S n
      (\<lambda>v. call_fn (messageCallback (conn_heap v n)) (\<lambda>cb. on_message (my_handlers S) cb n bs' v)) u)" for bs'
  proof (rule with_shared_safe[OF u a])
    fix v :: "('o, 'z) world" assume v: "keeps G (add_mset n L) B v" "n < next_conn v"
    show "safe_result G (add_mset n L) B (call_fn (messageCallback (conn_heap v n)) (\<lambda>cb. on_message (my_handlers S) cb n bs' v))"
      using slotsD(2)[OF v] onMessage_safe[OF S v(1)] by (simp add: call_fn_def my_handlers_def my_on_message_def)
  qed
  then show ?thesis
    using handleClose_safe[OF u a] u by (simp add: handleRead_def loop_op_defs rd handleError_def)
qed

section \<open>A new connection\<close>

text \<open>The new connection owns a new channel; its \<open>connectEstablished\<close> is still to be queued.\<close>

lemma safe_new:
  assumes safe: "safe G {} L B w" and n: "n = next_conn w" and c: "c = next_chan w"
    and e: "refs v = refs w" "pendingFunctors v = pendingFunctors w" "threadId v = threadId w"
      "thisThread v = thisThread w" "net_st.more v = net_st.more w" "next_conn v = Suc (next_conn w)"
      "next_chan v = Suc (next_chan w)" "conn_heap v = (conn_heap w)(n := cn)" "chan_heap v = (chan_heap w)(c := ch)"
    and cn: "channel_of cn = c" "state cn = kConnecting" "buffer_inv (outputBuffer cn)" "highWaterMarkCallback cn = None"
    and ch: "channel_tasks ch = conn_tasks n"
  shows "safe G {n} L (ConnConnectEstablished n # B) v"
proof -
  note D = safeD[OF safe] and M = world_more_eqD[OF e(5)]
  have h: "held v = held w" by (simp add: held_def e M)
  have old: "m \<noteq> n" if "m < next_conn w" for m using that n by simp
  show ?thesis
  proof (rule safeI)
    show "establishing (ConnConnectEstablished n # B) v"
      unfolding establishing_def
    proof
      fix m show "count (mset ((ConnConnectEstablished n # B) @ pendingFunctors v)) (ConnConnectEstablished m) =
          (if m < next_conn v \<and> state (conn_heap v m) = kConnecting then 1 else 0)"
        using spec[OF D(5)[unfolded establishing_def], of m] n cn(2) by (auto simp: e split: if_splits)
    qed
    show "conn_ok v m" if "m < next_conn v" for m
    proof (cases "m = n")
      case True
      then show ?thesis using cn ch by (simp add: conn_ok_def conn_channel_def e c)
    next
      case False
      then have "conn_ok w m" using D(6)[of m] that n by (simp add: e)
      then show ?thesis using False c by (auto simp: conn_ok_def conn_channel_def e)
    qed
    show "conn_slots (conn_heap v m)" if "m < next_conn v" "m \<notin> {n}" for m
      using D(7)[of m] that n by (simp add: e)
    show "channel_ok v d" for d
    proof (cases "d = c")
      case True
      then show ?thesis using n cn ch by (auto simp: channel_ok_def e c)
    next
      case False
      then have d: "chan_heap v d = chan_heap w d" by (simp add: e)
      have "conn_heap v m = conn_heap w m" if "m < next_conn w" for m using old[OF that] by (simp add: e)
      then show ?thesis using D(8)[of d] unfolding channel_ok_def d e(6,7) by (metis less_SucI)
    qed
    show "ties G v" using D(12) c by (fastforce simp: ties_def e)
    show "m < next_conn v" if "m \<in># held v + L" for m using D(2)[of m] that by (simp add: h e)
    show "k < next_conn v \<and> state (conn_heap v k) \<noteq> kConnecting" if "hostPtr v = Some k" for k
      using D(11)[of k] that n by (auto simp: M e)
  qed (use D in \<open>simp_all add: h e M\<close>)
qed

lemma new_connection_safe:
  assumes safe: "safe G {} L B w"
  shows "safely server_fault (new_connection nm sockfd local peer w)
           (\<lambda>(n, v). n = next_conn w \<and> safe G {n} L (ConnConnectEstablished n # B) v)"
proof -
  obtain b where b: "new_buffer kInitialSize = Inr b" "buffer_inv b"
    using new_buffer_ok[of kInitialSize] by (auto simp: kInitialSize_def)
  let ?n = "next_conn w" and ?c = "next_chan w"
  let ?cn = "\<lparr>channel_of = ?c, socket_of = sockfd, conn_name = nm, localAddr = local,
      peerAddr = peer, state = kConnecting, connectionCallback = None, messageCallback = None,
      writeCompleteCallback = None, highWaterMarkCallback = None, conn_closeCallback = None,
      highWaterMark = 64 * 1024 * 1024, inputBuffer = b, outputBuffer = b\<rparr>"
  let ?ch = "(setErrorCallback (ConnHandleError ?n) \<circ> setCloseCallback (ConnHandleClose ?n) \<circ>
      setWriteCallback (ConnHandleWrite ?n) \<circ> setReadCallback (ConnHandleRead ?n)) (new_channel sockfd)"
  obtain v where v: "new_connection nm sockfd local peer w = Inr (?n, v)"
    "refs v = refs w" "pendingFunctors v = pendingFunctors w" "threadId v = threadId w"
    "thisThread v = thisThread w" "net_st.more v = net_st.more w" "next_conn v = Suc (next_conn w)"
    "next_chan v = Suc (next_chan w)" "conn_heap v = (conn_heap w)(?n := ?cn)" "chan_heap v = (chan_heap w)(?c := ?ch)"
    using b(1) by (simp add: new_connection_def alloc_channel_def Let_def upd_chan_def)
  have "channel_tasks ?ch = conn_tasks ?n"
    by (auto simp: channel_tasks_def conn_tasks_def callback_defs)
  then have "safe G {?n} L (ConnConnectEstablished ?n # B) v"
    by (intro safe_new[OF safe refl refl v(2-)]) (simp_all add: b(2))
  then show ?thesis by (simp add: v(1))
qed

lemma safe_filled: "safe G X L B w \<Longrightarrow> (\<And>n. n \<in> X \<Longrightarrow> conn_slots (conn_heap w n)) \<Longrightarrow> safe G {} L B w"
  unfolding safe_def by blast

lemma safe_nextConnId: "safe G X L B w \<Longrightarrow> safe G X L B (w\<lparr>nextConnId := k\<rparr>)"
  by (simp add: safe_def held_def establishing_def conn_ok_def channel_ok_def conn_channel_def server_slots_def ties_def)

text \<open>From the constructor to the queued \<open>connectEstablished\<close>.\<close>

lemma establishing_exists:
  assumes "safe G X L (ConnConnectEstablished n # B) w" shows "n < next_conn w"
  using spec[OF safeD(5)[OF assms, unfolded establishing_def], of n] by (auto split: if_splits)

lemma register_safe:
  fixes w :: "('o, 'z) world" and S :: "'o os_calls" and nm :: string
  assumes safe: "safe G {n} L (ConnConnectEstablished n # B) w"
  defines "u \<equiv> store_connection S nm n (acquire n w)"
  defines "f \<equiv> setConnCloseCallback (Some ServerRemoveConnection) \<circ>
      setWriteCompleteCallback (server_writeCompleteCallback u) \<circ>
      setMessageCallback (server_messageCallback u) \<circ> setConnectionCallback (server_connectionCallback u)"
  shows "safe_result G L B (ebind (runInLoop S task_owner (ConnConnectEstablished n) run (upd_conn n f u))
           (\<lambda>v. Inr (release (conn_dtor S) n v)))"
proof -
  let ?E = "ConnConnectEstablished n"
  have u: "safe G {n} (add_mset n L) (?E # B) u"
    unfolding u_def using safe establishing_exists[OF safe] by (intro safe_store safe_acquire)
  have slots: "server_connectionCallback u = Some MyServerOnConnection" "server_messageCallback u = Some MyServerOnMessage"
    "server_writeCompleteCallback u = None"
    using safeD(9)[OF u] by (simp_all add: server_slots_def)
  let ?w6 = "upd_conn n f u"
  have "safe G {n} (add_mset n L) (?E # B) ?w6"
  proof (rule safe_upd_conn[OF u])
    have "state cn = kConnecting \<longleftrightarrow> state (f cn) = kConnecting" for cn
      by (simp add: f_def setConnCloseCallback_def setWriteCompleteCallback_def setMessageCallback_def setConnectionCallback_def)
    then show "(state (f (conn_heap u n)) = kConnecting) = (state (conn_heap u n) = kConnecting)" by simp
  qed (simp_all add: f_def slots conn_slots_def setConnCloseCallback_def setWriteCompleteCallback_def
        setMessageCallback_def setConnectionCallback_def)
  then have "safe G {} (add_mset n L) (?E # B) ?w6"
    by (rule safe_filled) (simp add: f_def slots conn_slots_def setConnCloseCallback_def
        setWriteCompleteCallback_def setMessageCallback_def setConnectionCallback_def)
  moreover from this have "n < next_conn ?w6" using safeD(2) by fastforce
  ultimately have "keeps G (add_mset n L) B (queueInLoop S task_owner ?E ?w6)" "\<not> isInLoopThread ?w6"
    by (intro safe_queueInLoop[where us = "[?E]"] not_in_loop; simp)+
  then show ?thesis by (simp add: runInLoop_def safe_release)
qed

lemma newConnection_safe:
  fixes w :: "('o, 'z) world"
  assumes safe: "keeps G L B w" and peer: "sin_family peer = AF_INET"
  shows "safe_result G L B (newConnection S (my_handlers S) sockfd peer w)"
proof (cases "nextConnId w = int_max")
  case True
  then show ?thesis by (simp add: newConnection_def assertInLoopThread_def Let_def)
next
  case False
  let ?w1 = "w\<lparr>nextConnId := nextConnId w + 1\<rparr>"
  let ?g = "getLocalAddr S sockfd ?w1"
  let ?nm = "server_name w @ connection_suffix (hostport w) (nextConnId w)"
  have s2: "still ?w1 (snd ?g)" by (intro still_intros)
  have "keeps G L B ?w1" using safe by (rule safe_nextConnId)
  with s2 have "keeps G L B (snd ?g)" by (rule safe_still)
  note new = new_connection_safe[OF this, of ?nm sockfd "fst ?g" peer]
  have new': "safely server_fault (new_connection ?nm sockfd (fst ?g) peer (snd ?g))
      (\<lambda>p. safe G {fst p} L (ConnConnectEstablished (fst p) # B) (snd p))"
    using new by (rule safely_mono) auto
  obtain hp where hp: "InetAddress_toIpPort big_endian_host peer = Inr hp" using toIpPort_full[OF peer] by blast
  show ?thesis
    unfolding newConnection_def assertInLoopThread_def Let_def hp ebind_Inr case_prod_beta
    using False by (simp del: o_apply) (rule safely_ebind[OF new'], rule register_safe)
qed

section \<open>Every task\<close>

lemma acceptor_handleRead_safe:
  assumes S: "documented_calls S" and safe: "keeps G L B w"
  shows "safe_result G L B (acceptor_handleRead S (my_new_connection S) w)"
proof -
  let ?p = "InetAddress_port big_endian_host 0"
  obtain connfd peer u where ac: "Socket_Accept S (acceptSocket w) ?p w = ((connfd, peer), u)" by (metis surj_pair)
  have "still w (snd (Socket_Accept S (acceptSocket w) ?p w))" by (intro still_intros)
  then have u: "keeps G L B u" using safe safe_still by (simp add: ac) blast
  have cb: "newConnectionCallback u = Some ServerNewConnection" using safeD(9)[OF u] by (simp add: server_slots_def)
  have "sin_family peer = AF_INET" if "0 \<le> connfd"
  proof -
    let ?r = "os_accept S (acceptSocket w) (os w)"
    have "connfd = fst (fst ?r)" "peer = (if 0 \<le> connfd then snd (fst ?r) else ?p)"
      using ac by (auto simp: Socket_Accept_def sock_accept_def sys_eqs setSockAddr_def case_prod_beta)
    with S that show ?thesis by (simp add: documented_calls_def)
  qed
  then have "safe_result G L B (my_new_connection S ServerNewConnection connfd peer u)" if "0 \<le> connfd"
    using newConnection_safe[OF u] that by (simp add: my_new_connection_def)
  then show ?thesis using u by (simp add: acceptor_handleRead_def ac cb)
qed

lemma functor_safe:
  assumes S: "documented_calls S" and safe: "safe Map.empty {} L (t # B) w" and t: "queueable t"
    and alive: "\<And>n. conn_of t = Some n \<Longrightarrow> 0 < refs w n"
  shows "safe_result Map.empty L B (run_task S t w)"
proof (cases "\<exists>n. t = ConnConnectEstablished n")
  case True
  then show ?thesis using connectEstablished_safe safe alive by (auto simp: on_alive_def)
next
  case False
  then have safe': "keeps Map.empty L B w" using safe by (auto simp: safe_skip)
  show ?thesis
  proof (cases t)
    case AcceptorListen
    have "still w (acceptor_listen S w)" unfolding acceptor_listen_def Let_def by (intro still_intros)
    with AcceptorListen show ?thesis using safe_still safe' by auto
  next
    case (ConnShutdownInLoop n)
    have "still w (shutdownInLoop S n w)" by (intro still_intros)
    with ConnShutdownInLoop show ?thesis using safe_still safe' alive by (auto simp: on_alive_def)
  next
    case (ConnForceCloseInLoop n)
    then show ?thesis using handleClose_safe[OF safe'] alive safe'
      by (auto simp: on_alive_def forceCloseInLoop_def loop_op_defs)
  next
    case (ConnConnectDestroyed n)
    then show ?thesis using connectDestroyed_safe[OF safe'] alive by (auto simp: on_alive_def)
  next
    case (ServerRemoveConnectionInLoop n)
    then have "n < next_conn w" using safe_exists[OF safe'] alive by simp
    then show ?thesis using safe_removeConnectionInLoop[OF safe'] ServerRemoveConnectionInLoop by simp
  qed (use t False in simp_all)
qed

lemma callback_task_safe:
  assumes S: "documented_calls S" and safe: "keeps G L B w" and t: "is_callback t"
    and alive: "\<And>n. conn_of t = Some n \<Longrightarrow> 0 < refs w n"
  shows "safe_result G L B (run_task S t w)"
proof (cases t)
  case LoopHandleRead
  have "still w (loop_handleRead S w)" by (intro still_intros)
  with LoopHandleRead show ?thesis using safe_still safe by auto
next
  case AcceptorHandleRead
  then show ?thesis using acceptor_handleRead_safe[OF S safe] by simp
next
  case (ConnHandleRead n)
  then show ?thesis using handleRead_safe[OF S safe] alive by (auto simp: on_alive_def)
next
  case (ConnHandleWrite n)
  then have "n < next_conn w" using safe_exists[OF safe] alive by simp
  then show ?thesis using handleWrite_safe[OF S safe] alive ConnHandleWrite by (auto simp: on_alive_def)
next
  case (ConnHandleClose n)
  then show ?thesis using handleClose_safe[OF safe] alive by (auto simp: on_alive_def)
next
  case (ConnHandleError n)
  then show ?thesis using safe alive by (auto simp: on_alive_def handleError_def)
qed (use t in simp_all)

text \<open>The same, with the tie of one channel held fixed.\<close>

lemma safe_pin:
  assumes "safe Map.empty X L B w" "c < next_chan w"
  shows "safe [c \<mapsto> (tied (chan_heap w c), tie (chan_heap w c))] X L B w"
  using assms by (simp add: safe_def ties_def)

lemma safe_unpin:
  assumes "safe [c \<mapsto> (a, b)] X L B w"
  shows "safe Map.empty X L B w \<and> tied (chan_heap w c) = a \<and> tie (chan_heap w c) = b"
  using assms by (simp add: safe_def ties_def)

lemma callback_safe_tied:
  assumes S: "documented_calls S" and safe: "keeps Map.empty L [] w" and t: "t \<in> channel_tasks (chan_heap w c)"
    and cb: "is_callback t" and alive: "\<And>n. conn_of t = Some n \<Longrightarrow> 0 < refs w n"
  shows "safely server_fault (run_task S t w) (\<lambda>v. keeps Map.empty L [] v \<and>
           tied (chan_heap v c) = tied (chan_heap w c) \<and> tie (chan_heap v c) = tie (chan_heap w c))"
proof -
  have "c < next_chan w" using safeD(8)[OF safe, of c] t by (auto simp: channel_ok_def)
  show ?thesis
    by (rule safely_mono[OF callback_task_safe[OF S safe_pin[OF safe \<open>c < next_chan w\<close>] cb]])
      (rule alive, assumption, rule safe_unpin)
qed

end
