(* ===== verification/ServerSafety.thy ===== *)
theory ServerSafety
  imports OwnershipSteps ServerProps
begin

text \<open>
  The runs of the complete server from the point of view of memory: start-up establishes the
  ownership invariant, every iteration of the loop keeps it, and so no run uses a dead
  connection, locks an expired pointer, fails an assertion or calls an empty function
  object.
\<close>

section \<open>The loop's contract\<close>

interpretation own: owned_loop S "conn_dtor S" task_owner "run_task S"
    "\<lambda>L B w. documented_calls S \<and> safe Map.empty {} L B w" queueable is_callback conn_of server_fault
  for S
proof
  fix L B and w :: "('a, 'b) world" and t c n p a b
  assume w: "documented_calls S \<and> safe Map.empty {} L B w"
  have st: "documented_calls S \<and> safe Map.empty {} L B v" if "still w v" for v
    using w safe_still[OF that] by blast
  show "n \<in># L \<Longrightarrow> 0 < refs w n" using w safe_alive[of Map.empty "{}" L B w n] by simp
  show "0 < refs w n \<Longrightarrow> documented_calls S \<and> safe Map.empty {} (add_mset n L) B (acquire n w)"
    using w safe_acquire safe_exists by blast
  show "documented_calls S \<and> safe Map.empty {} L B (loop_poll S w)" by (rule st) (intro still_intros)
  show "documented_calls S \<and> safe Map.empty {} L B (upd_chan c (\<lambda>ch. ch\<lparr>ch_eventHandling := b\<rparr>) w)"
    by (rule st) (intro still_intros)
  show "documented_calls S \<and> safe Map.empty {} L B (w\<lparr>eventHandling := b\<rparr>)" by (rule st) (intro still_intros)
  show "documented_calls S \<and> safe Map.empty {} L B (w\<lparr>currentActiveChannel := a\<rparr>)" by (rule st) (intro still_intros)
  show "documented_calls S \<and> safe Map.empty {} L B (w\<lparr>callingPendingFunctors := b\<rparr>)" by (rule st) (intro still_intros)
next
  fix L and w :: "('a, 'b) world" and t c n
  assume w: "documented_calls S \<and> safe Map.empty {} L [] w" and t: "t \<in> channel_tasks (chan_heap w c)"
  note D = safeD[OF conjunct2[OF w]]
  have ok: "t = LoopHandleRead \<or> t = AcceptorHandleRead \<or>
      (\<exists>m<next_conn w. t \<in> conn_tasks m \<and> channel_of (conn_heap w m) = c \<and>
         (state (conn_heap w m) = kConnecting \<or> tied (chan_heap w c) \<and> tie (chan_heap w c) = Some m))"
    using D(8)[of c] t by (auto simp: channel_ok_def)
  then show "is_callback t" by (auto simp: conn_tasks_def)
  show "tied (chan_heap w c) \<and> tie (chan_heap w c) = Some n \<or> 0 < refs w n" if n: "conn_of t = Some n"
  proof (cases "state (conn_heap w n) = kConnecting \<and> n < next_conn w")
    case False
    with ok n show ?thesis by (auto simp: conn_tasks_def)
  next
    case True
    then have "ConnConnectEstablished n \<in> set (pendingFunctors w)"
      using spec[OF D(5)[unfolded establishing_def], of n]
      by (metis append_Nil count_mset_0_iff zero_neq_one)
    then have "n \<in># held w" using owners_member[of _ _ task_owner n] by (simp add: held_def)
    then show ?thesis using D(1)[of n] by simp
  qed
  show "(\<And>n. conn_of t = Some n \<Longrightarrow> 0 < refs w n) \<Longrightarrow> is_callback t \<Longrightarrow> safely server_fault (run_task S t w)
      (\<lambda>v. (documented_calls S \<and> safe Map.empty {} L [] v) \<and> tied (chan_heap v c) = tied (chan_heap w c) \<and>
        tie (chan_heap v c) = tie (chan_heap w c))"
    using callback_safe_tied[of S L w t c] w t by simp
next
  fix L B and w :: "('a, 'b) world" and t n b
  show "documented_calls S \<and> safe Map.empty {} L (t # B) w \<Longrightarrow> queueable t \<Longrightarrow>
      (\<And>n. conn_of t = Some n \<Longrightarrow> 0 < refs w n) \<Longrightarrow>
      safely server_fault (run_task S t w) (\<lambda>v. documented_calls S \<and> safe Map.empty {} L B v)"
    using functor_safe[of S L t B w] by simp
  show "documented_calls S \<and> safe Map.empty {} (add_mset n L) [] w \<Longrightarrow>
      documented_calls S \<and> safe Map.empty {} L [] (release (conn_dtor S) n w)"
    using safe_release by blast
next
  fix w :: "('a, 'b) world" and t n b
  assume w: "documented_calls S \<and> safe Map.empty {} {#} [] w"
  note D = safeD[OF conjunct2[OF w]]
  show "t \<in> set (pendingFunctors w) \<Longrightarrow> queueable t" using D(4) by (simp add: queue_ok_def)
  show "t \<in> set (pendingFunctors w) \<Longrightarrow> conn_of t = Some n \<Longrightarrow> n \<in># owners task_owner (pendingFunctors w)"
    using D(4) by (simp add: queue_ok_def)
  let ?v = "w\<lparr>callingPendingFunctors := b, pendingFunctors := []\<rparr>"
  have e: "conn_ok ?v = conn_ok w" "channel_ok ?v = channel_ok w" "establishing (pendingFunctors w) ?v = establishing [] w"
    "held ?v + owners task_owner (pendingFunctors w) = held w + {#}" "server_slots ?v = server_slots w"
    by (simp_all add: fun_eq_iff conn_ok_def channel_ok_def conn_channel_def establishing_def held_def server_slots_def)
  have "safe Map.empty {} (owners task_owner (pendingFunctors w)) (pendingFunctors w) ?v"
    using D unfolding safe_def e by (simp add: ties_def queue_ok_def) blast
  then show "documented_calls S \<and> safe Map.empty {} (owners task_owner (pendingFunctors w)) (pendingFunctors w) ?v"
    using w by blast
qed

section \<open>Start-up\<close>

text \<open>Until the loop thread starts there are no connections, and the two channels call back the loop and
  the acceptor.\<close>

definition starting :: "('o, 'z) net_st_scheme \<Rightarrow> bool" where
  "starting w \<longleftrightarrow> refs w = (\<lambda>_. 0) \<and> pendingFunctors w = [] \<and> next_conn w = 0 \<and>
     threadId w = 0 \<and> thisThread w = 0 \<and>
     (\<forall>c. \<forall>t\<in>channel_tasks (chan_heap w c). c < next_chan w \<and> t \<in> {LoopHandleRead, AcceptorHandleRead})"

lemma starting_still:
  assumes "still w v" "starting w" shows "starting v"
proof -
  have "channel_tasks (chan_heap v c) = channel_tasks (chan_heap w c)" for c
    using assms(1) bindingD[of "chan_heap v c" "chan_heap w c"] by (simp add: still_def)
  then show ?thesis using assms by (simp add: still_def starting_def)
qed

lemma channel_tasks_new [simp]: "channel_tasks (new_channel s) = {}"
  by (simp add: channel_tasks_def new_channel_def)

lemma starting_alloc: "starting w \<Longrightarrow> starting (snd (alloc_channel s w)) \<and>
    fst (alloc_channel s w) < next_chan (snd (alloc_channel s w))"
  by (auto simp: starting_def alloc_channel_def intro: less_SucI)

lemma starting_callback:
  "starting w \<Longrightarrow> c < next_chan w \<Longrightarrow> t \<in> {LoopHandleRead, AcceptorHandleRead} \<Longrightarrow>
    starting (upd_chan c (setReadCallback t) w)"
  by (auto simp: starting_def upd_chan_def channel_tasks_def setReadCallback_def split: if_splits)

lemma starting_more:
  "starting w \<Longrightarrow> starting (w\<lparr>acceptSocket := i, acceptChannel := c, newConnectionCallback := cb\<rparr>)"
  by (simp add: starting_def)

lemma starting_loop_new:
  assumes "loop_new S LoopHandleRead (initial_world k) = Inr v"
  shows "starting v"
proof -
  obtain r u where u: "createEventfd S (initial_world k) = Inr (r, u)" using assms by (auto simp: loop_new_def ebind_eq_Inr)
  let ?u = "u\<lparr>quit := False, eventHandling := False, callingPendingFunctors := False, wakeupFd := r,
              threadId := thisThread u, activeChannels := [], currentActiveChannel := None, pendingFunctors := []\<rparr>"
  have "still (initial_world k) u"
    using u by (auto simp: createEventfd_def sys_eqs still_log_call split: if_splits)
  then have "refs u = (\<lambda>_. 0)" "next_conn u = 0" "thisThread u = 0" "channel_tasks (chan_heap u c) = {}" for c
    using bindingD[of "chan_heap u c" "chan_heap (initial_world k) c"]
    by (simp_all add: still_def) (simp_all add: initial_world_def channel_tasks_def new_channel_def)
  then have "starting ?u" by (simp add: starting_def)
  then have w3: "starting (snd (alloc_channel r ?u))" using starting_alloc by blast
  have "still x (poller_new S x)" for x :: "'a myserver_st"
    by (simp add: poller_new_def sys_eqs case_prod_beta) (intro still_intros)
  from starting_alloc[OF starting_still[OF this w3], of r]
  obtain c w5 where w5: "alloc_channel r (poller_new S (snd (alloc_channel r ?u))) = (c, w5)"
    "starting w5" "c < next_chan w5" by (metis prod.collapse)
  have "still w5 (w5\<lparr>wakeupChannel := c\<rparr>)" by (intro still_intros)
  then have "starting (upd_chan c (setReadCallback LoopHandleRead) (w5\<lparr>wakeupChannel := c\<rparr>))"
    using w5(2,3) starting_still by (intro starting_callback) auto
  moreover have "v = enableReading S c (upd_chan c (setReadCallback LoopHandleRead) (w5\<lparr>wakeupChannel := c\<rparr>))"
    using assms u w5(1) by (auto simp: loop_new_def Let_def)
  ultimately show ?thesis using starting_still by (metis still_channel_ops(2) still_refl)
qed

lemma starting_acceptor_new:
  fixes w :: "('o, 'z) world"
  assumes "starting w" shows "starting (acceptor_new S addr b w)"
proof -
  let ?s = "createNonblockingOrDie S w"
  have "still w (snd ?s)" by (intro still_intros)
  with assms have "starting (snd ?s)" using starting_still by blast
  from starting_alloc[OF this, of "fst ?s"]
  obtain c u where u: "alloc_channel (fst ?s) (snd ?s) = (c, u)" "starting u" "c < next_chan u" by (metis prod.collapse)
  let ?v = "u\<lparr>acceptSocket := fst ?s, acceptChannel := c, newConnectionCallback := None\<rparr>"
  let ?x = "Socket_Bind S (fst ?s) addr (setReusePort S (fst ?s) b (setReuseAddr S (fst ?s) True ?v))"
  have x: "still ?v ?x" by (intro still_intros)
  have "starting ?v" using u(2) by (rule starting_more)
  with x have "starting ?x" by (rule starting_still)
  moreover have "c < next_chan ?x" using x u(3) by (simp add: still_def)
  ultimately have "starting (upd_chan c (setReadCallback AcceptorHandleRead) ?x)" by (rule starting_callback) simp
  then show ?thesis by (simp add: acceptor_new_def case_prod_beta Let_def u(1) del: upd_chan_def)
qed

lemma starting_server:
  fixes w :: "'o myserver_st"
  assumes "starting w" and "myserver_new S addr m w = Inr v"
  shows "starting v \<and> connections v = [] \<and> hostPtr v = None \<and> server_slots v"
proof -
  have a: "starting (acceptor_new S addr True w)" using assms(1) by (rule starting_acceptor_new)
  show ?thesis
    using assms(2) a
    by (auto simp: myserver_new_def server_new_def ebind_eq_Inr Let_def setNewConnectionCallback_def
        server_setMessageCallback_def server_setConnectionCallback_def starting_def server_slots_def) blast
qed

lemma boot_safe:
  assumes "boot S k = Inr w"
  shows "safe Map.empty {} {#} [] (w\<lparr>thisThread := 1, quit := False\<rparr>)"
proof -
  obtain w1 w2 where w1: "loop_new S LoopHandleRead (initial_world k) = Inr w1"
    and w2: "myserver_new S (InetAddress_port big_endian_host 55266) 2 w1 = Inr w2" and w: "myserver_start S w2 = Inr w"
    using assms by (auto simp: boot_def ebind_eq_Inr)
  have s2: "starting w2" "connections w2 = []" "hostPtr w2 = None" "server_slots w2"
    using starting_server[OF starting_loop_new[OF w1] w2] by simp_all
  then have "isInLoopThread w2" by (simp add: starting_def isInLoopThread_def)
  then have "w = acceptor_listen S w2" using w by (simp add: myserver_start_def server_start_def runInLoop_def)
  then have st: "still w2 w" unfolding acceptor_listen_def Let_def by simp (intro still_intros)
  have m: "connections w = []" "hostPtr w = None" "server_slots w"
    using st world_more_eqD[of w w2] s2 by (simp_all add: still_def)
  have "starting w" using st s2(1) by (rule starting_still)
  then show ?thesis
    using m by (intro safeI) (auto simp: starting_def held_def queue_ok_def establishing_def channel_ok_def
        conn_ok_def server_slots_def ties_def)
qed

section \<open>Runs\<close>

lemma reachable_safe:
  assumes S: "documented_calls S" and "reachable S k w" shows "safe Map.empty {} {#} [] w"
  using assms(2)
proof induction
  case (enter w)
  then show ?case by (rule boot_safe)
next
  case (iterate w v)
  with own.body_safe[of S w] S show ?case by (simp add: server_iteration_def)
qed

lemma iteration_faults:
  assumes "documented_calls S" "reachable S k w" "server_iteration S w = Inl e" shows "server_fault e"
  using own.body_safe[of S w] reachable_safe[OF assms(1,2)] assms by (simp add: server_iteration_def)

section \<open>Properties\<close>

lemma count_owners: "count (owners own ts) n = length (filter (\<lambda>t. own t = Some n) ts)"
  by (induction ts) (auto split: option.split)

lemma demo_documented: "documented_calls demo_kernel"
  by (simp add: documented_calls_def demo_kernel_simps InetAddress_port_def)

text \<open>C3: Memory safety of the reactor.  In every state the loop thread reaches, whatever events the kernel
  reports and however clients connect, send and hang up, an iteration of the loop completes or
  ends with one of three faults: the dereference of the lost host, a full vector, an overflow
  of a counter.  No handler runs on a destroyed connection, no \<open>shared_from_this\<close> fails, no empty
  function object is called, no assertion fails and no address is printed out of bounds.\<close>
theorem reactor_memory_safe:
  assumes "documented_calls S" and "reachable S k w"
  shows "(\<exists>v. server_iteration S w = Inr v) \<or>
         server_iteration S w \<in> {Inl Null_dereference, Inl Length_error, Inl Signed_overflow}"
  using iteration_faults[OF assms] by (cases "server_iteration S w") (auto simp: server_fault_def)

lemma reactor_memory_safe_witness:
  "\<exists>w. reachable demo_kernel 0 w \<and> server_iteration demo_kernel w = Inl Null_dereference \<and>
     server_iteration demo_kernel w \<in> {Inl Null_dereference, Inl Length_error, Inl Signed_overflow}"
proof -
  obtain w where w: "reachable demo_kernel 0 w" "server_iteration demo_kernel w = Inl Null_dereference"
    using host_loss_run by blast
  from reactor_memory_safe[OF demo_documented w(1)] w show ?thesis by auto
qed

text \<open>C5: Shared ownership is exact.  Between two iterations the reference count of every connection is the
  number of entries of the server's map that hold it plus the number of queued functors that
  own it: no owner is dangling, and a connection that neither the map nor the queue holds has
  been destroyed.\<close>
theorem refs_count_owners:
  assumes "documented_calls S" and "reachable S k w"
  shows "refs w n = count_list (map snd (connections w)) n +
           length (filter (\<lambda>t. task_owner t = Some n) (pendingFunctors w))"
  using safeD(1)[OF reachable_safe[OF assms], of n]
  by (simp add: held_def count_owners count_mset del: mset_map)

lemma refs_count_owners_witness:
  "\<exists>w. reachable demo_kernel 0 w \<and> pendingFunctors w = [ConnConnectDestroyed 0] \<and>
     refs w 0 = Suc (count_list (map snd (connections w)) 0)"
proof -
  obtain w where w: "demo_run 2 = Inr w" "pendingFunctors w = [ConnConnectDestroyed 0]" using demo_state2 by blast
  from refs_count_owners[OF demo_documented demo_reachable[OF w(1)], of 0] w demo_reachable[OF w(1)]
  show ?thesis by auto
qed

end
