(* ===== verification/Retirement.thy ===== *)
theory Retirement
  imports ServerSafety
begin

text \<open>
  How a connection leaves the server.  A connection is open as long as the server's map holds
  it; when it is disconnected, its removal is queued, then its destruction, and then nothing
  is left.  \<open>tracked\<close> is the invariant that ties the state of each connection to the map and
  to the functors in the queue, and with it every closed connection is destroyed by the end
  of the second iteration.
\<close>

section \<open>Phases\<close>

definition mapped :: "('o, 'z) world \<Rightarrow> nat \<Rightarrow> bool" where
  "mapped w n \<longleftrightarrow> n \<in> snd ` set (connections w)"

abbreviation removals :: "task list \<Rightarrow> nat \<Rightarrow> nat" where
  "removals q n \<equiv> count_list q (ServerRemoveConnectionInLoop n)"

abbreviation destructions :: "task list \<Rightarrow> nat \<Rightarrow> nat" where
  "destructions q n \<equiv> count_list q (ConnConnectDestroyed n)"

text \<open>
  An open connection is in the map and not about to leave it.  A disconnected one is in the
  map with its removal queued, or out of it with at most its destruction queued.
\<close>

definition phased :: "task list \<Rightarrow> ('o, 'z) world \<Rightarrow> nat \<Rightarrow> bool" where
  "phased q w n \<longleftrightarrow>
     (if n < next_conn w \<and> state (conn_heap w n) \<noteq> kDisconnected
      then mapped w n \<and> removals q n = 0 \<and> destructions q n = 0
      else if mapped w n then removals q n = 1 \<and> destructions q n = 0
      else removals q n = 0 \<and> destructions q n \<le> (if n < next_conn w then 1 else 0))"

text \<open>The keys of the map are the names of its connections, made from the numbers given out so far.\<close>

definition named :: "('o, 'z) world \<Rightarrow> bool" where
  "named w \<longleftrightarrow> 1 \<le> nextConnId w \<and> nextConnId w \<le> int_max \<and> length (hostport w) \<le> 21 \<and>
     (\<forall>(k, m)\<in>set (connections w). m < next_conn w \<and> k = conn_name (conn_heap w m) \<and>
        (\<exists>i\<in>{1..<nextConnId w}. k = server_name w @ connection_suffix (hostport w) i))"

definition tracked :: "task list \<Rightarrow> ('o, 'z) world \<Rightarrow> bool" where
  "tracked B w \<longleftrightarrow> (\<forall>n. phased (B @ pendingFunctors w) w n) \<and> named w"

text \<open>\<open>snprintf\<close> never cuts these names, so different numbers give different names.\<close>

lemma suffix_inject:
  assumes hp: "length hp \<le> 21" and i: "i \<in> {1..int_max}" and j: "j \<in> {1..int_max}"
    and eq: "connection_suffix hp i = connection_suffix hp j"
  shows "i = j"
proof -
  have whole: "connection_suffix hp k = ''-'' @ hp @ ''#'' @ dec (nat k)" if "k \<in> {1..int_max}" for k
  proof -
    have "length (dec (nat k)) \<le> 10"
      using that by (intro length_dec_bound) (auto simp: int_max_def)
    then show ?thesis using hp that by (simp add: connection_suffix_def dec_int_def)
  qed
  have "dec (nat i) = dec (nat j)" using eq by (simp add: whole[OF i] whole[OF j])
  then show ?thesis using i j by (simp add: nat_eq_iff2)
qed

section \<open>Steps\<close>

text \<open>
  Most operations change neither the map nor which connections are closed; what they queue is
  no removal and no destruction, and is bound to a connection that is not closed.
\<close>

definition neutral :: "task \<Rightarrow> bool" where
  "neutral t \<longleftrightarrow> (\<forall>n. t \<noteq> ServerRemoveConnectionInLoop n \<and> t \<noteq> ConnConnectDestroyed n)"

lemma neutral_simps [simp]:
  "neutral LoopHandleRead" "neutral AcceptorListen" "neutral (ConnShutdownInLoop n)" "neutral (ConnForceCloseInLoop n)"
  "neutral (ConnConnectEstablished n)" "\<not> neutral (ServerRemoveConnectionInLoop n)" "\<not> neutral (ConnConnectDestroyed n)"
  by (simp_all add: neutral_def)

definition lasting :: "('o, 'z) world \<Rightarrow> ('o, 'z) world \<Rightarrow> bool" where
  "lasting w v \<longleftrightarrow> next_conn v = next_conn w \<and> connections v = connections w \<and> hostport v = hostport w \<and>
     server_name v = server_name w \<and> nextConnId v = nextConnId w \<and>
     (\<forall>n. conn_name (conn_heap v n) = conn_name (conn_heap w n) \<and>
          (state (conn_heap v n) = kDisconnected) = (state (conn_heap w n) = kDisconnected))"

definition living :: "('o, 'z) world \<Rightarrow> ('o, 'z) world \<Rightarrow> bool" where
  "living w v \<longleftrightarrow> lasting w v \<and> (\<exists>ts. pendingFunctors v = pendingFunctors w @ ts \<and>
     (\<forall>t\<in>set ts. neutral t \<and> (\<forall>n. conn_of t = Some n \<longrightarrow> state (conn_heap w n) \<noteq> kDisconnected)))"

lemma lasting_refl [simp, intro]: "lasting w w"
  by (simp add: lasting_def)

lemma lasting_trans: "lasting u v \<Longrightarrow> lasting v w \<Longrightarrow> lasting u w"
  by (simp add: lasting_def)

lemma living_refl [simp, intro]: "living w w"
  by (simp add: living_def)

lemma living_trans: "living u v \<Longrightarrow> living v w \<Longrightarrow> living u w"
  unfolding living_def using lasting_trans[of u v w] by (fastforce simp: lasting_def)

lemma living_same: "lasting w v \<Longrightarrow> pendingFunctors v = pendingFunctors w \<Longrightarrow> living w v"
  by (simp add: living_def)

lemma same_more_lasting:
  fixes w v :: "('o, 'z) world"
  assumes "net_st.more v = net_st.more w"
  shows "connections v = connections w" "hostport v = hostport w" "server_name v = server_name w"
    "nextConnId v = nextConnId w"
  using assms
  by (cases v rule: myserver_st.cases_scheme; cases w rule: myserver_st.cases_scheme;
      simp only: net_st.select_convs server_st.select_convs myserver_st.select_convs
        acceptor_st.ext_inject server_st.ext_inject myserver_st.ext_inject)+

lemma living_still: "still w v \<Longrightarrow> living w v"
  using same_more_lasting[of v w] by (intro living_same) (simp_all add: still_def lasting_def)

lemma living_quiet: "quiet w v \<Longrightarrow> living w v"
  using same_more_lasting[of v w] same_connsD[of w v]
  by (intro living_same) (simp_all add: quiet_def same_loop_def lasting_def)

lemma phased_cong:
  assumes "(n < next_conn v) = (n < next_conn w)"
    "(state (conn_heap v n) = kDisconnected) = (state (conn_heap w n) = kDisconnected)"
    "mapped v n = mapped w n" "removals q' n = removals q n" "destructions q' n = destructions q n"
  shows "phased q' v n = phased q w n"
  using assms by (auto simp: phased_def)

lemma tracked_living:
  assumes "living w v" "tracked B w" shows "tracked B v"
proof -
  from assms(1) obtain ts where l: "lasting w v" and ts: "pendingFunctors v = pendingFunctors w @ ts"
    "\<forall>t\<in>set ts. neutral t" by (auto simp: living_def)
  have c: "count_list ts (ServerRemoveConnectionInLoop n) = 0" "count_list ts (ConnConnectDestroyed n) = 0" for n
    using ts(2) by (auto simp: count_list_0_iff neutral_def)
  have "phased (B @ pendingFunctors v) v n = phased (B @ pendingFunctors w) w n" for n
    using l by (intro phased_cong) (simp_all add: lasting_def mapped_def ts(1) count_list_append c)
  moreover have "named v = named w" using l by (simp add: named_def lasting_def)
  ultimately show ?thesis using assms(2) by (simp add: tracked_def)
qed

lemma tracked_skip: "neutral t \<Longrightarrow> tracked (t # B) w = tracked B w"
  by (auto simp: tracked_def phased_def neutral_def)

section \<open>Operations that leave the phases alone\<close>

lemma living_silent: "silent w v \<Longrightarrow> pendingFunctors v = pendingFunctors w \<Longrightarrow> living w v"
  using same_more_lasting[of v w] same_connsD[of w v]
  by (intro living_same) (simp_all add: silent_def lasting_def)

lemma living_queue:
  assumes "neutral t" "\<And>m. conn_of t = Some m \<Longrightarrow> state (conn_heap w m) \<noteq> kDisconnected"
  shows "living w (queueInLoop S task_owner t w)"
proof -
  let ?u = "acquire_opt (task_owner t) (w\<lparr>pendingFunctors := pendingFunctors w @ [t]\<rparr>)"
  have "living w ?u"
    using assms by (auto simp: living_def lasting_def acquire_opt_def acquire_def split: option.split)
  then show ?thesis using living_still[OF queueInLoop_still] by (rule living_trans)
qed

lemma conn_name_setState [simp]: "conn_name (setState s cn) = conn_name cn"
  by (simp add: setState_def)

lemma upd_conn_server [simp]:
  "connections (upd_conn n f w) = connections w" "hostport (upd_conn n f w) = hostport w"
  "server_name (upd_conn n f w) = server_name w" "nextConnId (upd_conn n f w) = nextConnId w"
  "pendingFunctors (upd_conn n f w) = pendingFunctors w"
  by (simp_all add: upd_conn_def)

lemma living_setState:
  "state (conn_heap w n) \<noteq> kDisconnected \<Longrightarrow> s \<noteq> kDisconnected \<Longrightarrow> living w (upd_conn n (setState s) w)"
  by (intro living_same) (simp_all add: lasting_def)

lemma shutdown_living:
  fixes w :: "('o, 'z) world"
  assumes "shutdown S n w = Inr v" shows "living w v"
proof (cases "state (conn_heap w n) = kConnected")
  case True
  let ?u = "upd_conn n (setState kDisconnecting) w"
  have u: "living w ?u" using True by (intro living_setState) simp_all
  have "still ?u (shutdownInLoop S n ?u)" by (intro still_intros)
  then have "living ?u (shutdownInLoop S n ?u)" by (rule living_still)
  moreover have "living ?u (queueInLoop S task_owner (ConnShutdownInLoop n) ?u)" by (intro living_queue) auto
  ultimately have "living ?u v" using assms True by (auto simp: shutdown_def runInLoop_def split: if_splits)
  with u show ?thesis by (rule living_trans)
qed (use assms in \<open>simp add: shutdown_def\<close>)

lemma forceClose_living:
  fixes w :: "('o, 'z) world"
  assumes "forceClose S n w = Inr v" shows "living w v"
proof (cases "state (conn_heap w n) = kConnected \<or> state (conn_heap w n) = kDisconnecting")
  case True
  let ?u = "upd_conn n (setState kDisconnecting) w"
  have u: "living w ?u" using True by (intro living_setState) auto
  have "living ?u (queueInLoop S task_owner (ConnForceCloseInLoop n) ?u)" by (intro living_queue) auto
  moreover have "v = queueInLoop S task_owner (ConnForceCloseInLoop n) ?u"
    using assms True by (simp add: forceClose_def queue_shared_def split: if_splits)
  ultimately show ?thesis using u living_trans by blast
qed (use assms in \<open>simp add: forceClose_def\<close>)

lemma living_members:
  "living w (w\<lparr>numConnected := k\<rparr>)" "living w (w\<lparr>flag := b, hostPtr := p\<rparr>)"
  by (simp_all add: living_same lasting_def)

lemma onConnection_living:
  fixes w :: "('o, 'z) world"
  assumes "onConnection S n w = Inr v" shows "living w v"
proof -
  let ?u = "w\<lparr>numConnected := numConnected w + 1\<rparr>"
  have "living ?u v" if "ebind (shutdown S n ?u) (forceClose S n) = Inr v"
    using that shutdown_living forceClose_living living_trans by (auto simp: ebind_eq_Inr) blast
  moreover have "living ?u (?u\<lparr>flag := False, hostPtr := Some n\<rparr>)" by (rule living_members)
  ultimately have "living w v \<or> living ?u v"
    using assms living_members(1)[of w "numConnected w - 1"]
    by (auto simp: onConnection_def Let_def split: if_splits)
  then show ?thesis using living_members(1)[of w "numConnected w + 1"] living_trans by blast
qed

text \<open>Without callbacks for completed writes nothing is queued.\<close>

lemma send_remaining_queue:
  assumes "send_remaining S n data k r e w = Inr v" "highWaterMarkCallback (conn_heap w n) = None"
  shows "pendingFunctors v = pendingFunctors w"
proof -
  have "pendingFunctors (enableWriting S c u) = pendingFunctors u" for c and u :: "('a, 'b) net_st_scheme"
  proof -
    have "still u (enableWriting S c u)" by (intro still_intros)
    then show ?thesis by (simp add: still_def)
  qed
  then show ?thesis
    using assms by (auto simp: send_remaining_def Let_def ebind_eq_Inr upd_conn_def split: if_splits)
qed

lemma send_queue:
  assumes "send S n data w = Inr v" "highWaterMarkCallback (conn_heap w n) = None"
    "writeCompleteCallback (conn_heap w n) = None"
  shows "pendingFunctors v = pendingFunctors w"
proof -
  obtain r e u where wr: "sock_write S (fd (conn_channel n w)) data w = ((r, e), u)" by (metis surj_pair)
  have "still w (snd (sock_write S (fd (conn_channel n w)) data w))" by (intro still_intros)
  then have "pendingFunctors u = pendingFunctors w" "conn_heap u = conn_heap w" by (simp_all add: wr still_def)
  then show ?thesis
    using assms send_remaining_queue[of S n data _ _ _ u v] send_remaining_queue[of S n data _ _ _ w v]
    by (auto simp: send_def sendInLoop_def loop_op_defs Let_def wr split: if_splits)
qed

lemma onMessage_living:
  fixes w :: "('o, 'z) world"
  assumes safe: "keeps G L B w" and run: "onMessage S n bs w = Inr v"
  shows "living w v"
proof -
  from run obtain h u where h: "hostPtr w = Some h" "send S h greeting (acquire h w) = Inr u"
    "v = release (conn_dtor S) h u"
    by (auto simp: onMessage_def ebind_eq_Inr split: if_splits option.splits)
  have lt: "h < next_conn w" using safeD(11)[OF safe h(1)] by simp
  have a: "living w (acquire h w)" by (intro living_quiet quiet_intros)
  have "conn_heap (acquire h w) = conn_heap w" by (simp add: acquire_def)
  then have "pendingFunctors u = pendingFunctors (acquire h w)"
    using slotsD(4,5)[OF safe lt] by (intro send_queue[OF h(2)]) simp_all
  moreover have "silent (acquire h w) u" using h(2) by (simp add: send_def silent_sendInLoop)
  ultimately have "living (acquire h w) u" by (intro living_silent)
  moreover have "living u v" unfolding h(3) by (intro living_quiet quiet_intros)
  ultimately show ?thesis using a living_trans by blast
qed

lemma handleWrite_living:
  fixes w :: "('o, 'z) world"
  assumes safe: "keeps G L B w" and n: "n < next_conn w" and run: "handleWrite S n w = Inr v"
  shows "living w v"
proof (rule living_silent)
  show "silent w v" using run by (rule silent_handleWrite)
  let ?out = "outputBuffer (conn_heap w n)"
  let ?bs = "slice (peek ?out) (peek ?out + readableBytes ?out) (storage ?out)"
  obtain r e u where wr: "sock_write S (fd (conn_channel n w)) ?bs w = ((r, e), u)" by (metis surj_pair)
  have "still w (snd (sock_write S (fd (conn_channel n w)) ?bs w))" by (intro still_intros)
  then have u: "pendingFunctors u = pendingFunctors w" "conn_heap u = conn_heap w" by (simp_all add: wr still_def)
  have st: "pendingFunctors (disableWriting S c x) = pendingFunctors x"
    "conn_heap (disableWriting S c x) = conn_heap x"
    "pendingFunctors (shutdownInLoop S n x) = pendingFunctors x" for c and x :: "('o, 'z) world"
  proof -
    have "still x (disableWriting S c x)" "still x (shutdownInLoop S n x)" by (intro still_intros)+
    then show "pendingFunctors (disableWriting S c x) = pendingFunctors x"
      "conn_heap (disableWriting S c x) = conn_heap x"
      "pendingFunctors (shutdownInLoop S n x) = pendingFunctors x" by (simp_all add: still_def)
  qed
  show "pendingFunctors v = pendingFunctors w"
    using run slotsD(4)[OF safe n] u
    by (auto simp: handleWrite_def loop_op_defs Let_def wr ebind_eq_Inr st upd_conn_def split: if_splits)
qed

section \<open>What a task does\<close>

text \<open>
  A closed connection stays closed and does not come back into the map, and nothing is queued
  for it, the destruction that follows its removal apart.
\<close>

definition steps :: "task \<Rightarrow> ('o, 'z) world \<Rightarrow> ('o, 'z) world \<Rightarrow> bool" where
  "steps t w v \<longleftrightarrow> next_conn w \<le> next_conn v \<and>
     (\<forall>m<next_conn w. state (conn_heap w m) = kDisconnected \<longrightarrow> state (conn_heap v m) = kDisconnected) \<and>
     (\<forall>m<next_conn w. mapped v m \<longrightarrow> mapped w m) \<and>
     (\<exists>ts. pendingFunctors v = pendingFunctors w @ ts \<and> (\<forall>u\<in>set ts. \<forall>m<next_conn w. conn_of u = Some m \<longrightarrow>
        state (conn_heap w m) \<noteq> kDisconnected \<or> t = ServerRemoveConnectionInLoop m))"

lemma steps_living: "living w v \<Longrightarrow> steps t w v"
  unfolding steps_def living_def lasting_def mapped_def by auto

lemma steps_trans:
  assumes s: "steps t w u" and l: "living u v" shows "steps t w v"
proof -
  from s obtain ts where ts: "pendingFunctors u = pendingFunctors w @ ts"
    "\<forall>x\<in>set ts. \<forall>m<next_conn w. conn_of x = Some m \<longrightarrow>
        state (conn_heap w m) \<noteq> kDisconnected \<or> t = ServerRemoveConnectionInLoop m"
    unfolding steps_def by blast
  from l obtain us where us: "pendingFunctors v = pendingFunctors u @ us" "lasting u v"
    "\<forall>x\<in>set us. \<forall>m. conn_of x = Some m \<longrightarrow> state (conn_heap u m) \<noteq> kDisconnected"
    unfolding living_def by blast
  have "state (conn_heap w m) \<noteq> kDisconnected" if "x \<in> set us" "m < next_conn w" "conn_of x = Some m" for x m
    using that us(3) s unfolding steps_def by blast
  then show ?thesis
    using s us(1,2) ts unfolding steps_def lasting_def mapped_def by (auto intro!: exI[of _ "ts @ us"])
qed

lemma steps_after:
  assumes l: "living w u" and s: "steps t u v" shows "steps t w v"
proof -
  from l obtain us where us: "pendingFunctors u = pendingFunctors w @ us" "lasting w u"
    "\<forall>x\<in>set us. \<forall>m. conn_of x = Some m \<longrightarrow> state (conn_heap w m) \<noteq> kDisconnected"
    unfolding living_def by blast
  then show ?thesis
    using s unfolding steps_def lasting_def mapped_def by (auto 4 3)
qed

lemma living_task: "living w v \<Longrightarrow> neutral t \<Longrightarrow> tracked (t # B) w \<Longrightarrow> tracked B v \<and> steps t w v"
  using tracked_living[of w v B] steps_living[of w v t] by (simp add: tracked_skip)

lemma living_callback: "living w v \<Longrightarrow> tracked B w \<Longrightarrow> tracked B v \<and> steps t w v"
  using tracked_living[of w v B] steps_living[of w v t] by simp

text \<open>Closing: the connection becomes disconnected and its removal is queued.\<close>

lemma tracked_closes:
  fixes w v :: "('o, 'z) world"
  assumes tr: "tracked B w" and n: "n < next_conn w" and st: "state (conn_heap w n) \<noteq> kDisconnected"
    and v: "living (upd_conn n (setState kDisconnected) w) u" "living (queueInLoop S task_owner (ServerRemoveConnectionInLoop n) u) v"
  shows "tracked B v \<and> steps t w v"
proof -
  let ?w1 = "upd_conn n (setState kDisconnected) w" and ?R = "ServerRemoveConnectionInLoop n"
  let ?q = "queueInLoop S task_owner ?R u"
  from v(1) obtain ts where lu: "lasting ?w1 u" and ts: "pendingFunctors u = pendingFunctors w @ ts"
    "\<forall>t\<in>set ts. neutral t \<and> (\<forall>m. conn_of t = Some m \<longrightarrow> state (conn_heap ?w1 m) \<noteq> kDisconnected)"
    unfolding living_def upd_conn_server by blast
  have q: "still (acquire n (u\<lparr>pendingFunctors := pendingFunctors u @ [?R]\<rparr>)) ?q"
    using queueInLoop_still[of ?R u S] by (simp add: acquire_opt_def)
  from living_still[OF q] have "lasting (acquire n (u\<lparr>pendingFunctors := pendingFunctors u @ [?R]\<rparr>)) ?q"
    by (simp add: living_def)
  then have lq: "lasting ?w1 ?q" using lu by (simp add: lasting_def acquire_def)
  have pq: "pendingFunctors ?q = pendingFunctors w @ ts @ [?R]" using q ts(1) by (simp add: still_def acquire_def)
  have c: "count_list ts (ServerRemoveConnectionInLoop m) = 0" "count_list ts (ConnConnectDestroyed m) = 0" for m
    using ts(2) by (auto simp: count_list_0_iff neutral_def)
  have ph: "phased (B @ pendingFunctors ?q) ?q m" for m
  proof -
    have old: "phased (B @ pendingFunctors w) w m" using tr by (simp add: tracked_def)
    have e: "next_conn ?q = next_conn w" "mapped ?q m = mapped w m"
      "(state (conn_heap ?q m) = kDisconnected) = (m = n \<or> state (conn_heap w m) = kDisconnected)"
      using lq by (auto simp: lasting_def mapped_def)
    show ?thesis
    proof (cases "m = n")
      case True
      then show ?thesis using old n st by (simp add: phased_def e[unfolded True] pq count_list_append c)
    next
      case False
      then have "phased (B @ pendingFunctors ?q) ?q m = phased (B @ pendingFunctors w) w m"
        by (intro phased_cong) (simp_all add: e pq count_list_append c)
      with old show ?thesis by simp
    qed
  qed
  have "named ?q = named w"
    using lq by (auto simp: named_def lasting_def split: if_splits)
  then have "tracked B ?q" using ph tr by (simp add: tracked_def)
  then have "tracked B v" using tracked_living v(2) by blast
  moreover have "steps t w ?q"
  proof -
    have "\<forall>x\<in>set (ts @ [?R]). \<forall>m<next_conn w. conn_of x = Some m \<longrightarrow> state (conn_heap w m) \<noteq> kDisconnected"
      using ts(2) st by (auto split: if_splits)
    then show ?thesis using lq pq unfolding steps_def lasting_def mapped_def by auto
  qed
  then have "steps t w v" using v(2) by (rule steps_trans)
  ultimately show ?thesis ..
qed

lemma with_shared_living:
  fixes w :: "('o, 'z) world"
  assumes "with_shared S n f w = Inr v"
  obtains u where "f (acquire n w) = Inr u" "living w (acquire n w)" "living u v"
proof -
  from assms obtain u where u: "f (acquire n w) = Inr u" "v = release (conn_dtor S) n u"
    by (auto simp: with_shared_def ebind_eq_Inr split: if_splits)
  have "living w (acquire n w)" "living u v" unfolding u(2) by (intro living_quiet quiet_intros)+
  with u(1) that show ?thesis by blast
qed

text \<open>The parts of \<open>handleClose\<close> on an open connection: the callback, then the queued removal.\<close>

lemma handleClose_parts:
  fixes w :: "('o, 'z) world" and S :: "'o os_calls"
  assumes safe: "keeps G L B' w" and n: "n < next_conn w"
    and conn: "state (conn_heap w n) = kConnected \<or> state (conn_heap w n) = kDisconnecting"
    and run: "handleClose S (my_handlers S) n w = Inr v"
  defines "w1 \<equiv> upd_conn n (setState kDisconnected) w"
  defines "w2 \<equiv> disableAll S (channel_of (conn_heap w1 n)) w1"
  obtains y where "0 < refs w2 n" "onConnection S n (acquire n w2) = Inr y" "keeps G (add_mset n L) B' y"
    "v = release (conn_dtor S) n (queueInLoop S task_owner (ServerRemoveConnectionInLoop n) y)"
proof -
  have k1: "keeps G L B' w1" unfolding w1_def using safe conn by (intro safe_setState) auto
  have s2: "still w1 w2" unfolding w2_def by (intro still_intros)
  have k2: "keeps G L B' w2" using s2 k1 by (rule safe_still)
  have n2: "n < next_conn w2" using s2 n by (simp add: still_def w1_def)
  let ?f = "\<lambda>w3. ebind (call_fn (connectionCallback (conn_heap w3 n)) (\<lambda>u. on_connection (my_handlers S) u n w3))
        (\<lambda>w4. call_fn (conn_closeCallback (conn_heap w4 n)) (\<lambda>u. on_close (my_handlers S) u n w4))"
  have ws: "with_shared S n ?f w2 = Inr v"
    using run conn by (simp add: handleClose_def loop_op_defs Let_def w1_def w2_def)
  then have a: "0 < refs w2 n" by (auto simp: with_shared_def split: if_splits)
  have wa: "keeps G (add_mset n L) B' (acquire n w2)" using k2 n2 by (rule safe_acquire)
  have na: "n < next_conn (acquire n w2)" using n2 by (simp add: acquire_def)
  obtain x where x: "?f (acquire n w2) = Inr x" "v = release (conn_dtor S) n x"
    using ws by (auto simp: with_shared_def ebind_eq_Inr split: if_splits)
  from x(1) obtain y where y: "onConnection S n (acquire n w2) = Inr y"
    "call_fn (conn_closeCallback (conn_heap y n)) (\<lambda>u. on_close (my_handlers S) u n y) = Inr x"
    using slotsD(1)[OF wa na] by (auto simp: ebind_eq_Inr call_fn_def my_handlers_def my_on_connection_def)
  have "0 < refs (acquire n w2) n" by (simp add: acquire_def)
  from onConnection_safe[OF wa this, of S] y(1) have ys: "keeps G (add_mset n L) B' y" by simp
  have ny: "n < next_conn y" using safeD(2)[OF ys, of n] by simp
  from y(2) have "removeConnection S n y = Inr x"
    using slotsD(3)[OF ys ny] by (simp add: call_fn_def my_handlers_def my_on_close_def)
  then have "x = queueInLoop S task_owner (ServerRemoveConnectionInLoop n) y"
    using not_in_loop[OF ys] by (simp add: removeConnection_def runInLoop_def)
  with that[OF a y(1) ys] x(2) show thesis by blast
qed

lemma handleClose_tracked:
  fixes w :: "('o, 'z) world"
  assumes safe: "keeps G L B' w" and n: "n < next_conn w" and tr: "tracked B w"
    and run: "handleClose S (my_handlers S) n w = Inr v"
  shows "tracked B v \<and> steps t w v"
proof (cases "state (conn_heap w n) = kConnected \<or> state (conn_heap w n) = kDisconnecting")
  case False
  then show ?thesis using run tr living_callback[of w w] by (auto simp: handleClose_def loop_op_defs)
next
  case True
  let ?w1 = "upd_conn n (setState kDisconnected) w"
  let ?w2 = "disableAll S (channel_of (conn_heap ?w1 n)) ?w1"
  obtain y where y: "onConnection S n (acquire n ?w2) = Inr y"
    "v = release (conn_dtor S) n (queueInLoop S task_owner (ServerRemoveConnectionInLoop n) y)"
    using handleClose_parts[OF safe n True run] by metis
  have "still ?w1 ?w2" by (intro still_intros)
  moreover have "living ?w2 (acquire n ?w2)" by (intro living_quiet quiet_intros)
  ultimately have l: "living ?w1 y" using living_still onConnection_living[OF y(1)] living_trans by meson
  have "living (queueInLoop S task_owner (ServerRemoveConnectionInLoop n) y) v"
    unfolding y(2) by (intro living_quiet quiet_intros)
  moreover have "state (conn_heap w n) \<noteq> kDisconnected" using True by auto
  ultimately show ?thesis using tracked_closes[OF tr n _ l] by blast
qed

text \<open>Removal: the entry leaves the map, and the destruction is queued.\<close>

lemma removal_phase:
  assumes "tracked (ServerRemoveConnectionInLoop n # B) w"
  shows "mapped w n" "removals (B @ pendingFunctors w) n = 0" "destructions (B @ pendingFunctors w) n = 0"
    "\<not> (n < next_conn w \<and> state (conn_heap w n) \<noteq> kDisconnected)"
proof -
  have "phased ((ServerRemoveConnectionInLoop n # B) @ pendingFunctors w) w n" using assms by (simp add: tracked_def)
  then show "mapped w n" "removals (B @ pendingFunctors w) n = 0" "destructions (B @ pendingFunctors w) n = 0"
    "\<not> (n < next_conn w \<and> state (conn_heap w n) \<noteq> kDisconnected)"
    by (auto simp: phased_def count_list_append split: if_splits)
qed

lemma mapped_entry: "named w \<Longrightarrow> mapped w n \<longleftrightarrow> (conn_name (conn_heap w n), n) \<in> set (connections w)"
  by (force simp: named_def mapped_def)

lemma mapped_exists: "named w \<Longrightarrow> mapped w n \<Longrightarrow> n < next_conn w"
  by (force simp: named_def mapped_def)

text \<open>The entry that is erased is the connection's own, and only that one.\<close>

lemma mapped_delete:
  assumes nm: "named w" and d: "distinct (map fst (connections w))" and n: "mapped w n"
    and v: "connections v = AList.delete (conn_name (conn_heap w n)) (connections w)"
  shows "mapped v m \<longleftrightarrow> mapped w m \<and> m \<noteq> n"
proof -
  let ?nm = "conn_name (conn_heap w n)"
  have entry: "(?nm, n) \<in> set (connections w)" using mapped_entry[OF nm] n by blast
  have only: "m = n" if "(?nm, m) \<in> set (connections w)"
    using that entry d by (metis map_of_eq_Some_iff option.inject)
  have "mapped v m \<longleftrightarrow> (\<exists>k. (k, m) \<in> set (connections w) \<and> k \<noteq> ?nm)"
    by (force simp: mapped_def v AList.delete_eq)
  also have "\<dots> \<longleftrightarrow> mapped w m \<and> m \<noteq> n"
  proof (rule iffI)
    assume "\<exists>k. (k, m) \<in> set (connections w) \<and> k \<noteq> ?nm"
    then obtain k where k: "(k, m) \<in> set (connections w)" "k \<noteq> ?nm" by blast
    then have "k = conn_name (conn_heap w m)" using nm by (auto simp: named_def)
    with k show "mapped w m \<and> m \<noteq> n" by (force simp: mapped_def)
  next
    assume m: "mapped w m \<and> m \<noteq> n"
    then have "(conn_name (conn_heap w m), m) \<in> set (connections w)" using mapped_entry[OF nm] by blast
    then show "\<exists>k. (k, m) \<in> set (connections w) \<and> k \<noteq> ?nm" using only m by metis
  qed
  finally show ?thesis .
qed

lemma removeConnectionInLoop_tracked:
  fixes w :: "('o, 'z) world" and S :: "'o os_calls"
  assumes safe: "keeps G L B' w" and tr: "tracked (ServerRemoveConnectionInLoop n # B) w"
  defines "v \<equiv> removeConnectionInLoop S n w"
  shows "tracked B v \<and> steps (ServerRemoveConnectionInLoop n) w v \<and> \<not> mapped v n"
proof -
  let ?nm = "conn_name (conn_heap w n)" let ?cs = "AList.delete ?nm (connections w)"
  let ?x = "release_opt (conn_dtor S) (map_of (connections w) ?nm) (w\<lparr>connections := ?cs\<rparr>)"
  let ?D = "ConnConnectDestroyed n"
  note ph = removal_phase[OF tr]
  have nm: "named w" using tr by (simp add: tracked_def)
  have nlt: "n < next_conn w" using mapped_exists[OF nm ph(1)] .
  have x: "quiet (w\<lparr>connections := ?cs\<rparr>) ?x" by (intro quiet_intros)
  have q: "still (acquire n (?x\<lparr>pendingFunctors := pendingFunctors ?x @ [?D]\<rparr>)) v"
    using queueInLoop_still[of ?D ?x S]
    by (simp add: acquire_opt_def v_def removeConnectionInLoop_def assertInLoopThread_def Let_def)
  have lx: "lasting (w\<lparr>connections := ?cs\<rparr>) ?x" "pendingFunctors ?x = pendingFunctors w"
    using living_quiet[OF x] x by (simp_all add: living_def quiet_def same_loop_def)
  have lv: "lasting (w\<lparr>connections := ?cs\<rparr>) v"
    using living_still[OF q] lx(1) by (simp add: living_def lasting_def acquire_def)
  have pv: "pendingFunctors v = pendingFunctors w @ [?D]" using q lx(2) by (simp add: still_def acquire_def)
  have cv: "connections v = ?cs" using lv by (simp add: lasting_def)
  have mv: "mapped v m \<longleftrightarrow> mapped w m \<and> m \<noteq> n" for m
    using mapped_delete[OF nm safeD(3)[OF safe] ph(1) cv] .
  have e: "next_conn v = next_conn w" "(state (conn_heap v m) = kDisconnected) = (state (conn_heap w m) = kDisconnected)" for m
    using lv by (simp_all add: lasting_def)
  have "phased (B @ pendingFunctors v) v m" for m
  proof (cases "m = n")
    case True
    then show ?thesis using ph nlt by (auto simp: phased_def e mv pv count_list_append)
  next
    case False
    have "phased (B @ pendingFunctors v) v m = phased ((ServerRemoveConnectionInLoop n # B) @ pendingFunctors w) w m"
      using False by (intro phased_cong) (simp_all add: e mv pv count_list_append)
    then show ?thesis using tr by (simp add: tracked_def)
  qed
  moreover have "named v"
    using nm lv unfolding named_def lasting_def cv by (auto simp: AList.delete_eq)
  ultimately have "tracked B v" by (simp add: tracked_def)
  moreover have "steps (ServerRemoveConnectionInLoop n) w v"
    using pv by (auto simp: steps_def e mv)
  ultimately show ?thesis using mv by blast
qed

text \<open>Destruction.\<close>

lemma connectDestroyed_tracked:
  fixes w :: "('o, 'z) world"
  assumes tr: "tracked (ConnConnectDestroyed n # B) w" and run: "connectDestroyed S (my_handlers S) n w = Inr v"
  shows "tracked B v \<and> steps t w v"
proof -
  have ph: "phased ((ConnConnectDestroyed n # B) @ pendingFunctors w) w m" for m using tr by (simp add: tracked_def)
  have closed: "state (conn_heap w n) = kDisconnected"
    using ph[of n] by (auto simp: phased_def count_list_append split: if_splits)
  have "phased (B @ pendingFunctors w) w m" for m
    using ph[of m] by (auto simp: phased_def count_list_append split: if_splits)
  then have "tracked B w" using tr by (simp add: tracked_def)
  moreover have "still w (channel_remove S (channel_of (conn_heap w n)) w)" by (intro still_intros)
  then have "living w v"
    using run closed living_still by (auto simp: connectDestroyed_def loop_op_defs)
  ultimately show ?thesis using living_callback by blast
qed

lemma connectEstablished_living:
  fixes w :: "('o, 'z) world"
  assumes safe: "safe Map.empty {} L (ConnConnectEstablished n # B') w"
    and run: "connectEstablished S (my_handlers S) n w = Inr v"
  shows "living w v"
proof -
  let ?w1 = "upd_conn n (setState kConnected) w" let ?c = "channel_of (conn_heap ?w1 n)"
  let ?w2 = "upd_chan ?c (channel_tie n) ?w1" let ?w3 = "enableReading S ?c ?w2"
  note est = safe_establish[OF safe]
  have "keeps Map.empty L B' ?w2" using est(3) by simp
  moreover have s3: "still ?w2 ?w3" by (intro still_intros)
  ultimately have w3: "keeps Map.empty L B' ?w3" using safe_still by blast
  have n3: "n < next_conn ?w3" using s3 est(2) by (simp add: still_def upd_chan_def)
  have "living w ?w1" using est(1) by (intro living_setState) simp_all
  moreover have "living ?w1 ?w3" by (intro living_quiet quiet_intros)
  ultimately have l3: "living w ?w3" by (rule living_trans)
  have "with_shared S n (\<lambda>x. call_fn (connectionCallback (conn_heap x n)) (\<lambda>u. on_connection (my_handlers S) u n x)) ?w3 = Inr v"
    using run by (simp add: connectEstablished_def loop_op_defs Let_def eassert_eq_Inr split: if_splits)
  then obtain y where y: "call_fn (connectionCallback (conn_heap (acquire n ?w3) n))
      (\<lambda>u. on_connection (my_handlers S) u n (acquire n ?w3)) = Inr y" "living ?w3 (acquire n ?w3)" "living y v"
    by (rule with_shared_living)
  have "conn_heap (acquire n ?w3) n = conn_heap ?w3 n" by (simp add: acquire_def)
  then have "connectionCallback (conn_heap (acquire n ?w3) n) = Some MyServerOnConnection"
    using slotsD(1)[OF w3 n3] by (simp only:)
  then have "onConnection S n (acquire n ?w3) = Inr y"
    using y(1) by (simp only: call_fn_def option.case my_handlers_def handlers.simps my_on_connection_def callback.case)
  then have "living (acquire n ?w3) y" by (rule onConnection_living)
  with l3 y(2,3) show ?thesis using living_trans by meson
qed

text \<open>Accepting: the new connection gets a name that no other connection of the map has.\<close>

lemma new_connection_queue:
  "new_connection nm sockfd local peer w = Inr (n, v) \<Longrightarrow> pendingFunctors v = pendingFunctors w \<and>
    threadId v = threadId w \<and> thisThread v = thisThread w"
  by (auto simp: new_connection_def alloc_channel_def Let_def ebind_eq_Inr upd_chan_def)

text \<open>The parts of \<open>newConnection\<close>: the constructor, the map's entry, the callbacks, the queued start.\<close>

abbreviation wired :: "('o, 'z) world \<Rightarrow> connection \<Rightarrow> connection" where
  "wired u \<equiv> setConnCloseCallback (Some ServerRemoveConnection) \<circ>
     setWriteCompleteCallback (server_writeCompleteCallback u) \<circ>
     setMessageCallback (server_messageCallback u) \<circ> setConnectionCallback (server_connectionCallback u)"

lemma wired_simps [simp]:
  "state (wired u cn) = state cn" "conn_name (wired u cn) = conn_name cn"
  "socket_of (wired u cn) = socket_of cn" "channel_of (wired u cn) = channel_of cn"
  by (simp_all add: setConnCloseCallback_def setWriteCompleteCallback_def setMessageCallback_def setConnectionCallback_def)

lemma newConnection_parts:
  fixes w :: "('o, 'z) world" and S :: "'o os_calls"
  assumes safe: "keeps G L B' w" and run: "newConnection S (my_handlers S) sockfd peer w = Inr v"
  defines "nm \<equiv> server_name w @ connection_suffix (hostport w) (nextConnId w)"
    and "w2 \<equiv> snd (getLocalAddr S sockfd (w\<lparr>nextConnId := nextConnId w + 1\<rparr>))"
  obtains local w3 where "nextConnId w \<noteq> int_max"
    "new_connection nm sockfd local peer w2 = Inr (next_conn w, w3)"
    "v = release (conn_dtor S) (next_conn w) (queueInLoop S task_owner (ConnConnectEstablished (next_conn w))
       (upd_conn (next_conn w) (wired (store_connection S nm (next_conn w) (acquire (next_conn w) w3)))
         (store_connection S nm (next_conn w) (acquire (next_conn w) w3))))"
proof -
  let ?w1 = "w\<lparr>nextConnId := nextConnId w + 1\<rparr>"
  let ?w5 = "\<lambda>k w3. store_connection S nm k (acquire k w3)"
  from run obtain k w3 w7 where w3: "new_connection nm sockfd (fst (getLocalAddr S sockfd ?w1)) peer w2 = Inr (k, w3)"
    and w7: "runInLoop S task_owner (ConnConnectEstablished k) (on_alive k (connectEstablished S (my_handlers S) k))
        (upd_conn k (wired (?w5 k w3)) (?w5 k w3)) = Inr w7"
    and v: "v = release (conn_dtor S) k w7" and id: "nextConnId w \<noteq> int_max"
    by (auto simp: newConnection_def assertInLoopThread_def Let_def ebind_eq_Inr case_prod_beta nm_def w2_def split: if_splits)
  have s2: "still ?w1 w2" unfolding w2_def by (intro still_intros)
  note N = new_connection_shape[OF w3] and Q = new_connection_queue[OF w3]
  have k: "k = next_conn w" using N(1) s2 by (simp add: still_def)
  have "quiet (acquire k w3\<lparr>connections := AList.update nm k (connections w3)\<rparr>) (?w5 k w3)"
    unfolding store_connection_def by (intro quiet_intros) (simp add: acquire_def)
  then have "same_loop (acquire k w3\<lparr>connections := AList.update nm k (connections w3)\<rparr>) (?w5 k w3)" by (simp add: quiet_def)
  then have "\<not> isInLoopThread (upd_conn k (wired (?w5 k w3)) (?w5 k w3))"
    using not_in_loop[OF safe] Q s2 by (simp add: isInLoopThread_def same_loop_def upd_conn_def acquire_def still_def)
  then show thesis using that[OF id w3[unfolded k]] w7 v by (simp add: runInLoop_def k)
qed

lemma newConnection_shape:
  fixes w :: "('o, 'z) world"
  assumes safe: "keeps G L B' w" and run: "newConnection S (my_handlers S) sockfd peer w = Inr v"
  defines "n \<equiv> next_conn w" and "nm \<equiv> server_name w @ connection_suffix (hostport w) (nextConnId w)"
  obtains x where "nextConnId w \<noteq> int_max" "living x v" "next_conn x = Suc n" "hostport x = hostport w"
    "connections x = AList.update nm n (connections w)" "server_name x = server_name w"
    "nextConnId x = nextConnId w + 1" "pendingFunctors x = pendingFunctors w"
    "conn_name (conn_heap x n) = nm" "state (conn_heap x n) = kConnecting"
    "\<And>m. m \<noteq> n \<Longrightarrow> conn_heap x m = conn_heap w m"
proof -
  let ?w1 = "w\<lparr>nextConnId := nextConnId w + 1\<rparr>"
  let ?w2 = "snd (getLocalAddr S sockfd ?w1)"
  obtain local w3 where id: "nextConnId w \<noteq> int_max"
    and w3: "new_connection nm sockfd local peer ?w2 = Inr (n, w3)"
    and v: "v = release (conn_dtor S) n (queueInLoop S task_owner (ConnConnectEstablished n)
       (upd_conn n (wired (store_connection S nm n (acquire n w3))) (store_connection S nm n (acquire n w3))))"
    using newConnection_parts[OF safe run] unfolding n_def nm_def by metis
  let ?w5 = "store_connection S nm n (acquire n w3)"
  let ?w6 = "upd_conn n (wired ?w5) ?w5"
  note N = new_connection_shape[OF w3] and Q = new_connection_queue[OF w3]
  define x where "x = acquire n w3\<lparr>connections := AList.update nm n (connections w3)\<rparr>"
  have "quiet x ?w5" unfolding x_def store_connection_def by (intro quiet_intros) (simp add: acquire_def)
  moreover have "living ?w5 ?w6" by (intro living_same) (simp_all add: lasting_def del: o_apply)
  ultimately have x6: "living x ?w6" using living_quiet living_trans by blast
  have xs: "conn_heap x = conn_heap w3" "next_conn x = next_conn w3" "pendingFunctors x = pendingFunctors w3"
    "hostport x = hostport w3" "server_name x = server_name w3" "nextConnId x = nextConnId w3"
    "connections x = AList.update nm n (connections w3)"
    by (simp_all add: x_def acquire_def)
  have s2: "still ?w1 ?w2" by (intro still_intros)
  have st: "conn_heap ?w2 = conn_heap w" "next_conn ?w2 = next_conn w" "pendingFunctors ?w2 = pendingFunctors w"
    using s2 by (simp_all add: still_def)
  have "net_st.more w3 = net_st.more ?w1" using N(4) s2 by (simp add: still_def)
  from same_more_lasting[OF this] have sm: "hostport w3 = hostport w" "server_name w3 = server_name w"
    "nextConnId w3 = nextConnId w + 1" "connections w3 = connections w" by simp_all
  show thesis
  proof (rule that)
    show "nextConnId w \<noteq> int_max" by (rule id)
    have "(state (conn_heap ?w6 n) = kDisconnected) = (state (conn_heap x n) = kDisconnected)"
      using x6 by (simp only: living_def lasting_def)
    then have "state (conn_heap ?w6 n) \<noteq> kDisconnected" by (simp only: xs N(5)) simp
    then have q: "living ?w6 (queueInLoop S task_owner (ConnConnectEstablished n) ?w6)" by (intro living_queue) auto
    have "living (queueInLoop S task_owner (ConnConnectEstablished n) ?w6) v"
      unfolding v by (intro living_quiet quiet_intros)
    with q x6 show "living x v" using living_trans by blast
    show "next_conn x = Suc n" using N(2) st by (simp add: xs n_def)
    show "state (conn_heap x n) = kConnecting" "conn_name (conn_heap x n) = nm" using N(5,7) by (simp_all add: xs)
    show "conn_heap x m = conn_heap w m" if "m \<noteq> n" for m using N(6)[of m] that by (simp add: xs st)
    show "pendingFunctors x = pendingFunctors w" using Q by (simp add: xs st)
  qed (simp_all add: xs sm)
qed

lemma update_fresh: "k \<notin> fst ` set al \<Longrightarrow> AList.update k v al = al @ [(k, v)]"
  by (induction al) auto

lemma fresh_name:
  assumes nm: "named w" shows "server_name w @ connection_suffix (hostport w) (nextConnId w) \<notin> fst ` set (connections w)"
    (is "?nm \<notin> _")
proof
  assume "?nm \<in> fst ` set (connections w)"
  then obtain m where "(?nm, m) \<in> set (connections w)" by force
  then obtain i where i: "i \<in> {1..<nextConnId w}"
    "connection_suffix (hostport w) (nextConnId w) = connection_suffix (hostport w) i"
    using nm by (auto simp: named_def)
  have "nextConnId w = i" using nm i by (intro suffix_inject[OF _ _ _ i(2)]) (auto simp: named_def)
  with i(1) show False by simp
qed

lemma newConnection_tracked:
  fixes w :: "('o, 'z) world"
  assumes safe: "keeps G L B' w" and tr: "tracked B w"
    and run: "newConnection S (my_handlers S) sockfd peer w = Inr v"
  shows "tracked B v \<and> steps t w v"
proof -
  let ?n = "next_conn w" and ?nm = "server_name w @ connection_suffix (hostport w) (nextConnId w)"
  obtain x where id: "nextConnId w \<noteq> int_max" and lv: "living x v"
    and n: "next_conn x = Suc ?n" and hp: "hostport x = hostport w"
    and cu: "connections x = AList.update ?nm ?n (connections w)"
    and sn: "server_name x = server_name w" "nextConnId x = nextConnId w + 1"
    and q: "pendingFunctors x = pendingFunctors w"
    and new: "conn_name (conn_heap x ?n) = ?nm" "state (conn_heap x ?n) = kConnecting"
    and old: "\<And>m. m \<noteq> ?n \<Longrightarrow> conn_heap x m = conn_heap w m"
    by (rule newConnection_shape[OF safe run]) blast
  have nm: "named w" and ph: "phased (B @ pendingFunctors w) w m" for m using tr by (simp_all add: tracked_def)
  have entry: "m < ?n" "k = conn_name (conn_heap w m)"
    "\<exists>i\<in>{1..<nextConnId w}. k = server_name w @ connection_suffix (hostport w) i"
    if "(k, m) \<in> set (connections w)" for k m
    using nm that by (auto simp: named_def)
  have fresh: "?nm \<notin> fst ` set (connections w)" using nm by (rule fresh_name)
  have cs: "set (connections x) = insert (?nm, ?n) (set (connections w))"
    using fresh by (simp add: cu update_fresh)
  have unmapped: "\<not> mapped w ?n" using mapped_exists[OF nm] by blast
  have mx: "mapped x m \<longleftrightarrow> m = ?n \<or> mapped w m" for m by (auto simp: mapped_def cs)
  have "phased (B @ pendingFunctors x) x m" for m
  proof (cases "m = ?n")
    case True
    then show ?thesis using ph[of ?n] unmapped new(2) by (simp add: phased_def n mx q)
  next
    case False
    then have "phased (B @ pendingFunctors x) x m = phased (B @ pendingFunctors w) w m"
      by (intro phased_cong) (simp_all add: n mx q old less_Suc_eq)
    then show ?thesis using ph by simp
  qed
  moreover have "named x"
    unfolding named_def
  proof (intro conjI)
    show "1 \<le> nextConnId x" "nextConnId x \<le> int_max" "length (hostport x) \<le> 21"
      using nm id by (simp_all add: named_def sn hp)
    show "\<forall>(k, m)\<in>set (connections x). m < next_conn x \<and> k = conn_name (conn_heap x m) \<and>
        (\<exists>i\<in>{1..<nextConnId x}. k = server_name x @ connection_suffix (hostport x) i)"
    proof (rule ballI, clarify)
      fix k m assume "(k, m) \<in> set (connections x)"
      then consider "k = ?nm" "m = ?n" | "(k, m) \<in> set (connections w)" by (auto simp: cs)
      then show "m < next_conn x \<and> k = conn_name (conn_heap x m) \<and>
        (\<exists>i\<in>{1..<nextConnId x}. k = server_name x @ connection_suffix (hostport x) i)"
      proof cases
        case 1
        moreover have "1 \<le> nextConnId w" using nm by (simp add: named_def)
        ultimately show ?thesis using new(1) by (auto simp: n sn hp intro!: bexI[of _ "nextConnId w"])
      next
        case 2
        from entry[OF 2] show ?thesis by (force simp: n sn hp old)
      qed
    qed
  qed
  ultimately have "tracked B x" by (simp add: tracked_def)
  moreover have "steps t w x" by (simp add: steps_def n mx q old)
  ultimately show ?thesis using tracked_living[OF lv] steps_trans[OF _ lv] by blast
qed

lemma acceptor_handleRead_tracked:
  fixes w :: "('o, 'z) world"
  assumes safe: "keeps G L B' w" and tr: "tracked B w"
    and run: "acceptor_handleRead S (my_new_connection S) w = Inr v"
  shows "tracked B v \<and> steps t w v"
proof -
  let ?p = "InetAddress_port big_endian_host 0"
  obtain connfd peer u where ac: "Socket_Accept S (acceptSocket w) ?p w = ((connfd, peer), u)" by (metis surj_pair)
  have "still w (snd (Socket_Accept S (acceptSocket w) ?p w))" by (intro still_intros)
  then have st: "still w u" by (simp add: ac)
  have u: "keeps G L B' u" using st safe by (rule safe_still)
  have l: "living w u" using st by (rule living_still)
  have cb: "newConnectionCallback u = Some ServerNewConnection" using safeD(9)[OF u] by (simp add: server_slots_def)
  show ?thesis
  proof (cases "0 \<le> connfd")
    case False
    then have "still u v" using run by (auto simp: acceptor_handleRead_def ac)
    then have "living w v" using l living_still living_trans by blast
    then show ?thesis using tr by (rule living_callback)
  next
    case True
    then have "newConnection S (my_handlers S) connfd peer u = Inr v"
      using run by (simp add: acceptor_handleRead_def ac cb my_new_connection_def)
    from newConnection_tracked[OF u tracked_living[OF l tr] this]
    have r: "tracked B v \<and> steps t u v" .
    then show ?thesis using steps_after[OF l] by blast
  qed
qed

text \<open>The callbacks of a connection.\<close>

lemma handleRead_tracked:
  fixes w :: "('o, 'z) world"
  assumes safe: "keeps G L B' w" and n: "n < next_conn w" and tr: "tracked B w"
    and run: "handleRead S (my_handlers S) n w = Inr v"
  shows "tracked B v \<and> steps t w v"
proof -
  obtain r bs e u where rd: "sock_read S (fd (conn_channel n w)) 1024 w = ((r, bs, e), u)" by (metis surj_pair)
  have "still w (snd (sock_read S (fd (conn_channel n w)) 1024 w))" by (intro still_intros)
  then have st: "still w u" by (simp add: rd)
  have u: "keeps G L B' u" using st safe by (rule safe_still)
  have l: "living w u" using st by (rule living_still)
  have nu: "n < next_conn u" using st n by (simp add: still_def)
  consider "0 < r" | "r = 0" | "r < 0" by linarith
  then show ?thesis
  proof cases
    case 1
    then have "with_shared S n (\<lambda>x. call_fn (messageCallback (conn_heap x n))
        (\<lambda>c. on_message (my_handlers S) c n (take (nat r) bs) x)) u = Inr v"
      using run by (simp add: handleRead_def loop_op_defs rd)
    then obtain y where y: "call_fn (messageCallback (conn_heap (acquire n u) n))
        (\<lambda>c. on_message (my_handlers S) c n (take (nat r) bs) (acquire n u)) = Inr y"
      "living u (acquire n u)" "living y v"
      by (rule with_shared_living)
    have ua: "keeps G (add_mset n L) B' (acquire n u)" using u nu by (rule safe_acquire)
    have "n < next_conn (acquire n u)" using nu by (simp add: acquire_def)
    from slotsD(2)[OF ua this] have "onMessage S n (take (nat r) bs) (acquire n u) = Inr y"
      using y(1) by (simp only: call_fn_def option.case my_handlers_def handlers.simps my_on_message_def callback.case)
    from onMessage_living[OF ua this] have "living w v"
      using l y(2,3) living_trans by meson
    then show ?thesis using tr by (rule living_callback)
  next
    case 2
    then have "handleClose S (my_handlers S) n u = Inr v"
      using run by (simp add: handleRead_def loop_op_defs rd)
    from handleClose_tracked[OF u nu tracked_living[OF l tr] this] show ?thesis using steps_after[OF l] by blast
  next
    case 3
    then have "v = u" using run by (simp add: handleRead_def loop_op_defs rd handleError_def)
    then show ?thesis using l tr living_callback by blast
  qed
qed

section \<open>Every task\<close>

lemma callback_tracked:
  fixes w :: "('o, 'z) world"
  assumes safe: "safe Map.empty {} L B' w" and tr: "tracked B w" and t: "is_callback t"
    and run: "run_task S t w = Inr v"
  shows "tracked B v \<and> steps t w v"
proof (cases t)
  case LoopHandleRead
  have "still w (loop_handleRead S w)" by (intro still_intros)
  then have "living w (loop_handleRead S w)" by (rule living_still)
  then show ?thesis using LoopHandleRead run tr living_callback by (metis run_task.simps(1) sum.inject(2))
next
  case AcceptorHandleRead
  then show ?thesis using acceptor_handleRead_tracked[OF safe tr] run by simp
next
  case (ConnHandleRead n)
  then have "handleRead S (my_handlers S) n w = Inr v" "n < next_conn w"
    using run safe_exists[OF safe, of n] by (auto simp: on_alive_def split: if_splits)
  then show ?thesis using handleRead_tracked[OF safe _ tr] by blast
next
  case (ConnHandleWrite n)
  then have "handleWrite S n w = Inr v" "n < next_conn w"
    using run safe_exists[OF safe, of n] by (auto simp: on_alive_def split: if_splits)
  then show ?thesis using handleWrite_living[OF safe] tr living_callback by blast
next
  case (ConnHandleClose n)
  then have "handleClose S (my_handlers S) n w = Inr v" "n < next_conn w"
    using run safe_exists[OF safe, of n] by (auto simp: on_alive_def split: if_splits)
  then show ?thesis using handleClose_tracked[OF safe _ tr] by blast
next
  case (ConnHandleError n)
  then have "v = w" using run by (simp add: on_alive_def handleError_def split: if_splits)
  then show ?thesis using tr living_callback[of w w] by simp
qed (use t in simp_all)

text \<open>A functor is removed from the batch when it runs.\<close>

lemma functor_tracked:
  fixes w :: "('o, 'z) world"
  assumes safe: "safe Map.empty {} L (t # B) w" and tr: "tracked (t # B) w" and t: "queueable t"
    and run: "run_task S t w = Inr v"
  shows "tracked B v \<and> steps t w v \<and> (\<forall>n. t = ServerRemoveConnectionInLoop n \<longrightarrow> \<not> mapped v n)"
proof (cases t)
  case AcceptorListen
  have "still w (acceptor_listen S w)" unfolding acceptor_listen_def Let_def by (intro still_intros)
  then have "living w v" using AcceptorListen run living_still by simp
  then show ?thesis using AcceptorListen tr living_task[of w v t B] by simp
next
  case LoopHandleRead
  then show ?thesis using t by simp
next
  case (ConnShutdownInLoop n)
  have "still w (shutdownInLoop S n w)" by (intro still_intros)
  then have "living w v" using ConnShutdownInLoop run living_still by (auto simp: on_alive_def split: if_splits)
  then show ?thesis using ConnShutdownInLoop tr living_task[of w v t B] by simp
next
  case (ConnForceCloseInLoop n)
  have k: "keeps Map.empty L B w" and tr': "tracked B w"
    using safe tr ConnForceCloseInLoop by (simp_all add: safe_skip tracked_skip)
  have run': "forceCloseInLoop S (my_handlers S) n w = Inr v" "n < next_conn w"
    using ConnForceCloseInLoop run safe_exists[OF safe, of n] by (auto simp: on_alive_def split: if_splits)
  have "tracked B v \<and> steps t w v"
  proof (cases "state (conn_heap w n) = kConnected \<or> state (conn_heap w n) = kDisconnecting")
    case True
    then show ?thesis using run' handleClose_tracked[OF k _ tr'] by (auto simp: forceCloseInLoop_def loop_op_defs)
  next
    case False
    then show ?thesis using run' tr' living_callback[of w w] by (auto simp: forceCloseInLoop_def loop_op_defs)
  qed
  then show ?thesis using ConnForceCloseInLoop by simp
next
  case (ConnConnectEstablished n)
  then have "connectEstablished S (my_handlers S) n w = Inr v" using run by (simp add: on_alive_def split: if_splits)
  with safe have "living w v" unfolding ConnConnectEstablished by (rule connectEstablished_living)
  then show ?thesis using ConnConnectEstablished tr living_task[of w v t B] by simp
next
  case (ConnConnectDestroyed n)
  then have "connectDestroyed S (my_handlers S) n w = Inr v" using run by (simp add: on_alive_def split: if_splits)
  with tr show ?thesis unfolding ConnConnectDestroyed using connectDestroyed_tracked by blast
next
  case (ServerRemoveConnectionInLoop n)
  then have k: "keeps Map.empty L B w" using safe by (simp add: safe_skip)
  have v: "v = removeConnectionInLoop S n w" using run ServerRemoveConnectionInLoop by simp
  from removeConnectionInLoop_tracked[OF k tr[unfolded ServerRemoveConnectionInLoop], of S]
  show ?thesis unfolding v ServerRemoveConnectionInLoop by simp
qed (use t in simp_all)

section \<open>Iterations\<close>

text \<open>
  The invariant of an iteration that starts with the connections \<open>D\<close> closed and the
  connections \<open>E\<close> out of the map: both stay so.
\<close>

definition gone :: "nat set \<Rightarrow> nat set \<Rightarrow> ('o, 'z) world \<Rightarrow> bool" where
  "gone D E w \<longleftrightarrow> (\<forall>n\<in>D. n < next_conn w \<and> state (conn_heap w n) = kDisconnected) \<and>
     (\<forall>n\<in>E. n < next_conn w \<and> \<not> mapped w n)"

lemma gone_steps: "gone D E w \<Longrightarrow> steps t w v \<Longrightarrow> gone D E v"
  by (fastforce simp: gone_def steps_def)

abbreviation retiring :: "'o os_calls \<Rightarrow> nat set \<Rightarrow> nat set \<Rightarrow> nat multiset \<Rightarrow> task list \<Rightarrow>
    ('o, 'z) world \<Rightarrow> bool" where
  "retiring S D E L B w \<equiv> (documented_calls S \<and> safe Map.empty {} L B w) \<and> tracked B w \<and> gone D E w"

lemma going_living: "tracked B w \<and> gone D E w \<Longrightarrow> living w v \<Longrightarrow> tracked B v \<and> gone D E v"
  using tracked_living gone_steps steps_living by blast

interpretation ret: owned_invariant S "conn_dtor S" task_owner "run_task S"
    "\<lambda>L B w. documented_calls S \<and> safe Map.empty {} L B w" queueable is_callback conn_of server_fault
    "\<lambda>L B w. tracked B w \<and> gone D E w"
  for S D E
proof
  fix L B and w v :: "('a, 'b) world" and t
  assume "documented_calls S \<and> safe Map.empty {} L (t # B) w" "tracked (t # B) w \<and> gone D E w" "queueable t"
    "run_task S t w = Inr v"
  then show "tracked B v \<and> gone D E v" using functor_tracked[of L t B w S v] gone_steps by blast
next
  fix L and w v :: "('a, 'b) world" and t
  assume "documented_calls S \<and> safe Map.empty {} L [] w" "tracked [] w \<and> gone D E w" "is_callback t"
    "run_task S t w = Inr v"
  then show "tracked [] v \<and> gone D E v" using callback_tracked[of L "[]" w "[]" t S v] gone_steps by blast
next
  fix B and w :: "('a, 'b) world" and c n a b
  assume w: "tracked B w \<and> gone D E w"
  have st: "tracked B v \<and> gone D E v" if "still w v" for v using w living_still[OF that] by (rule going_living)
  show "tracked B (acquire n w) \<and> gone D E (acquire n w)" using w by (rule going_living) (intro living_quiet quiet_intros)
  show "tracked B (loop_poll S w) \<and> gone D E (loop_poll S w)" by (rule st) (intro still_intros)
  show "tracked B (upd_chan c (\<lambda>ch. ch\<lparr>ch_eventHandling := b\<rparr>) w) \<and> gone D E (upd_chan c (\<lambda>ch. ch\<lparr>ch_eventHandling := b\<rparr>) w)"
    by (rule st) (intro still_intros)
  show "tracked B (w\<lparr>eventHandling := b\<rparr>) \<and> gone D E (w\<lparr>eventHandling := b\<rparr>)" by (rule st) (intro still_intros)
  show "tracked B (w\<lparr>currentActiveChannel := a\<rparr>) \<and> gone D E (w\<lparr>currentActiveChannel := a\<rparr>)" by (rule st) (intro still_intros)
  show "tracked B (w\<lparr>callingPendingFunctors := b\<rparr>) \<and> gone D E (w\<lparr>callingPendingFunctors := b\<rparr>)" by (rule st) (intro still_intros)
next
  fix w :: "('a, 'b) world" and n b
  assume w: "tracked [] w \<and> gone D E w"
  then show "tracked [] (release (conn_dtor S) n w) \<and> gone D E (release (conn_dtor S) n w)"
    by (rule going_living) (intro living_quiet quiet_intros)
  let ?v = "w\<lparr>callingPendingFunctors := b, pendingFunctors := []\<rparr>"
  have "tracked (pendingFunctors w) ?v = tracked [] w" "gone D E ?v = gone D E w"
    by (simp_all add: tracked_def phased_def named_def mapped_def gone_def)
  with w show "tracked (pendingFunctors w) ?v \<and> gone D E ?v" by simp
qed

section \<open>Reachable states\<close>

lemma boot_tracked:
  assumes "boot S k = Inr w" shows "tracked [] (w\<lparr>thisThread := 1, quit := False\<rparr>)"
proof -
  obtain w1 w2 where w1: "loop_new S LoopHandleRead (initial_world k) = Inr w1"
    and w2: "myserver_new S (InetAddress_port big_endian_host 55266) 2 w1 = Inr w2" and w: "myserver_start S w2 = Inr w"
    using assms by (auto simp: boot_def ebind_eq_Inr)
  have s2: "starting w2" "connections w2 = []" using starting_server[OF starting_loop_new[OF w1] w2] by simp_all
  have m2: "nextConnId w2 = 1" "length (hostport w2) \<le> 21"
    using w2 by (auto simp: myserver_new_def server_new_def ebind_eq_Inr Let_def setNewConnectionCallback_def
        server_setMessageCallback_def server_setConnectionCallback_def demo_host)
  from s2(1) have "isInLoopThread w2" by (simp add: starting_def isInLoopThread_def)
  then have "w = acceptor_listen S w2" using w by (simp add: myserver_start_def server_start_def runInLoop_def)
  then have st: "still w2 w" unfolding acceptor_listen_def Let_def by simp (intro still_intros)
  have m: "connections w = []" "hostport w = hostport w2" "nextConnId w = 1"
    using st same_more_lasting[of w w2] s2(2) m2(1) by (simp_all add: still_def)
  have "next_conn w = 0" "pendingFunctors w = []" using st s2(1) by (simp_all add: still_def starting_def)
  then show ?thesis using m m2(2) by (simp add: tracked_def phased_def named_def mapped_def int_max_def)
qed

lemma iteration_retiring:
  assumes "retiring S D E {#} [] w" "server_iteration S w = Inr v" shows "retiring S D E {#} [] v"
  using ret.both.body_safe[OF assms(1)] assms(2) by (simp add: server_iteration_def)

lemma reachable_retiring:
  assumes S: "documented_calls S" and "reachable S k w" shows "retiring S {} {} {#} [] w"
  using assms(2)
proof induction
  case (enter w)
  then show ?case using S boot_safe boot_tracked by (auto simp: gone_def)
next
  case (iterate w v)
  from iterate.IH iterate.hyps(2) show ?case by (rule iteration_retiring)
qed

lemma retiring_from:
  assumes "retiring S {} {} {#} [] w" "gone D E w" shows "retiring S D E {#} [] w"
  using assms by simp

text \<open>An open connection is alive.\<close>

lemma open_alive:
  assumes "documented_calls S" "reachable S k w" "n < next_conn w" "open_state (state (conn_heap w n))"
  shows "0 < refs w n"
proof -
  have "safe Map.empty {} {#} [] w" "tracked [] w" using reachable_retiring[OF assms(1,2)] by simp_all
  moreover from this(2) have "phased (pendingFunctors w) w n" by (simp add: tracked_def)
  then have "mapped w n" using assms(3,4) by (auto simp: phased_def open_state_def)
  then have "n \<in># held w" by (auto simp: held_def mapped_def)
  ultimately show ?thesis using safeD(1)[of Map.empty "{}" "{#}" "[]" w n] by simp
qed

text \<open>The batch takes every connection that was closed before the iteration out of the map.\<close>

lemma release_all_quiet: "quiet w (release_all (conn_dtor S) task_owner ts w)"
proof (induction ts arbitrary: w)
  case (Cons t ts)
  have "quiet w (release_opt (conn_dtor S) (task_owner t) w)" by (intro quiet_intros)
  with Cons.IH show ?case using quiet_trans by auto
qed simp

lemma iteration_unmaps:
  assumes w: "retiring S D E {#} [] w" and v: "server_iteration S w = Inr v" and n: "n \<in> D"
  shows "\<not> mapped v n"
proof -
  obtain w2 w4 where w2: "retiring S D E {#} [] w2"
    and run: "foldE (run_task S) (pendingFunctors w2) (w2\<lparr>callingPendingFunctors := True, pendingFunctors := []\<rparr>) = Inr w4"
    and rel: "v = release_all (conn_dtor S) task_owner (pendingFunctors w2) (w4\<lparr>callingPendingFunctors := False\<rparr>)"
    using ret.both.body_halves[OF v[unfolded server_iteration_def] w] .
  let ?s = "w2\<lparr>callingPendingFunctors := True, pendingFunctors := []\<rparr>"
  let ?J = "\<lambda>us u. mapped u n \<longrightarrow> ServerRemoveConnectionInLoop n \<in> set us"
  have "?J [] w4"
  proof (rule ret.both.batch_invariant[OF w2 run])
    have "phased (pendingFunctors w2) w2 n" "n < next_conn w2" "state (conn_heap w2 n) = kDisconnected"
      using w2 n by (auto simp: tracked_def gone_def)
    then have "mapped w2 n \<longrightarrow> removals (pendingFunctors w2) n \<noteq> 0" by (simp add: phased_def)
    then show "?J (pendingFunctors w2) ?s" by (simp add: mapped_def count_list_0_iff)
    fix t us u x
    assume u: "retiring S D E (owners task_owner (pendingFunctors w2)) (t # us) u" and t: "queueable t"
      and J: "?J (t # us) u" and x: "run_task S t u = Inr x"
    have f: "steps t u x \<and> (\<forall>n. t = ServerRemoveConnectionInLoop n \<longrightarrow> \<not> mapped x n)"
      using functor_tracked[of _ t us u S x] u t x by blast
    have "n < next_conn u" using u n by (simp add: gone_def)
    with f have "mapped x n \<longrightarrow> mapped u n" by (simp add: steps_def)
    then show "?J us x" using f J by auto
  qed
  then have "\<not> mapped w4 n" by simp
  moreover have "lasting (w4\<lparr>callingPendingFunctors := False\<rparr>) v"
    using living_quiet[OF release_all_quiet] unfolding rel living_def by blast
  ultimately show ?thesis by (simp add: mapped_def lasting_def)
qed

text \<open>For a connection that is closed and out of the map the batch queues nothing.\<close>

lemma iteration_forgets:
  assumes w: "retiring S {n} {n} {#} [] w" and v: "server_iteration S w = Inr v"
    and t: "t \<in> set (pendingFunctors v)"
  shows "conn_of t \<noteq> Some n"
proof -
  obtain w2 w4 where w2: "retiring S {n} {n} {#} [] w2"
    and run: "foldE (run_task S) (pendingFunctors w2) (w2\<lparr>callingPendingFunctors := True, pendingFunctors := []\<rparr>) = Inr w4"
    and rel: "v = release_all (conn_dtor S) task_owner (pendingFunctors w2) (w4\<lparr>callingPendingFunctors := False\<rparr>)"
    using ret.both.body_halves[OF v[unfolded server_iteration_def] w] .
  let ?J = "\<lambda>us u. \<forall>x\<in>set (pendingFunctors u). conn_of x \<noteq> Some n"
  have "?J [] w4"
  proof (rule ret.both.batch_invariant[OF w2 run])
    fix t us u x
    assume u: "retiring S {n} {n} (owners task_owner (pendingFunctors w2)) (t # us) u" and t: "queueable t"
      and J: "?J (t # us) u" and x: "run_task S t u = Inr x"
    have g: "n < next_conn u" "state (conn_heap u n) = kDisconnected" "\<not> mapped u n" and tr: "tracked (t # us) u"
      using u by (simp_all add: gone_def)
    have "t \<noteq> ServerRemoveConnectionInLoop n" using removal_phase(1)[of n us u] tr g(3) by blast
    moreover have "steps t u x" using functor_tracked[of _ t us u S x] u t x by blast
    ultimately show "?J us x" using g(1,2) J unfolding steps_def by auto
  qed simp
  moreover have "pendingFunctors v = pendingFunctors w4"
  proof -
    have "quiet (w4\<lparr>callingPendingFunctors := False\<rparr>) v" unfolding rel by (rule release_all_quiet)
    then show ?thesis by (simp add: quiet_def same_loop_def)
  qed
  ultimately show ?thesis using t by simp
qed

section \<open>Properties\<close>

text \<open>C4: No connection leaks.  Once a connection is disconnected, whoever closed it, two iterations of
  the loop, whatever else happens in them, take it out of the server's map and destroy it:
  the first runs the queued \<open>removeConnectionInLoop\<close>, the second \<open>connectDestroyed\<close>, after which
  nothing owns it.\<close>
theorem closed_connection_destroyed:
  assumes "documented_calls S" and "reachable S k w"
    and "n < next_conn w" and "state (conn_heap w n) = kDisconnected"
  shows "case ebind (server_iteration S w) (server_iteration S) of
           Inl e \<Rightarrow> e \<in> {Null_dereference, Length_error, Signed_overflow}
         | Inr v \<Rightarrow> refs v n = 0 \<and> n \<notin> snd ` set (connections v)"
proof -
  have w: "retiring S {n} {} {#} [] w"
    using assms(3,4) by (intro retiring_from[OF reachable_retiring[OF assms(1,2)]]) (simp add: gone_def)
  have tolerated: "e \<in> {Null_dereference, Length_error, Signed_overflow}"
    if "retiring S D E {#} [] x" "server_iteration S x = Inl e" for x D E e
  proof -
    have "server_fault e" using ret.both.body_safe[OF that(1)] that(2) by (simp add: server_iteration_def)
    then show ?thesis by (auto simp: server_fault_def)
  qed
  show ?thesis
  proof (cases "server_iteration S w")
    case (Inl e)
    then show ?thesis using tolerated[OF w] by simp
  next
    case u: (Inr u)
    have "\<not> mapped u n" using iteration_unmaps[OF w u] by simp
    then have u': "retiring S {n} {n} {#} [] u"
      using iteration_retiring[OF w u] by (simp add: gone_def)
    show ?thesis
    proof (cases "server_iteration S u")
      case (Inl e)
      then show ?thesis using tolerated[OF u'] u by simp
    next
      case v: (Inr v)
      have v': "retiring S {n} {n} {#} [] v" using u' v by (rule iteration_retiring)
      then have unmapped: "n \<notin> snd ` set (connections v)" by (simp add: gone_def mapped_def)
      have "n \<notin># held v"
      proof
        assume "n \<in># held v"
        then obtain t where "t \<in> set (pendingFunctors v)" "task_owner t = Some n"
          using unmapped owners_memberE[of n task_owner "pendingFunctors v"] by (auto simp: held_def)
        with iteration_forgets[OF u' v, of t] show False by (cases t) auto
      qed
      moreover have "safe Map.empty {} {#} [] v" using v' by simp
      ultimately have "refs v n = 0" using safeD(1)[of Map.empty "{}" "{#}" "[]" v n] by (simp add: not_in_iff)
      with unmapped show ?thesis by (simp add: u v)
    qed
  qed
qed

text \<open>
  A kernel on which one client connects and hangs up, after which the loop is only woken for
  its own queue.
\<close>

definition hangup_kernel :: "nat os_calls" where
  "hangup_kernel = demo_kernel\<lparr>os_epoll_wait :=
     (\<lambda>_ _ _ k. ((1, [(EPOLLIN, if k = 0 then 2 else if k = 1 then 3 else 1)]), Suc k))\<rparr>"

lemma hangup_kernel_simps:
  "os_socket hangup_kernel k = (6, k)" "os_eventfd hangup_kernel k = (4, k)" "os_epoll_create hangup_kernel k = (5, k)"
  "os_setsockopt hangup_kernel a b c k = (0, k)" "os_bind hangup_kernel a d k = (0, k)" "os_listen hangup_kernel a k = (0, k)"
  "os_epoll_ctl hangup_kernel a q f ev p k = (0, k)" "os_close hangup_kernel a k = (0, k)" "os_shutdown hangup_kernel a h k = (0, k)"
  "os_accept hangup_kernel a k = ((6 + int k, InetAddress_port False 4000), k)"
  "os_getsockname hangup_kernel a k = ((0, InetAddress_port False 55266), k)"
  "os_epoll_wait hangup_kernel a n t k = ((1, [(EPOLLIN, if k = 0 then 2 else if k = 1 then 3 else 1)]), Suc k)"
  "os_write hangup_kernel a bs k = ((int (length bs), EINTR), k)"
  "os_read hangup_kernel f n k = ((if f = 4 then (8, eventfd_one, EINTR) else if f = 7 then (0, [], EINTR)
     else (1, [65], EINTR)), k)"
  by (simp_all add: hangup_kernel_def demo_kernel_def)

lemma hangup_run:
  "case boot hangup_kernel 0 of Inl e \<Rightarrow> False | Inr w \<Rightarrow>
   (case iterations hangup_kernel (conn_dtor hangup_kernel) task_owner (run_task hangup_kernel) 2
       (w\<lparr>thisThread := 1, quit := False\<rparr>) of
      Inl e \<Rightarrow> False
    | Inr u \<Rightarrow> next_conn u = 1 \<and> state (conn_heap u 0) = kDisconnected \<and> 0 < refs u 0 \<and>
        (case iterations hangup_kernel (conn_dtor hangup_kernel) task_owner (run_task hangup_kernel) 2 u of
           Inl e \<Rightarrow> False | Inr v \<Rightarrow> next_conn v = 1 \<and> refs v 0 = 0))"
  by (simp add: boot_defs iteration_defs hangup_kernel_simps demo_new_buffer demo_host demo_names demo_peer
      iterations_unrolled Suc_zero del: One_nat_def iterations.simps
      cong: ebind_weak_cong let_weak_cong prod.case_cong_weak)

lemma hangup_states:
  "\<exists>w v. reachable hangup_kernel 0 w \<and> next_conn w = 1 \<and> state (conn_heap w 0) = kDisconnected \<and> 0 < refs w 0 \<and>
     ebind (server_iteration hangup_kernel w) (server_iteration hangup_kernel) = Inr v \<and>
     reachable hangup_kernel 0 v \<and> next_conn v = 1 \<and> refs v 0 = 0"
proof -
  let ?it = "iterations hangup_kernel (conn_dtor hangup_kernel) task_owner (run_task hangup_kernel) 2"
  obtain u w v where u: "boot hangup_kernel 0 = Inr u" "?it (u\<lparr>thisThread := 1, quit := False\<rparr>) = Inr w"
    and w: "next_conn w = 1" "state (conn_heap w 0) = kDisconnected" "0 < refs w 0" "?it w = Inr v"
    and v: "next_conn v = 1" "refs v 0 = 0"
    using hangup_run by (auto split: sum.splits)
  have r: "reachable hangup_kernel 0 w" using reachable.enter[OF u(1)] u(2) by (rule reachable_iterations)
  moreover have "ebind (server_iteration hangup_kernel w) (server_iteration hangup_kernel) = Inr v"
    using w(4) by (auto simp: iterations_unrolled ebind_eq_Inr server_iteration_def)
  moreover have "reachable hangup_kernel 0 v" using r w(4) by (rule reachable_iterations)
  ultimately show ?thesis using w v by blast
qed

lemma hangup_documented: "documented_calls hangup_kernel"
  by (simp add: documented_calls_def hangup_kernel_simps InetAddress_port_def)

lemma closed_connection_destroyed_witness:
  "\<exists>w v. reachable hangup_kernel 0 w \<and> state (conn_heap w 0) = kDisconnected \<and> 0 < refs w 0 \<and>
     ebind (server_iteration hangup_kernel w) (server_iteration hangup_kernel) = Inr v \<and>
     refs v 0 = 0 \<and> 0 \<notin> snd ` set (connections v)"
proof -
  obtain w v where w: "reachable hangup_kernel 0 w" "next_conn w = 1" "state (conn_heap w 0) = kDisconnected"
    "0 < refs w 0" "ebind (server_iteration hangup_kernel w) (server_iteration hangup_kernel) = Inr v"
    using hangup_states by blast
  from closed_connection_destroyed[OF hangup_documented w(1), of 0] w show ?thesis by auto
qed

end
