(* ===== verification/ConnectionInvariant.thy ===== *)
theory ConnectionInvariant
  imports Retirement
begin

text \<open>
  Invariants of the connections, as an interface.  \<open>connection_invariant\<close> lists the few basic
  steps the program's handlers are made of, each with what is known when it is taken; an
  invariant that they keep is kept by every handler, every task and every iteration, and so
  holds in every reachable state.
\<close>

section \<open>The interface\<close>

text \<open>The functors of the batch run on connections that the batch owns.\<close>

definition batched :: "nat multiset \<Rightarrow> task list \<Rightarrow> bool" where
  "batched L B \<longleftrightarrow> (\<forall>t\<in>set B. \<forall>n. conn_of t = Some n \<longrightarrow> n \<in># L)"

text \<open>\<open>J B w\<close> is the invariant with the rest \<open>B\<close> of the batch still to run.\<close>

locale connection_invariant =
  fixes S :: "'o os_calls" and J :: "task list \<Rightarrow> 'o myserver_st \<Rightarrow> bool"
  assumes skip_J: "J (t # B) w \<Longrightarrow> (\<And>n. t \<noteq> ConnConnectDestroyed n) \<Longrightarrow> J B w"
    and swap_J: "J [] w \<Longrightarrow> J (pendingFunctors w) (w\<lparr>callingPendingFunctors := b, pendingFunctors := []\<rparr>)"
    and poll_J: "J B w \<Longrightarrow> J B (loop_poll S w)"
    and mark_J: "J B w \<Longrightarrow> J B (upd_chan c (\<lambda>ch. ch\<lparr>ch_eventHandling := b\<rparr>) w)"
    and flags_J: "J B w \<Longrightarrow> J B (w\<lparr>eventHandling := b\<rparr>)" "J B w \<Longrightarrow> J B (w\<lparr>currentActiveChannel := a\<rparr>)"
      "J B w \<Longrightarrow> J B (w\<lparr>callingPendingFunctors := b\<rparr>)"
    and members_J: "J B w \<Longrightarrow> J B (w\<lparr>numConnected := i\<rparr>)" "J B w \<Longrightarrow> flag w \<Longrightarrow> J B (w\<lparr>flag := False, hostPtr := Some n\<rparr>)"
    and io_J: "J B w \<Longrightarrow> J B (snd (sock_write S f bs w))" "J B w \<Longrightarrow> J B (snd (sock_read S f k w))"
      "J B w \<Longrightarrow> J B (shutdownInLoop S n w)"
    and enqueue_J: "J B w \<Longrightarrow> J B (w\<lparr>pendingFunctors := pendingFunctors w @ [t]\<rparr>)"
    and acquire_J: "J B w \<Longrightarrow> 0 < refs w n \<Longrightarrow> J B (acquire n w)"
    and release_J: "J B w \<Longrightarrow> J B (release (conn_dtor S) n w)"
    and buffer_J: "J B w \<Longrightarrow> J B (upd_conn n (\<lambda>cn. cn\<lparr>outputBuffer := buf\<rparr>) w)"
    and closing_J: "J B w \<Longrightarrow> open_state (state (conn_heap w n)) \<Longrightarrow> J B (upd_conn n (setState kDisconnecting) w)"
    and enable_J: "J B w \<Longrightarrow> n < next_conn w \<Longrightarrow> open_state (state (conn_heap w n)) \<Longrightarrow>
      J B (enableWriting S (channel_of (conn_heap w n)) w)"
    and disable_J: "J B w \<Longrightarrow> n < next_conn w \<Longrightarrow> isWriting (conn_channel n w) \<Longrightarrow>
      J B (disableWriting S (channel_of (conn_heap w n)) w)"
    and listen_J: "J B w \<Longrightarrow> J B (acceptor_listen S w)"
    and accept_J: "safe Map.empty {} L [] w \<Longrightarrow> tracked [] w \<Longrightarrow> J [] w \<Longrightarrow>
      acceptor_handleRead S (my_new_connection S) w = Inr v \<Longrightarrow> J [] v"
    and establish_J: "safe Map.empty {} L (ConnConnectEstablished n # B) w \<Longrightarrow> tracked B w \<Longrightarrow> batched L B \<Longrightarrow>
      J B w \<Longrightarrow> 0 < refs w n \<Longrightarrow> c = channel_of (conn_heap w n) \<Longrightarrow>
      J B (enableReading S c (upd_chan c (channel_tie n) (upd_conn n (setState kConnected) w)))"
    and close_J: "J B w \<Longrightarrow> n < next_conn w \<Longrightarrow> open_state (state (conn_heap w n)) \<Longrightarrow> mapped w n \<Longrightarrow>
      J B (disableAll S (channel_of (conn_heap w n)) (upd_conn n (setState kDisconnected) w))"
    and remove_J: "safe Map.empty {} L B w \<Longrightarrow> tracked (ServerRemoveConnectionInLoop n # B) w \<Longrightarrow> n \<in># L \<Longrightarrow>
      J B w \<Longrightarrow> J B (removeConnectionInLoop S n w)"
    and destroy_J: "J (ConnConnectDestroyed n # B) w \<Longrightarrow> n < next_conn w \<Longrightarrow> state (conn_heap w n) = kDisconnected \<Longrightarrow>
      J B (channel_remove S (channel_of (conn_heap w n)) w)"
begin

subsection \<open>Owners and functors\<close>

lemma queue_J:
  assumes J: "J B w" and a: "\<And>n. task_owner t = Some n \<Longrightarrow> 0 < refs w n"
  shows "J B (queueInLoop S task_owner t w)"
proof -
  let ?u = "acquire_opt (task_owner t) (w\<lparr>pendingFunctors := pendingFunctors w @ [t]\<rparr>)"
  have "J B (w\<lparr>pendingFunctors := pendingFunctors w @ [t]\<rparr>)" using J by (rule enqueue_J)
  then have "J B ?u" using a by (auto simp: acquire_opt_def intro: acquire_J split: option.split)
  then show ?thesis by (simp add: queueInLoop_def Let_def wakeup_def io_J)
qed

lemma with_shared_J:
  assumes "with_shared S n f w = Inr v" "J B w"
    and "\<And>u. J B (acquire n w) \<Longrightarrow> f (acquire n w) = Inr u \<Longrightarrow> J B u"
  shows "J B v"
proof -
  obtain u where u: "0 < refs w n" "f (acquire n w) = Inr u" "v = release (conn_dtor S) n u"
    using assms(1) by (auto simp: with_shared_def ebind_eq_Inr split: if_splits)
  show ?thesis unfolding u(3) by (intro release_J assms(3)[OF _ u(2)] acquire_J[OF assms(2) u(1)])
qed

subsection \<open>The handlers\<close>

lemma close_again_J:
  assumes J: "J B w" and safe: "safe G {} L C w" and st: "state (conn_heap w n) = kConnected"
    and run: "ebind (shutdown S n w) (forceClose S n) = Inr v"
  shows "J B v"
proof -
  let ?w1 = "upd_conn n (setState kDisconnecting) w" let ?u = "queueInLoop S task_owner (ConnShutdownInLoop n) ?w1"
  have k1: "safe G {} L C ?w1" using safe st by (intro safe_setState) simp_all
  have sh: "shutdown S n w = Inr ?u" using st not_in_loop[OF k1] by (simp add: shutdown_def runInLoop_def)
  have "J B ?w1" using J st by (intro closing_J) (simp_all add: open_state_def)
  then have Ju: "J B ?u" by (rule queue_J) simp
  have u: "refs ?u = refs w" "next_conn ?u = next_conn w" "conn_heap ?u = conn_heap ?w1"
    using queueInLoop_still[of "ConnShutdownInLoop n" ?w1 S] by (simp_all add: still_def acquire_opt_def upd_conn_def)
  have so: "state (conn_heap ?u n) = kDisconnecting" by (simp add: u(3))
  then have "J B (upd_conn n (setState kDisconnecting) ?u)" using Ju by (intro closing_J) (simp_all add: open_state_def)
  moreover have "0 < refs w n" "v = queueInLoop S task_owner (ConnForceCloseInLoop n) (upd_conn n (setState kDisconnecting) ?u)"
    using run sh so u(1) by (auto simp: forceClose_def queue_shared_def upd_conn_def split: if_splits)
  ultimately show ?thesis using u(1,2) by (auto intro!: queue_J simp: upd_conn_def)
qed

lemma onConnection_J:
  assumes J: "J B w" and safe: "safe G {} L C w" and run: "onConnection S n w = Inr v"
  shows "J B v"
proof -
  let ?w1 = "w\<lparr>numConnected := numConnected w + 1\<rparr>"
  have k1: "safe G {} L C ?w1" using safe by (rule safe_numConnected)
  have J1: "J B ?w1" using J by (rule members_J)
  have "J B v" if "ebind (shutdown S n ?w1) (forceClose S n) = Inr v" "connected n w"
    using close_again_J[OF J1 k1 _ that(1)] that(2) by (simp add: connected_def)
  moreover have "J B (?w1\<lparr>flag := False, hostPtr := Some n\<rparr>)" if "flag w" using J1 that by (intro members_J(2)) simp_all
  moreover have "J B (w\<lparr>numConnected := numConnected w - 1\<rparr>)" using J by (rule members_J)
  ultimately show ?thesis using run J1 by (auto simp: onConnection_def Let_def split: if_splits)
qed

lemma send_remaining_J:
  assumes run: "send_remaining S n data k r e w = Inr v" and J: "J B w" and n: "n < next_conn w"
    and st: "open_state (state (conn_heap w n))" and cb: "highWaterMarkCallback (conn_heap w n) = None"
  shows "J B v"
proof -
  have b: "J B (upd_conn n (\<lambda>cn. cn\<lparr>outputBuffer := b\<rparr>) w)" for b using J by (rule buffer_J)
  have "J B (enableWriting S (channel_of (conn_heap (upd_conn n (\<lambda>cn. cn\<lparr>outputBuffer := b\<rparr>) w) n))
      (upd_conn n (\<lambda>cn. cn\<lparr>outputBuffer := b\<rparr>) w))" for b
    using b st n by (intro enable_J) (simp_all add: upd_conn_def)
  then show ?thesis using run cb b J by (auto simp: send_remaining_def Let_def ebind_eq_Inr split: if_splits)
qed

lemma send_J:
  assumes run: "send S n data w = Inr v" and J: "J B w" and n: "n < next_conn w"
    and st: "state (conn_heap w n) \<noteq> kConnecting"
    and cb: "highWaterMarkCallback (conn_heap w n) = None" "writeCompleteCallback (conn_heap w n) = None"
  shows "J B v"
proof (cases "state (conn_heap w n) = kDisconnected")
  case True
  then show ?thesis using run J by (simp add: send_def sendInLoop_def loop_op_defs Let_def)
next
  case False
  then have o: "open_state (state (conn_heap w n))" using st by (cases "state (conn_heap w n)") (simp_all add: open_state_def)
  obtain r e u where wr: "sock_write S (fd (conn_channel n w)) data w = ((r, e), u)" by (metis surj_pair)
  have u: "J B u" using io_J(1)[OF J, of "fd (conn_channel n w)" data] by (simp add: wr)
  have "still w (snd (sock_write S (fd (conn_channel n w)) data w))" by (intro still_intros)
  then have "conn_heap u = conn_heap w" "next_conn u = next_conn w" by (simp_all add: wr still_def)
  then have "J B v" if "send_remaining S n data k r' e' u = Inr v \<or> send_remaining S n data k r' e' w = Inr v" for k r' e'
    using that send_remaining_J[OF _ u, of n data k r' e' v] send_remaining_J[OF _ J n o cb(1), of data k r' e' v] n o cb(1) by auto
  then show ?thesis
    using run cb(2) \<open>conn_heap u = conn_heap w\<close> False
    by (auto simp: send_def sendInLoop_def loop_op_defs Let_def wr split: if_splits)
qed

lemma onMessage_J:
  assumes J: "J B w" and safe: "safe G {} L C w" and run: "onMessage S n bs w = Inr v"
  shows "J B v"
proof -
  from run obtain h u where h: "hostPtr w = Some h" "0 < refs w h" "send S h greeting (acquire h w) = Inr u"
    "v = release (conn_dtor S) h u"
    by (auto simp: onMessage_def ebind_eq_Inr expired_def split: if_splits option.splits)
  have n: "h < next_conn w" "state (conn_heap w h) \<noteq> kConnecting" using safeD(11)[OF safe h(1)] by simp_all
  have "J B (acquire h w)" using J h(2) by (rule acquire_J)
  then have "J B u"
    using slotsD(4,5)[OF safe n(1)] n by (intro send_J[OF h(3)]) (simp_all add: acquire_def)
  then show ?thesis unfolding h(4) by (rule release_J)
qed

lemma handleWrite_J:
  assumes J: "J B w" and safe: "safe G {} L C w" and n: "n < next_conn w" and run: "handleWrite S n w = Inr v"
  shows "J B v"
proof (cases "isWriting (conn_channel n w)")
  case False
  then show ?thesis using run J by (simp add: handleWrite_def loop_op_defs)
next
  case True
  let ?out = "outputBuffer (conn_heap w n)"
  let ?bs = "slice (peek ?out) (peek ?out + readableBytes ?out) (storage ?out)"
  obtain r e u where wr: "sock_write S (fd (conn_channel n w)) ?bs w = ((r, e), u)" by (metis surj_pair)
  have u: "J B u" using io_J(1)[OF J, of "fd (conn_channel n w)" ?bs] by (simp add: wr)
  have eu: "conn_heap u = conn_heap w" "next_conn u = next_conn w" "chan_heap u = chan_heap w"
    using arg_cong[OF wr, of snd] by (auto simp: sock_write_def sys_eqs log_call_def)
  show ?thesis
  proof (cases "0 < r")
    case False
    then show ?thesis using True u run by (simp add: handleWrite_def loop_op_defs Let_def wr)
  next
    case pos: True
    then obtain b where b: "retrieve (nat r) (outputBuffer (conn_heap u n)) = Inr b"
      using run True by (auto simp: handleWrite_def loop_op_defs Let_def wr ebind_eq_Inr)
    let ?w2 = "upd_conn n (\<lambda>cn. cn\<lparr>outputBuffer := b\<rparr>) u"
    let ?w3 = "disableWriting S (channel_of (conn_heap ?w2 n)) ?w2"
    have w2: "J B ?w2" using u by (rule buffer_J)
    have "isWriting (conn_channel n ?w2)" using True by (simp add: conn_channel_def upd_conn_def eu)
    then have w3: "J B ?w3" using w2 n eu by (intro disable_J) (simp_all add: upd_conn_def)
    have "still ?w2 ?w3" by (intro still_intros)
    then have "writeCompleteCallback (conn_heap ?w3 n) = None" using slotsD(4)[OF safe n] eu by (simp add: still_def)
    then show ?thesis
      using run True pos b w2 w3 io_J(3)[OF w3] unfolding handleWrite_def loop_op_defs Let_def wr by (auto split: if_splits)
  qed
qed

lemma handleClose_J:
  assumes J: "J B w" and safe: "safe G {} L C w" and tr: "tracked B w" and n: "n < next_conn w"
    and run: "handleClose S (my_handlers S) n w = Inr v"
  shows "J B v"
proof (cases "state (conn_heap w n) = kConnected \<or> state (conn_heap w n) = kDisconnecting")
  case False
  then show ?thesis using run J by (auto simp: handleClose_def loop_op_defs)
next
  case True
  let ?w1 = "upd_conn n (setState kDisconnected) w"
  let ?w2 = "disableAll S (channel_of (conn_heap ?w1 n)) ?w1"
  obtain y where y: "0 < refs ?w2 n" "onConnection S n (acquire n ?w2) = Inr y" "safe G {} (add_mset n L) C y"
    "v = release (conn_dtor S) n (queueInLoop S task_owner (ServerRemoveConnectionInLoop n) y)"
    by (rule handleClose_parts[OF safe n True run])
  have "phased (B @ pendingFunctors w) w n" using tr by (simp add: tracked_def)
  then have "mapped w n" using True n by (auto simp: phased_def)
  then have w2: "J B ?w2" using close_J[OF J n] True by (simp add: open_state_def)
  have k2: "safe G {} L C ?w2"
  proof -
    have "safe G {} L C ?w1" using safe True by (intro safe_setState) auto
    moreover have "still ?w1 ?w2" by (intro still_intros)
    ultimately show ?thesis using safe_still by blast
  qed
  have n2: "n < next_conn ?w2" using safe_exists[OF k2 y(1)] .
  have "J B y" using onConnection_J[OF acquire_J[OF w2 y(1)] safe_acquire[OF k2 n2] y(2)] .
  moreover have "0 < refs y n" using y(3) by (rule safe_alive) simp
  moreover have "n < next_conn y" using safe_exists[OF y(3) \<open>0 < refs y n\<close>] .
  ultimately show ?thesis unfolding y(4) by (intro release_J queue_J) auto
qed

lemma connectEstablished_J:
  assumes J: "J B w" and safe: "safe Map.empty {} L (ConnConnectEstablished n # B) w" and tr: "tracked B w"
    and bt: "batched L B" and run: "connectEstablished S (my_handlers S) n w = Inr v"
  shows "J B v"
proof -
  let ?w1 = "upd_conn n (setState kConnected) w" let ?c = "channel_of (conn_heap ?w1 n)"
  let ?w2 = "upd_chan ?c (channel_tie n) ?w1" let ?w3 = "enableReading S ?c ?w2"
  note est = safe_establish[OF safe]
  have s3: "still ?w2 ?w3" by (intro still_intros)
  have "keeps Map.empty L B ?w2" using est(3) by simp
  with s3 have w3: "keeps Map.empty L B ?w3" by (rule safe_still)
  have n3: "n < next_conn ?w3" using s3 est(2) by (simp add: still_def upd_chan_def)
  have a: "0 < refs w n" and ws: "with_shared S n (\<lambda>x. call_fn (connectionCallback (conn_heap x n))
      (\<lambda>u. on_connection (my_handlers S) u n x)) ?w3 = Inr v"
    using run by (simp_all add: connectEstablished_def loop_op_defs Let_def eassert_eq_Inr upd_conn_def split: if_splits)
  have J3: "J B ?w3" using establish_J[OF safe tr bt J a] by simp
  have "conn_heap (acquire n ?w3) n = conn_heap ?w3 n" by (simp add: acquire_def)
  then have cb: "connectionCallback (conn_heap (acquire n ?w3) n) = Some MyServerOnConnection"
    using slotsD(1)[OF w3 n3] by (simp only:)
  show ?thesis
  proof (rule with_shared_J[OF ws J3])
    fix u assume Ja: "J B (acquire n ?w3)" and u: "call_fn (connectionCallback (conn_heap (acquire n ?w3) n))
      (\<lambda>c. on_connection (my_handlers S) c n (acquire n ?w3)) = Inr u"
    have "onConnection S n (acquire n ?w3) = Inr u"
      using u unfolding cb by (simp only: call_fn_def option.case my_handlers_def handlers.simps my_on_connection_def callback.case)
    with Ja safe_acquire[OF w3 n3] show "J B u" by (rule onConnection_J)
  qed
qed

lemma connectDestroyed_J:
  assumes J: "J (ConnConnectDestroyed n # B) w" and n: "n < next_conn w" and tr: "tracked (ConnConnectDestroyed n # B) w"
    and run: "connectDestroyed S (my_handlers S) n w = Inr v"
  shows "J B v"
proof -
  have "phased ((ConnConnectDestroyed n # B) @ pendingFunctors w) w n" using tr by (simp add: tracked_def)
  then have st: "state (conn_heap w n) = kDisconnected"
    using n by (auto simp: phased_def count_list_append split: if_splits)
  have "v = channel_remove S (channel_of (conn_heap w n)) w" using run st by (simp add: connectDestroyed_def loop_op_defs)
  with destroy_J[OF J n st] show ?thesis by simp
qed

lemma handleRead_J:
  assumes J: "J B w" and safe: "safe G {} L C w" and tr: "tracked B w" and n: "n < next_conn w"
    and run: "handleRead S (my_handlers S) n w = Inr v"
  shows "J B v"
proof -
  obtain r bs e u where rd: "sock_read S (fd (conn_channel n w)) 1024 w = ((r, bs, e), u)" by (metis surj_pair)
  have "still w (snd (sock_read S (fd (conn_channel n w)) 1024 w))" by (intro still_intros)
  then have st: "still w u" by (simp add: rd)
  have u: "safe G {} L C u" using st safe by (rule safe_still)
  have nu: "n < next_conn u" using st n by (simp add: still_def)
  have Ju: "J B u" using io_J(2)[OF J, of "fd (conn_channel n w)" 1024] by (simp add: rd)
  have tu: "tracked B u" using living_still[OF st] tr by (rule tracked_living)
  have ua: "safe G {} (add_mset n L) C (acquire n u)" using u nu by (rule safe_acquire)
  have na: "n < next_conn (acquire n u)" using nu by (simp add: acquire_def)
  have read: "J B v" if "with_shared S n (\<lambda>x. call_fn (messageCallback (conn_heap x n))
        (\<lambda>c. on_message (my_handlers S) c n bs' x)) u = Inr v" for bs'
  proof (rule with_shared_J[OF that Ju])
    fix y assume a: "J B (acquire n u)" and y: "call_fn (messageCallback (conn_heap (acquire n u) n))
        (\<lambda>c. on_message (my_handlers S) c n bs' (acquire n u)) = Inr y"
    have "onMessage S n bs' (acquire n u) = Inr y"
      using y slotsD(2)[OF ua na] by (simp only: call_fn_def option.case my_handlers_def handlers.simps my_on_message_def callback.case)
    with a ua show "J B y" by (rule onMessage_J)
  qed
  show ?thesis
    using run read handleClose_J[OF Ju u tu nu] Ju
    by (auto simp: handleRead_def loop_op_defs rd handleError_def split: if_splits)
qed

subsection \<open>Every task\<close>

lemma callback_J:
  assumes safe: "safe Map.empty {} L [] w" and tr: "tracked [] w" and J: "J [] w" and t: "is_callback t"
    and run: "run_task S t w = Inr v"
  shows "J [] v"
proof (cases t)
  case LoopHandleRead
  then show ?thesis using run io_J(2)[OF J] by (auto simp: loop_handleRead_def)
next
  case AcceptorHandleRead
  then show ?thesis using accept_J[OF safe tr J] run by simp
next
  case (ConnHandleRead n)
  then have "handleRead S (my_handlers S) n w = Inr v" "n < next_conn w"
    using run safe_exists[OF safe, of n] by (auto simp: on_alive_def split: if_splits)
  then show ?thesis using handleRead_J[OF J safe tr] by blast
next
  case (ConnHandleWrite n)
  then have "handleWrite S n w = Inr v" "n < next_conn w"
    using run safe_exists[OF safe, of n] by (auto simp: on_alive_def split: if_splits)
  then show ?thesis using handleWrite_J[OF J safe] by blast
next
  case (ConnHandleClose n)
  then have "handleClose S (my_handlers S) n w = Inr v" "n < next_conn w"
    using run safe_exists[OF safe, of n] by (auto simp: on_alive_def split: if_splits)
  then show ?thesis using handleClose_J[OF J safe tr] by blast
next
  case (ConnHandleError n)
  then show ?thesis using run J by (auto simp: on_alive_def handleError_def split: if_splits)
qed (use t in simp_all)

lemma functor_J:
  assumes safe: "safe Map.empty {} L (t # B) w" and tr: "tracked (t # B) w" and bt: "batched L (t # B)"
    and J: "J (t # B) w" and t: "queueable t" and run: "run_task S t w = Inr v"
  shows "J B v"
proof -
  have own: "conn_of t = Some n \<Longrightarrow> n \<in># L" for n using bt by (simp add: batched_def)
  have lt: "n \<in># L \<Longrightarrow> n < next_conn w" for n using safeD(2)[OF safe, of n] by simp
  have btB: "batched L B" using bt by (simp add: batched_def)
  have k: "keeps Map.empty L B w" if "\<And>n. t \<noteq> ConnConnectEstablished n" using safe that by (simp add: safe_skip)
  show ?thesis
  proof (cases t)
    case AcceptorListen
    have "J B w" using skip_J[OF J] AcceptorListen by simp
    then have "J B (acceptor_listen S w)" by (rule listen_J)
    then show ?thesis using AcceptorListen run by simp
  next
    case (ConnShutdownInLoop n)
    then show ?thesis using run skip_J[OF J] io_J(3) by (auto simp: on_alive_def split: if_splits)
  next
    case (ConnForceCloseInLoop n)
    then have "tracked B w" using tr by (simp add: tracked_skip)
    then show ?thesis
      using ConnForceCloseInLoop run skip_J[OF J] own lt handleClose_J[OF _ k, of B n v]
      by (auto simp: on_alive_def forceCloseInLoop_def loop_op_defs split: if_splits)
  next
    case (ConnConnectEstablished n)
    then have "tracked B w" "J B w" using tr skip_J[OF J] by (simp_all add: tracked_skip)
    then show ?thesis
      using ConnConnectEstablished run btB safe connectEstablished_J[of B w L n v]
      by (auto simp: on_alive_def split: if_splits)
  next
    case (ConnConnectDestroyed n)
    then show ?thesis using run tr J own lt connectDestroyed_J[of n B w v] by (auto simp: on_alive_def split: if_splits)
  next
    case (ServerRemoveConnectionInLoop n)
    then show ?thesis using run tr skip_J[OF J] own k remove_J[of L B w n] by auto
  qed (use t in simp_all)
qed

end

section \<open>The loop\<close>

sublocale connection_invariant \<subseteq> kept: owned_invariant S "conn_dtor S" task_owner "run_task S"
    "\<lambda>L B w. documented_calls S \<and> safe Map.empty {} L B w" queueable is_callback conn_of server_fault
    "\<lambda>L B w. tracked B w \<and> batched L B \<and> J B w"
proof
  fix L B and w v :: "'o myserver_st" and t
  assume w: "documented_calls S \<and> safe Map.empty {} L (t # B) w" "tracked (t # B) w \<and> batched L (t # B) \<and> J (t # B) w"
    "queueable t" "run_task S t w = Inr v"
  then show "tracked B v \<and> batched L B \<and> J B v"
    using functor_tracked[of L t B w S v] functor_J[of L t B w v] by (simp add: batched_def)
next
  fix L and w v :: "'o myserver_st" and t
  assume w: "documented_calls S \<and> safe Map.empty {} L [] w" "tracked [] w \<and> batched L [] \<and> J [] w" "is_callback t"
    "run_task S t w = Inr v"
  then show "tracked [] v \<and> batched L [] \<and> J [] v"
    using callback_tracked[of L "[]" w "[]" t S v] callback_J[of L w t v] by simp
next
  fix L B and w :: "'o myserver_st" and c n a b
  assume w: "tracked B w \<and> batched L B \<and> J B w"
  have st: "tracked B v \<and> batched L B \<and> J B v" if "still w v" "J B v" for v
    using w tracked_living[OF living_still[OF that(1)]] that(2) by simp
  show "tracked B (loop_poll S w) \<and> batched L B \<and> J B (loop_poll S w)"
    by (rule st) (intro still_intros, use w poll_J in simp)
  show "tracked B (upd_chan c (\<lambda>ch. ch\<lparr>ch_eventHandling := b\<rparr>) w) \<and> batched L B \<and>
      J B (upd_chan c (\<lambda>ch. ch\<lparr>ch_eventHandling := b\<rparr>) w)"
    by (rule st) (intro still_intros, use w mark_J in simp)
  show "tracked B (w\<lparr>eventHandling := b\<rparr>) \<and> batched L B \<and> J B (w\<lparr>eventHandling := b\<rparr>)"
    by (rule st) (intro still_intros, use w flags_J in simp)
  show "tracked B (w\<lparr>currentActiveChannel := a\<rparr>) \<and> batched L B \<and> J B (w\<lparr>currentActiveChannel := a\<rparr>)"
    by (rule st) (intro still_intros, use w flags_J in simp)
  show "tracked B (w\<lparr>callingPendingFunctors := b\<rparr>) \<and> batched L B \<and> J B (w\<lparr>callingPendingFunctors := b\<rparr>)"
    by (rule st) (intro still_intros, use w flags_J in simp)
next
  fix L B and w :: "'o myserver_st" and n
  assume w: "tracked B w \<and> batched L B \<and> J B w" and a: "0 < refs w n"
  have "living w (acquire n w)" by (intro living_quiet quiet_intros)
  with w have "tracked B (acquire n w)" by (blast intro: tracked_living)
  then show "tracked B (acquire n w) \<and> batched (add_mset n L) B \<and> J B (acquire n w)"
    using w a acquire_J by (simp add: batched_def)
next
  fix L and w :: "'o myserver_st" and n
  assume w: "tracked [] w \<and> batched (add_mset n L) [] \<and> J [] w"
  have "living w (release (conn_dtor S) n w)" by (intro living_quiet quiet_intros)
  with w have "tracked [] (release (conn_dtor S) n w)" by (blast intro: tracked_living)
  then show "tracked [] (release (conn_dtor S) n w) \<and> batched L [] \<and> J [] (release (conn_dtor S) n w)"
    using w release_J by (simp add: batched_def)
next
  fix w :: "'o myserver_st" and b
  let ?v = "w\<lparr>callingPendingFunctors := b, pendingFunctors := []\<rparr>"
  assume o: "documented_calls S \<and> safe Map.empty {} {#} [] w" and w: "tracked [] w \<and> batched {#} [] \<and> J [] w"
  have "tracked (pendingFunctors w) ?v = tracked [] w"
    by (simp add: tracked_def phased_def named_def mapped_def)
  moreover have "batched (owners task_owner (pendingFunctors w)) (pendingFunctors w)"
    using own.queue_owner[OF o] by (simp add: batched_def)
  ultimately show "tracked (pendingFunctors w) ?v \<and>
      batched (owners task_owner (pendingFunctors w)) (pendingFunctors w) \<and> J (pendingFunctors w) ?v"
    using w swap_J by simp
qed

text \<open>So it is enough that start-up establishes the invariant.\<close>

context connection_invariant
begin

lemma reachable_J:
  assumes S: "documented_calls S" and run: "reachable S k w"
    and start: "\<And>u. boot S k = Inr u \<Longrightarrow> J [] (u\<lparr>thisThread := 1, quit := False\<rparr>)"
  shows "J [] w"
proof -
  have "(documented_calls S \<and> safe Map.empty {} {#} [] w) \<and> tracked [] w \<and> batched {#} [] \<and> J [] w"
    using run
  proof induction
    case (enter u)
    then show ?case using S boot_safe[OF enter] boot_tracked[OF enter] start[OF enter] by (simp add: batched_def)
  next
    case (iterate u v)
    from kept.both.body_safe[OF iterate.IH] iterate.hyps(2) show ?case by (simp add: server_iteration_def)
  qed
  then show ?thesis by blast
qed

text \<open>From a reachable state on, it is enough that the invariant holds there.\<close>

lemma iterations_J:
  assumes S: "documented_calls S" and "reachable S k w" "J [] w"
    and "iterations S (conn_dtor S) task_owner (run_task S) m w = Inr v"
  shows "J [] v"
proof -
  have "(documented_calls S \<and> safe Map.empty {} {#} [] w) \<and> tracked [] w \<and> batched {#} [] \<and> J [] w"
    using reachable_retiring[OF assms(1,2)] assms(3) by (simp add: batched_def)
  then have "(documented_calls S \<and> safe Map.empty {} {#} [] v) \<and> tracked [] v \<and> batched {#} [] \<and> J [] v"
    using assms(4)
  proof (induction m arbitrary: w)
    case (Suc m)
    from Suc.prems(2) obtain u where u: "loop_body S (conn_dtor S) task_owner (run_task S) w = Inr u"
      "iterations S (conn_dtor S) task_owner (run_task S) m u = Inr v" by (auto simp: ebind_eq_Inr)
    from kept.both.body_safe[OF Suc.prems(1)] u(1) Suc.IH[OF _ u(2)] show ?case by simp
  qed simp
  then show ?thesis by blast
qed

end

end
