(* ===== verification/Descriptors.thy ===== *)
theory Descriptors
  imports ConnectionInvariant
begin

text \<open>
  The descriptors of the connections.  The list of system calls is read as a ledger: what
  \<open>accept\<close> returned against what \<open>close\<close> was called with.  The invariant \<open>ledger\<close> ties both sides
  to the connections: each has its own entry, and the closed ones are those that are destroyed.
\<close>

section \<open>The ledger\<close>

text \<open>The descriptors that \<open>accept\<close> returned, and those given to \<open>close\<close>.\<close>

fun accepted :: "sysev list \<Rightarrow> int multiset" where
  "accepted [] = {#}"
| "accepted (Sys_accept l r # es) = (if 0 \<le> r then {#r#} else {#}) + accepted es"
| "accepted (_ # es) = accepted es"

fun closed :: "sysev list \<Rightarrow> int multiset" where
  "closed [] = {#}"
| "closed (Sys_close f r # es) = add_mset f (closed es)"
| "closed (_ # es) = closed es"

lemma accepted_append [simp]: "accepted (es @ fs) = accepted es + accepted fs"
  by (induction es rule: accepted.induct) (simp_all add: add.assoc)

lemma closed_append [simp]: "closed (es @ fs) = closed es + closed fs"
  by (induction es rule: closed.induct) simp_all

definition sockets :: "('o, 'z) net_st_scheme \<Rightarrow> nat set \<Rightarrow> int multiset" where
  "sockets w A = image_mset (\<lambda>n. socket_of (conn_heap w n)) (mset_set A)"

definition dead :: "('o, 'z) net_st_scheme \<Rightarrow> nat set" where
  "dead w = {n. n < next_conn w \<and> refs w n = 0}"

text \<open>\<open>P\<close> are descriptors that no connection has yet, \<open>X\<close> connections that nothing owns yet.\<close>

definition ledger :: "int multiset \<Rightarrow> nat set \<Rightarrow> ('o, 'z) net_st_scheme \<Rightarrow> bool" where
  "ledger P X w \<longleftrightarrow>
     (\<forall>n<next_conn w. channel_of (conn_heap w n) < next_chan w \<and> fd (conn_channel n w) = socket_of (conn_heap w n)) \<and>
     (\<forall>n. 0 < refs w n \<longrightarrow> n < next_conn w) \<and>
     accepted (trace w) = P + sockets w {..<next_conn w} \<and>
     closed (trace w) = sockets w (dead w - X)"

abbreviation booked :: "('o, 'z) net_st_scheme \<Rightarrow> bool" where
  "booked w \<equiv> ledger {#} {} w"

section \<open>Steps that leave the ledger alone\<close>

named_theorems tidy_intros "operations that neither accept nor close, acquire nor release"

definition tidy :: "('o, 'z) net_st_scheme \<Rightarrow> ('o, 'z) net_st_scheme \<Rightarrow> bool" where
  "tidy w v \<longleftrightarrow> refs v = refs w \<and> next_conn v = next_conn w \<and> next_chan v = next_chan w \<and>
     (\<forall>c. fd (chan_heap v c) = fd (chan_heap w c)) \<and>
     (\<forall>n. socket_of (conn_heap v n) = socket_of (conn_heap w n) \<and> channel_of (conn_heap v n) = channel_of (conn_heap w n)) \<and>
     accepted (trace v) = accepted (trace w) \<and> closed (trace v) = closed (trace w)"

lemma tidy_refl [simp, intro, tidy_intros]: "tidy w w"
  by (simp add: tidy_def)

lemma tidy_trans: "tidy u v \<Longrightarrow> tidy v w \<Longrightarrow> tidy u w"
  by (simp add: tidy_def)

lemma ledger_tidy:
  assumes "tidy w v" "ledger P X w" shows "ledger P X v"
  using assms by (simp add: tidy_def ledger_def sockets_def dead_def conn_channel_def)

lemma tidyI:
  assumes "tidy w u" "refs v = refs u" "next_conn v = next_conn u" "next_chan v = next_chan u"
    "\<And>c. fd (chan_heap v c) = fd (chan_heap u c)"
    "\<And>n. socket_of (conn_heap v n) = socket_of (conn_heap u n) \<and> channel_of (conn_heap v n) = channel_of (conn_heap u n)"
    "accepted (trace v) = accepted (trace u)" "closed (trace v) = closed (trace u)"
  shows "tidy w v"
  using assms by (simp add: tidy_def)

lemma tidy_log_call:
  "tidy w u \<Longrightarrow> accepted [e] = {#} \<Longrightarrow> closed [e] = {#} \<Longrightarrow> tidy w (log_call e k u)"
  by (erule tidyI) (simp_all add: log_call_def)

lemma tidy_upd_chan: "tidy w u \<Longrightarrow> (\<And>ch. fd (f ch) = fd ch) \<Longrightarrow> tidy w (upd_chan c f u)"
  by (erule tidyI) (simp_all add: upd_chan_def)

lemma tidy_upd_conn:
  "tidy w u \<Longrightarrow> (\<And>cn. socket_of (f cn) = socket_of cn) \<Longrightarrow> (\<And>cn. channel_of (f cn) = channel_of cn) \<Longrightarrow>
    tidy w (upd_conn n f u)"
  by (erule tidyI) (simp_all add: upd_conn_def)

lemma tidy_fields [tidy_intros]:
  "tidy w u \<Longrightarrow> tidy w (u\<lparr>channels := m\<rparr>)" "tidy w u \<Longrightarrow> tidy w (u\<lparr>events_size := k\<rparr>)"
  "tidy w u \<Longrightarrow> tidy w (u\<lparr>eventHandling := b\<rparr>)" "tidy w u \<Longrightarrow> tidy w (u\<lparr>currentActiveChannel := a\<rparr>)"
  "tidy w u \<Longrightarrow> tidy w (u\<lparr>activeChannels := cs\<rparr>)" "tidy w u \<Longrightarrow> tidy w (u\<lparr>callingPendingFunctors := b\<rparr>)"
  "tidy w u \<Longrightarrow> tidy w (u\<lparr>quit := b\<rparr>)" "tidy w u \<Longrightarrow> tidy w (u\<lparr>pendingFunctors := q\<rparr>)"
  by (erule tidyI; simp)+

lemma tidy_members [tidy_intros]:
  fixes u :: "('o, 'z) world"
  shows "tidy w u \<Longrightarrow> tidy w (u\<lparr>connections := cs\<rparr>)" "tidy w u \<Longrightarrow> tidy w (u\<lparr>nextConnId := i\<rparr>)"
    "tidy w u \<Longrightarrow> tidy w (u\<lparr>numConnected := i\<rparr>)" "tidy w u \<Longrightarrow> tidy w (u\<lparr>flag := b, hostPtr := h\<rparr>)"
  by (erule tidyI; simp)+

lemma tidy_marks [tidy_intros]:
  "tidy w u \<Longrightarrow> tidy w (upd_chan c (set_index i) u)" "tidy w u \<Longrightarrow> tidy w (upd_chan c (set_revents r) u)"
  "tidy w u \<Longrightarrow> tidy w (upd_chan c (\<lambda>ch. ch\<lparr>addedToLoop := b\<rparr>) u)"
  "tidy w u \<Longrightarrow> tidy w (upd_chan c (\<lambda>ch. ch\<lparr>ch_eventHandling := b\<rparr>) u)"
  "tidy w u \<Longrightarrow> tidy w (upd_chan c want_reading u)" "tidy w u \<Longrightarrow> tidy w (upd_chan c want_writing u)"
  "tidy w u \<Longrightarrow> tidy w (upd_chan c unwant_writing u)" "tidy w u \<Longrightarrow> tidy w (upd_chan c want_nothing u)"
  "tidy w u \<Longrightarrow> tidy w (upd_chan c (channel_tie n) u)"
  by (erule tidy_upd_chan; simp add: set_index_def set_revents_def want_defs channel_tie_def)+

lemma tidy_conn_marks [tidy_intros]:
  "tidy w u \<Longrightarrow> tidy w (upd_conn n (setState s) u)" "tidy w u \<Longrightarrow> tidy w (upd_conn n (\<lambda>cn. cn\<lparr>outputBuffer := b\<rparr>) u)"
  by (erule tidy_upd_conn; simp add: setState_def)+

lemma tidy_poller [tidy_intros]:
  "tidy w u \<Longrightarrow> tidy w (poller_update S q c u)"
  "tidy w u \<Longrightarrow> tidy w (poller_updateChannel S c u)" "tidy w u \<Longrightarrow> tidy w (poller_removeChannel S c u)"
proof -
  show up: "tidy w u \<Longrightarrow> tidy w (poller_update S q c u)" for u q
    by (simp add: poller_update_def sys_eqs tidy_log_call)
  show "tidy w u \<Longrightarrow> tidy w (poller_updateChannel S c u)"
    by (auto simp: poller_updateChannel_def Let_def intro: tidy_intros up split: channel_index.split)
  show "tidy w u \<Longrightarrow> tidy w (poller_removeChannel S c u)"
    by (auto simp: poller_removeChannel_def Let_def intro: tidy_intros up split: channel_index.split)
qed

lemma tidy_channel_ops [tidy_intros]:
  "tidy w u \<Longrightarrow> tidy w (channel_remove S c u)" "tidy w u \<Longrightarrow> tidy w (enableReading S c u)"
  "tidy w u \<Longrightarrow> tidy w (enableWriting S c u)" "tidy w u \<Longrightarrow> tidy w (disableWriting S c u)"
  "tidy w u \<Longrightarrow> tidy w (disableAll S c u)"
  by (auto simp: channel_update_def channel_remove_def channel_op_defs loop_op_defs intro!: tidy_intros)

lemma tidy_socket_ops [tidy_intros]:
  "tidy w u \<Longrightarrow> tidy w (Socket_ShutdownWrite S s u)" "tidy w u \<Longrightarrow> tidy w (Socket_Listen S s u)"
  "tidy w u \<Longrightarrow> tidy w (shutdownReadWrite S s u)"
  "tidy w u \<Longrightarrow> tidy w (snd (sock_write S s bs u))" "tidy w u \<Longrightarrow> tidy w (snd (sock_read S s n u))"
  "tidy w u \<Longrightarrow> tidy w (snd (getLocalAddr S s u))"
  by (simp_all add: socket_defs sys_eqs case_prod_beta tidy_log_call)

lemma tidy_net_ops [tidy_intros]:
  "tidy w u \<Longrightarrow> tidy w (shutdownInLoop S n u)" "tidy w u \<Longrightarrow> tidy w (wakeup S u)"
  "tidy w u \<Longrightarrow> tidy w (loop_handleRead S u)"
  by (simp_all add: shutdownInLoop_def loop_op_defs Let_def tidy_intros)

lemma tidy_poll [tidy_intros]:
  assumes "tidy w u" shows "tidy w (loop_poll S u)"
proof -
  have fill: "tidy w v \<Longrightarrow> tidy w (snd (fillActiveChannels es v))" for es v
  proof (induction es arbitrary: v)
    case (Cons e es)
    obtain ev c where e: "e = (ev, c)" by (cases e)
    from Cons.IH[OF tidy_marks(2)[OF Cons.prems]] show ?case by (simp add: e case_prod_beta)
  qed simp
  show ?thesis
    using assms by (auto simp: loop_poll_def poller_poll_def sys_eqs case_prod_beta intro!: tidy_intros tidy_log_call fill)
qed

section \<open>Owners come and go\<close>

lemma dead_finite [simp]: "finite (dead w)"
  by (simp add: dead_def)

lemma ledger_acquire:
  assumes l: "ledger P X w" and n: "n < next_conn w" and a: "0 < refs w n \<or> n \<in> X"
  shows "ledger P X (acquire n w)"
proof -
  have "dead (acquire n w) - X = dead w - X" using a by (auto simp: dead_def acquire_def)
  then show ?thesis using l n by (simp add: ledger_def sockets_def conn_channel_def) (simp add: acquire_def)
qed

lemma booked_acquire:
  assumes l: "booked w" and a: "0 < refs w n" shows "booked (acquire n w)"
proof -
  have "n < next_conn w" using l a by (simp add: ledger_def)
  with l a show ?thesis using ledger_acquire by blast
qed

text \<open>The last owner closes the descriptor of the connection, which is the connection's own.\<close>

lemma booked_release:
  assumes l: "booked w" shows "booked (release (conn_dtor S) n w)"
proof -
  let ?w = "w\<lparr>refs := (refs w)(n := refs w n - 1)\<rparr>"
  show ?thesis
  proof (cases "refs w n = 1")
    case False
    then have "dead ?w = dead w" by (auto simp: dead_def split: if_splits)
    then have "booked ?w" using l by (simp add: ledger_def sockets_def conn_channel_def split: if_splits)
    with False show ?thesis by (simp add: release_def Let_def)
  next
    case True
    then have n: "n < next_conn w" using l by (simp add: ledger_def)
    have s: "fd (conn_channel n w) = socket_of (conn_heap w n)" using l n by (simp add: ledger_def)
    have d: "dead ?w = insert n (dead w)" "n \<notin> dead w" using True n by (auto simp: dead_def)
    let ?v = "conn_dtor S n ?w"
    have "conn_heap ?v = conn_heap w" "chan_heap ?v = chan_heap w" "next_conn ?v = next_conn w" "next_chan ?v = next_chan w"
      "refs ?v = refs ?w" "accepted (trace ?v) = accepted (trace w)" "closed (trace ?v) = closed (trace w) + {#socket_of (conn_heap w n)#}"
      using s by (simp_all add: conn_dtor_def Let_def socket_defs sys_eqs conn_channel_def log_call_def)
    moreover from this have "dead ?v = insert n (dead w)" using d(1) by (simp add: dead_def)
    ultimately have "booked ?v" using l d by (simp add: ledger_def sockets_def conn_channel_def)
    with True show ?thesis by (simp add: release_def Let_def)
  qed
qed

lemma booked_release_opt: "booked w \<Longrightarrow> booked (release_opt (conn_dtor S) p w)"
  by (simp add: release_opt_def booked_release split: option.split)

lemma booked_queue:
  assumes l: "booked w" and a: "\<And>n. task_owner t = Some n \<Longrightarrow> 0 < refs w n"
  shows "booked (queueInLoop S task_owner t w)"
proof -
  let ?u = "acquire_opt (task_owner t) (w\<lparr>pendingFunctors := pendingFunctors w @ [t]\<rparr>)"
  have "tidy w (w\<lparr>pendingFunctors := pendingFunctors w @ [t]\<rparr>)" by (intro tidy_intros)
  then have "booked (w\<lparr>pendingFunctors := pendingFunctors w @ [t]\<rparr>)" using l by (rule ledger_tidy)
  then have u: "booked ?u" using a by (auto simp: acquire_opt_def intro: booked_acquire split: option.split)
  have "tidy ?u (wakeup S ?u)" by (intro tidy_intros)
  then show ?thesis using u ledger_tidy by (auto simp: queueInLoop_def Let_def)
qed

section \<open>Operations\<close>

lemma tidy_booked: "tidy w v \<Longrightarrow> booked w \<Longrightarrow> booked v"
  by (rule ledger_tidy)

lemma removeConnectionInLoop_booked:
  fixes w :: "('o, 'z) world"
  assumes safe: "keeps G L B w" and n: "n \<in># L" and l: "booked w"
  shows "booked (removeConnectionInLoop S n w)"
proof -
  let ?w1 = "w\<lparr>connections := AList.delete (conn_name (conn_heap w n)) (connections w)\<rparr>"
  let ?w2 = "release_opt (conn_dtor S) (map_of (connections w) (conn_name (conn_heap w n))) ?w1"
  have "keeps G L B ?w2" using safe by (rule safe_unmap)
  then have a: "0 < refs ?w2 n" using n safe_alive by fastforce
  have "tidy w ?w1" by (intro tidy_intros)
  then have "booked ?w2" using l tidy_booked booked_release_opt by blast
  then have "booked (queueInLoop S task_owner (ConnConnectDestroyed n) ?w2)" using a by (intro booked_queue) auto
  then show ?thesis by (simp add: removeConnectionInLoop_def assertInLoopThread_def Let_def)
qed

section \<open>A new connection\<close>

lemma new_connection_ledger:
  assumes l: "ledger {#sockfd#} {} w" and run: "new_connection nm sockfd local peer w = Inr (n, v)"
  shows "ledger {#} {n} v"
proof -
  obtain b where b: "new_buffer kInitialSize = Inr b"
    using run by (auto simp: new_connection_def ebind_eq_Inr case_prod_beta)
  let ?n = "next_conn w" and ?c = "next_chan w"
  have n: "n = ?n" "next_conn v = Suc ?n" "next_chan v = Suc ?c" "refs v = refs w" "trace v = trace w"
    and h: "socket_of (conn_heap v ?n) = sockfd" "channel_of (conn_heap v ?n) = ?c"
      "\<And>m. m \<noteq> ?n \<Longrightarrow> conn_heap v m = conn_heap w m"
    and c: "fd (chan_heap v ?c) = sockfd" "\<And>d. d \<noteq> ?c \<Longrightarrow> chan_heap v d = chan_heap w d"
    using run b by (auto simp: new_connection_def alloc_channel_def Let_def upd_chan_def callback_defs new_channel_def)
  note L = l[unfolded ledger_def]
  have r: "refs w ?n = 0" using L by blast
  have d: "dead v - {?n} = dead w" using n r by (auto simp: dead_def less_Suc_eq)
  have s: "sockets v A = sockets w A" if "A \<subseteq> {..<?n}" for A
    unfolding sockets_def
  proof (rule image_mset_cong)
    fix m assume "m \<in># mset_set A"
    then have "m \<noteq> ?n" using that by (metis elem_mset_set finite_lessThan finite_subset lessThan_iff less_irrefl subsetD)
    then show "socket_of (conn_heap v m) = socket_of (conn_heap w m)" using h(3) by simp
  qed
  have new: "sockets v {..<Suc ?n} = add_mset sockfd (sockets w {..<?n})"
    using s[of "{..<?n}"] h(1) by (simp add: lessThan_Suc sockets_def)
  have "channel_of (conn_heap v m) < Suc ?c \<and> fd (conn_channel m v) = socket_of (conn_heap v m)" if "m < Suc ?n" for m
  proof (cases "m = ?n")
    case True
    then show ?thesis using h(1,2) c(1) by (simp add: conn_channel_def)
  next
    case False
    then have "channel_of (conn_heap w m) < ?c \<and> fd (conn_channel m w) = socket_of (conn_heap w m)"
      using L that by (metis less_antisym)
    with False show ?thesis using h(3) c(2) by (simp add: conn_channel_def)
  qed
  moreover have "dead w \<subseteq> {..<?n}" by (auto simp: dead_def)
  ultimately show ?thesis
    unfolding ledger_def n(2-5) n(1) new d using L s by (auto intro: less_SucI)
qed

lemma refs_release [simp]: "refs (release (conn_dtor S) m u) = (refs u)(m := refs u m - 1)"
  by (simp add: release_def Let_def conn_dtor_def socket_defs sys_eqs)

lemma newConnection_booked:
  fixes w :: "('o, 'z) world"
  assumes safe: "keeps G L B w" and l: "ledger {#sockfd#} {} w"
    and run: "newConnection S (my_handlers S) sockfd peer w = Inr v"
  shows "booked v"
proof -
  let ?n = "next_conn w" and ?nm = "server_name w @ connection_suffix (hostport w) (nextConnId w)"
  let ?w2 = "snd (getLocalAddr S sockfd (w\<lparr>nextConnId := nextConnId w + 1\<rparr>))"
  obtain local w3 where w3: "new_connection ?nm sockfd local peer ?w2 = Inr (?n, w3)"
    and v: "v = release (conn_dtor S) ?n (queueInLoop S task_owner (ConnConnectEstablished ?n)
       (upd_conn ?n (wired (store_connection S ?nm ?n (acquire ?n w3))) (store_connection S ?nm ?n (acquire ?n w3))))"
    by (rule newConnection_parts[OF safe run])
  let ?w4 = "acquire ?n w3" let ?w5 = "store_connection S ?nm ?n ?w4"
  have "tidy w ?w2" by (intro tidy_intros)
  then have "ledger {#sockfd#} {} ?w2" using l by (rule ledger_tidy)
  then have l3: "ledger {#} {?n} w3" using w3 by (rule new_connection_ledger)
  have st: "still (w\<lparr>nextConnId := nextConnId w + 1\<rparr>) ?w2" by (intro still_intros)
  have "?n < next_conn w3" using new_connection_shape(2)[OF w3] st by (simp add: still_def)
  with l3 have "ledger {#} {?n} ?w4" by (rule ledger_acquire) simp
  moreover have "dead ?w4 - {?n} = dead ?w4 - {}" by (auto simp: dead_def acquire_def)
  ultimately have w4: "booked ?w4" by (simp add: ledger_def)
  let ?x = "?w4\<lparr>connections := AList.update ?nm ?n (connections ?w4)\<rparr>"
  have "tidy ?w4 ?x" by (intro tidy_intros)
  then have "booked ?x" using w4 by (rule tidy_booked)
  then have "booked (acquire ?n ?x)" by (rule booked_acquire) (simp add: acquire_def)
  then have w5: "booked ?w5" unfolding store_connection_def by (rule booked_release_opt)
  have a: "0 < refs ?w5 ?n"
    by (auto simp: store_connection_def release_opt_def acquire_def split: option.split)
  have "tidy ?w5 (upd_conn ?n (wired ?w5) ?w5)" by (rule tidy_upd_conn) (simp_all del: o_apply)
  then have "booked (upd_conn ?n (wired ?w5) ?w5)" using w5 by (rule tidy_booked)
  moreover have "refs (upd_conn ?n (wired ?w5) ?w5) = refs ?w5" by (simp add: upd_conn_def)
  ultimately show ?thesis unfolding v using a by (intro booked_release booked_queue) auto
qed

lemma acceptor_handleRead_booked:
  fixes w :: "('o, 'z) world"
  assumes safe: "keeps G L B w" and l: "booked w"
    and run: "acceptor_handleRead S (my_new_connection S) w = Inr v"
  shows "booked v"
proof -
  let ?p = "InetAddress_port big_endian_host 0"
  obtain connfd peer u where ac: "Socket_Accept S (acceptSocket w) ?p w = ((connfd, peer), u)" by (metis surj_pair)
  have "still w (snd (Socket_Accept S (acceptSocket w) ?p w))" by (intro still_intros)
  then have u: "keeps G L B u" using safe safe_still by (simp add: ac) blast
  have cb: "newConnectionCallback u = Some ServerNewConnection" using safeD(9)[OF u] by (simp add: server_slots_def)
  obtain k where k: "u = log_call (Sys_accept (acceptSocket w) connfd) k w"
    using ac by (auto simp: Socket_Accept_def sock_accept_def sys_eqs case_prod_beta)
  have "ledger (if 0 \<le> connfd then {#connfd#} else {#}) {} u"
    using l unfolding k by (simp add: ledger_def sockets_def dead_def conn_channel_def log_call_def)
  then show ?thesis
    using run newConnection_booked[OF u] by (auto simp: acceptor_handleRead_def ac cb my_new_connection_def split: if_splits)
qed

section \<open>Runs\<close>

text \<open>All the other steps of the server neither accept nor close.\<close>

interpretation books: connection_invariant S "\<lambda>B. booked"
  for S
proof
  fix B L t and w :: "'a myserver_st" and n c b i a f bs k buf
  assume w: "booked w"
  have st: "booked v" if "tidy w v" for v using that w by (rule tidy_booked)
  show "booked (loop_poll S w)" by (rule st) (intro tidy_intros)
  show "booked (w\<lparr>callingPendingFunctors := b, pendingFunctors := []\<rparr>)" by (rule st) (simp add: tidy_def)
  show "booked (upd_chan c (\<lambda>ch. ch\<lparr>ch_eventHandling := b\<rparr>) w)" by (rule st) (intro tidy_intros)
  show "booked (w\<lparr>eventHandling := b\<rparr>)" by (rule st) (intro tidy_intros)
  show "booked (w\<lparr>currentActiveChannel := a\<rparr>)" by (rule st) (intro tidy_intros)
  show "booked (w\<lparr>callingPendingFunctors := b\<rparr>)" by (rule st) (intro tidy_intros)
  show "booked (w\<lparr>numConnected := i\<rparr>)" by (rule st) (intro tidy_intros)
  show "booked (w\<lparr>flag := False, hostPtr := Some n\<rparr>)" by (rule st) (intro tidy_intros)
  show "booked (snd (sock_write S f bs w))" by (rule st) (intro tidy_intros)
  show "booked (snd (sock_read S f k w))" by (rule st) (intro tidy_intros)
  show "booked (shutdownInLoop S n w)" by (rule st) (intro tidy_intros)
  show "booked (w\<lparr>pendingFunctors := pendingFunctors w @ [t]\<rparr>)" by (rule st) (intro tidy_intros)
  show "0 < refs w n \<Longrightarrow> booked (acquire n w)" using w by (rule booked_acquire)
  show "booked (release (conn_dtor S) n w)" using w by (rule booked_release)
  show "booked (upd_conn n (\<lambda>cn. cn\<lparr>outputBuffer := buf\<rparr>) w)" by (rule st) (intro tidy_intros)
  show "booked (upd_conn n (setState kDisconnecting) w)" by (rule st) (intro tidy_intros)
  show "booked (enableWriting S (channel_of (conn_heap w n)) w)" by (rule st) (intro tidy_intros)
  show "booked (disableWriting S (channel_of (conn_heap w n)) w)" by (rule st) (intro tidy_intros)
  show "booked (acceptor_listen S w)" by (rule st) (unfold acceptor_listen_def Let_def, intro tidy_intros)
  show "booked (enableReading S c (upd_chan c (channel_tie n) (upd_conn n (setState kConnected) w)))"
    by (rule st) (intro tidy_intros)
  show "booked (disableAll S (channel_of (conn_heap w n)) (upd_conn n (setState kDisconnected) w))"
    by (rule st) (intro tidy_intros)
  show "booked (channel_remove S (channel_of (conn_heap w n)) w)" by (rule st) (intro tidy_intros)
next
  fix L and w v :: "'a myserver_st"
  assume "safe Map.empty {} L [] w" "booked w" "acceptor_handleRead S (my_new_connection S) w = Inr v"
  then show "booked v" by (rule acceptor_handleRead_booked)
next
  fix L B and w :: "'a myserver_st" and n
  assume "safe Map.empty {} L B w" "n \<in># L" "booked w"
  then show "booked (removeConnectionInLoop S n w)" by (rule removeConnectionInLoop_booked)
qed

text \<open>Start-up neither accepts nor closes.\<close>

lemma enableReading_books [simp]:
  "accepted (trace (enableReading S c u)) = accepted (trace u)" "closed (trace (enableReading S c u)) = closed (trace u)"
  for u :: "('o, 'z) world"
proof -
  have "tidy u (enableReading S c u)" by (intro tidy_intros)
  then show "accepted (trace (enableReading S c u)) = accepted (trace u)" "closed (trace (enableReading S c u)) = closed (trace u)"
    by (simp_all add: tidy_def)
qed

lemma loop_new_books:
  fixes w :: "('o, 'z) world"
  assumes "loop_new S t w = Inr v"
  shows "accepted (trace v) = accepted (trace w) \<and> closed (trace v) = closed (trace w)"
  using assms by (auto simp: loop_new_def createEventfd_def sys_eqs alloc_channel_def poller_new_def upd_chan_def
      split: if_splits)

lemma myserver_new_books:
  fixes w :: "('o, 'z) world"
  assumes "myserver_new S addr m w = Inr v"
  shows "accepted (trace v) = accepted (trace w) \<and> closed (trace v) = closed (trace w)"
  using assms by (auto simp: myserver_new_def server_new_def ebind_eq_Inr Let_def setNewConnectionCallback_def
      server_setMessageCallback_def server_setConnectionCallback_def acceptor_new_def alloc_channel_def upd_chan_def
      socket_defs sys_eqs)

lemma boot_booked:
  assumes "boot S k = Inr w" shows "booked (w\<lparr>thisThread := 1, quit := False\<rparr>)"
proof -
  obtain w1 w2 where w1: "loop_new S LoopHandleRead (initial_world k) = Inr w1"
    and w2: "myserver_new S (InetAddress_port big_endian_host 55266) 2 w1 = Inr w2" and w: "myserver_start S w2 = Inr w"
    using assms by (auto simp: boot_def ebind_eq_Inr)
  have s2: "starting w2" using starting_server[OF starting_loop_new[OF w1] w2] by simp
  then have "isInLoopThread w2" by (simp add: starting_def isInLoopThread_def)
  then have wl: "w = acceptor_listen S w2" using w by (simp add: myserver_start_def server_start_def runInLoop_def)
  have t: "tidy w2 w" unfolding wl acceptor_listen_def Let_def by (intro tidy_intros)
  have "trace (initial_world k) = []" by (simp add: initial_world_def)
  then have "accepted (trace w2) = {#} \<and> closed (trace w2) = {#}"
    using loop_new_books[OF w1] myserver_new_books[OF w2] by simp
  then have "booked w2" using s2 by (simp add: ledger_def sockets_def dead_def starting_def)
  with t have "booked w" by (rule tidy_booked)
  moreover have "tidy w (w\<lparr>thisThread := 1, quit := False\<rparr>)" by (simp add: tidy_def)
  ultimately show ?thesis using tidy_booked by blast
qed

lemma reachable_booked:
  assumes "documented_calls S" "reachable S k w" shows "booked w"
  using assms by (rule books.reachable_J) (rule boot_booked)

section \<open>Properties\<close>

lemma count_sockets: "finite A \<Longrightarrow> count (sockets w A) f = card {n \<in> A. socket_of (conn_heap w n) = f}"
proof (induction A rule: finite_induct)
  case (insert n A)
  have "{m \<in> insert n A. socket_of (conn_heap w m) = f} =
      (if socket_of (conn_heap w n) = f then insert n {m \<in> A. socket_of (conn_heap w m) = f}
       else {m \<in> A. socket_of (conn_heap w m) = f})" by auto
  with insert show ?case by (simp add: sockets_def)
qed (simp add: sockets_def)

text \<open>C6: Descriptors are neither leaked nor closed twice.  In every reachable state of the server each
  descriptor was accepted exactly once for every connection that has it, and was closed exactly
  once for every such connection that has been destroyed; in particular nothing is closed that
  was not accepted before.\<close>
theorem descriptors_closed_once:
  assumes "documented_calls S" and "reachable S k w"
  shows "count (accepted (trace w)) f = card {n. n < next_conn w \<and> socket_of (conn_heap w n) = f} \<and>
    count (closed (trace w)) f = card {n. n < next_conn w \<and> refs w n = 0 \<and> socket_of (conn_heap w n) = f} \<and>
    closed (trace w) \<subseteq># accepted (trace w)"
proof (intro conjI)
  have l: "accepted (trace w) = sockets w {..<next_conn w}" "closed (trace w) = sockets w (dead w)"
    using reachable_booked[OF assms] by (simp_all add: ledger_def)
  show "count (accepted (trace w)) f = card {n. n < next_conn w \<and> socket_of (conn_heap w n) = f}"
    by (simp add: l count_sockets)
  show "count (closed (trace w)) f = card {n. n < next_conn w \<and> refs w n = 0 \<and> socket_of (conn_heap w n) = f}"
    by (simp add: l count_sockets) (simp add: dead_def conj_assoc)
  have "mset_set (dead w) \<subseteq># mset_set {..<next_conn w}"
    by (intro subset_imp_msubset_mset_set) (auto simp: dead_def)
  then show "closed (trace w) \<subseteq># accepted (trace w)" unfolding l sockets_def by (rule image_mset_subseteq_mono)
qed

lemma descriptors_closed_once_witness:
  "\<exists>w. reachable hangup_kernel 0 w \<and> count (closed (trace w)) (socket_of (conn_heap w 0)) = 1 \<and>
     count (accepted (trace w)) (socket_of (conn_heap w 0)) = 1"
proof -
  obtain w where w: "reachable hangup_kernel 0 w" "next_conn w = 1" "refs w 0 = 0" using hangup_states by blast
  have "{n. n < next_conn w \<and> socket_of (conn_heap w n) = socket_of (conn_heap w 0)} = {0}"
    "{n. n < next_conn w \<and> refs w n = 0 \<and> socket_of (conn_heap w n) = socket_of (conn_heap w 0)} = {0}"
    using w(2,3) by auto
  with descriptors_closed_once[OF hangup_documented w(1), of "socket_of (conn_heap w 0)"] w(1) show ?thesis by auto
qed

end
