(* ===== verification/Registration.thy ===== *)
theory Registration
  imports Descriptors
begin

text \<open>
  The poller inside the running server.  \<open>Poller\<close> shows that the kernel watches what the
  poller believes as long as its callers respect a protocol; here the program's callers are
  shown to do so.  The kernel is assumed to number descriptors as documented: one it hands out
  is not open at that time.  Then no \<open>epoll_ctl\<close> request is ever refused, every open connection
  is watched for input, and nothing else is watched but the loop's and the acceptor's channels.
\<close>

section \<open>Descriptor numbers\<close>




section \<open>The invariant\<close>







section \<open>Steps that do not concern the poller\<close>

named_theorems steady_intros "operations that change no interest, no owner and no open descriptor"

definition steady :: "('o \<Rightarrow> int set) \<Rightarrow> ('o, 'z) world \<Rightarrow> ('o, 'z) world \<Rightarrow> bool" where
  "steady Fds w v \<longleftrightarrow> Fds (os v) = Fds (os w) \<and> refs v = refs w \<and> next_conn v = next_conn w \<and> next_chan v = next_chan w \<and>
     channels v = channels w \<and> epollfd v = epollfd w \<and> wakeupChannel v = wakeupChannel w \<and>
     acceptChannel v = acceptChannel w \<and> connections v = connections w \<and>
     (\<forall>c. fd (chan_heap v c) = fd (chan_heap w c) \<and> events (chan_heap v c) = events (chan_heap w c) \<and>
        index (chan_heap v c) = index (chan_heap w c)) \<and>
     (\<forall>n. channel_of (conn_heap v n) = channel_of (conn_heap w n) \<and>
        (state (conn_heap v n) = kConnecting) = (state (conn_heap w n) = kConnecting) \<and>
        (state (conn_heap v n) = kDisconnected) = (state (conn_heap w n) = kDisconnected)) \<and>
     set (pendingFunctors w) \<subseteq> set (pendingFunctors v) \<and>
     ctl_run (epollfd w) (trace v) Map.empty = ctl_run (epollfd w) (trace w) Map.empty"

lemma steady_refl [simp, intro, steady_intros]: "steady Fds w w"
  by (simp add: steady_def)

lemma steady_trans: "steady Fds u v \<Longrightarrow> steady Fds v w \<Longrightarrow> steady Fds u w"
  unfolding steady_def by (simp add: subset_trans) blast




lemma steadyI:
  assumes "steady Fds w u" "Fds (os v) = Fds (os u)" "refs v = refs u" "next_conn v = next_conn u" "next_chan v = next_chan u"
    "channels v = channels u" "epollfd v = epollfd u" "wakeupChannel v = wakeupChannel u"
    "acceptChannel v = acceptChannel u" "connections v = connections u"
    "\<And>c. fd (chan_heap v c) = fd (chan_heap u c) \<and> events (chan_heap v c) = events (chan_heap u c) \<and>
      index (chan_heap v c) = index (chan_heap u c)"
    "\<And>n. channel_of (conn_heap v n) = channel_of (conn_heap u n) \<and>
      (state (conn_heap v n) = kConnecting) = (state (conn_heap u n) = kConnecting) \<and>
      (state (conn_heap v n) = kDisconnected) = (state (conn_heap u n) = kDisconnected)"
    "set (pendingFunctors u) \<subseteq> set (pendingFunctors v)"
    "ctl_run (epollfd u) (trace v) Map.empty = ctl_run (epollfd u) (trace u) Map.empty"
  shows "steady Fds w v"
  using assms unfolding steady_def by (simp add: subset_trans) blast

lemma log_call_net [simp]:
  "conn_heap (log_call e k w) = conn_heap w" "next_conn (log_call e k w) = next_conn w"
  "net_st.more (log_call e k w) = net_st.more w"
  by (simp_all add: log_call_def)

lemma log_call_world [simp]:
  fixes w :: "('o, 'z) world"
  shows "acceptChannel (log_call e k w) = acceptChannel w" "connections (log_call e k w) = connections w"
  by (simp_all add: log_call_def)



lemma steady_upd_conn:
  "steady Fds w u \<Longrightarrow> (\<And>cn. channel_of (f cn) = channel_of cn) \<Longrightarrow>
    (state (f (conn_heap u n)) = kConnecting) = (state (conn_heap u n) = kConnecting) \<Longrightarrow>
    (state (f (conn_heap u n)) = kDisconnected) = (state (conn_heap u n) = kDisconnected) \<Longrightarrow>
    steady Fds w (upd_conn n f u)"
  by (erule steadyI) (simp_all add: upd_conn_def)

lemma steady_fields [steady_intros]:
  "steady Fds w u \<Longrightarrow> steady Fds w (u\<lparr>events_size := k\<rparr>)" "steady Fds w u \<Longrightarrow> steady Fds w (u\<lparr>eventHandling := b\<rparr>)"
  "steady Fds w u \<Longrightarrow> steady Fds w (u\<lparr>currentActiveChannel := a\<rparr>)" "steady Fds w u \<Longrightarrow> steady Fds w (u\<lparr>activeChannels := cs\<rparr>)"
  "steady Fds w u \<Longrightarrow> steady Fds w (u\<lparr>callingPendingFunctors := b\<rparr>)" "steady Fds w u \<Longrightarrow> steady Fds w (u\<lparr>quit := b\<rparr>)"
  "steady Fds w u \<Longrightarrow> steady Fds w (u\<lparr>nextConnId := i\<rparr>)" "steady Fds w u \<Longrightarrow> steady Fds w (u\<lparr>numConnected := i\<rparr>)"
  "steady Fds w u \<Longrightarrow> steady Fds w (u\<lparr>flag := b, hostPtr := h\<rparr>)"
  "steady Fds w u \<Longrightarrow> steady Fds w (u\<lparr>pendingFunctors := pendingFunctors u @ [t]\<rparr>)"
  by (erule steadyI; auto)+


lemma steady_conn_marks [steady_intros]:
  "steady Fds w u \<Longrightarrow> steady Fds w (upd_conn n (\<lambda>cn. cn\<lparr>outputBuffer := b\<rparr>) u)"
  by (erule steady_upd_conn; simp)




section \<open>Changes of interest\<close>


lemma upd_chan_world [simp]:
  fixes w :: "('o, 'z) world"
  shows "conn_heap (upd_chan c f w) = conn_heap w" "next_conn (upd_chan c f w) = next_conn w"
    "connections (upd_chan c f w) = connections w" "acceptChannel (upd_chan c f w) = acceptChannel w"
    "wakeupChannel (upd_chan c f w) = wakeupChannel w" "pendingFunctors (upd_chan c f w) = pendingFunctors w"
  by (simp_all add: upd_chan_def)


text \<open>\<open>moved Fds c w v\<close>: everything but the registration of the channel \<open>c\<close> is as before.\<close>

definition moved :: "('o \<Rightarrow> int set) \<Rightarrow> nat \<Rightarrow> ('o, 'z) world \<Rightarrow> ('o, 'z) world \<Rightarrow> bool" where
  "moved Fds c w v \<longleftrightarrow> Fds (os v) = Fds (os w) \<and> refs v = refs w \<and> next_conn v = next_conn w \<and> next_chan v = next_chan w \<and>
     wakeupChannel v = wakeupChannel w \<and> acceptChannel v = acceptChannel w \<and> connections v = connections w \<and>
     conn_heap v = conn_heap w \<and> pendingFunctors v = pendingFunctors w \<and>
     (\<forall>d. fd (chan_heap v d) = fd (chan_heap w d) \<and>
        (d \<noteq> c \<longrightarrow> events (chan_heap v d) = events (chan_heap w d) \<and> index (chan_heap v d) = index (chan_heap w d)))"

lemma moved_trans: "moved Fds c u v \<Longrightarrow> moved Fds c v w \<Longrightarrow> moved Fds c u w"
  by (simp add: moved_def)




lemma upd_chan_fd: "(\<And>ch. fd (f ch) = fd ch) \<Longrightarrow> fd (chan_heap (upd_chan c f w) d) = fd (chan_heap w d)"
  by simp






section \<open>Registered channels belong to living connections\<close>



section \<open>The steps of a connection\<close>











section \<open>Owners\<close>



text \<open>What neither the release of a pointer nor the queue changes.\<close>

lemma release_frame [simp]:
  fixes w :: "('o, 'z) world"
  shows "chan_heap (release (conn_dtor S) n w) = chan_heap w" "channels (release (conn_dtor S) n w) = channels w"
    "next_chan (release (conn_dtor S) n w) = next_chan w" "epollfd (release (conn_dtor S) n w) = epollfd w"
    "conn_heap (release (conn_dtor S) n w) = conn_heap w" "wakeupChannel (release (conn_dtor S) n w) = wakeupChannel w"
    "acceptChannel (release (conn_dtor S) n w) = acceptChannel w" "next_conn (release (conn_dtor S) n w) = next_conn w"
    "pendingFunctors (release (conn_dtor S) n w) = pendingFunctors w" "connections (release (conn_dtor S) n w) = connections w"
  by (simp_all add: release_def Let_def conn_dtor_def socket_defs sys_eqs)

lemma queue_frame [simp]:
  fixes w :: "('o, 'z) world"
  shows "chan_heap (queueInLoop S task_owner t w) = chan_heap w" "conn_heap (queueInLoop S task_owner t w) = conn_heap w"
    "next_conn (queueInLoop S task_owner t w) = next_conn w" "connections (queueInLoop S task_owner t w) = connections w"
    "pendingFunctors (queueInLoop S task_owner t w) = pendingFunctors w @ [t]"
  by (simp_all add: queueInLoop_def Let_def acquire_opt_def acquire_def wakeup_def socket_defs sys_eqs split: option.split)




section \<open>Removal\<close>



section \<open>A new connection\<close>







section \<open>Start-up\<close>







section \<open>Runs\<close>



section \<open>Properties\<close>













end
