(* ===== verification/Bindings.thy ===== *)
theory Bindings
  imports ConnectionInvariant
begin

text \<open>
  What the function objects and the weak pointer of the server refer to: which callback sits
  in which slot of a channel, that every queued functor is bound to a living connection, and
  that the host is chosen once.  The invariant \<open>bound H D\<close> is parametrised by connections known
  to be the host (\<open>H\<close>) or to be destroyed (\<open>D\<close>), so that it also says what stays true from a
  given state on.
\<close>

unbundle bit_operations_syntax

section \<open>The invariant\<close>

definition callbacks :: "'t channel \<Rightarrow> 't option \<times> 't option \<times> 't option \<times> 't option" where
  "callbacks ch = (readCallback ch, writeCallback ch, closeCallback ch, errorCallback ch)"

definition own_callbacks :: "nat \<Rightarrow> task option \<times> task option \<times> task option \<times> task option" where
  "own_callbacks n = (Some (ConnHandleRead n), Some (ConnHandleWrite n), Some (ConnHandleClose n), Some (ConnHandleError n))"

text \<open>The channel of a connection exists and calls its four handlers.\<close>

definition calls_back :: "('o, 'z) net_st_scheme \<Rightarrow> nat \<Rightarrow> bool" where
  "calls_back w n \<longleftrightarrow> channel_of (conn_heap w n) < next_chan w \<and> callbacks (conn_channel n w) = own_callbacks n"

definition bound :: "nat set \<Rightarrow> nat set \<Rightarrow> ('o, 'z) world \<Rightarrow> bool" where
  "bound H D w \<longleftrightarrow> (\<forall>n<next_conn w. calls_back w n) \<and> (hostPtr w = None \<or> \<not> flag w) \<and>
     (\<forall>h\<in>H. hostPtr w = Some h) \<and> (\<forall>n\<in>D. n < next_conn w \<and> refs w n = 0)"

lemma boundD:
  assumes "bound H D w"
  shows "n < next_conn w \<Longrightarrow> calls_back w n" "hostPtr w = None \<or> \<not> flag w" "h \<in> H \<Longrightarrow> hostPtr w = Some h"
    "n \<in> D \<Longrightarrow> n < next_conn w \<and> refs w n = 0"
  using assms by (auto simp: bound_def)

text \<open>Steps that touch none of this.\<close>

definition fixed :: "('o, 'z) world \<Rightarrow> ('o, 'z) world \<Rightarrow> bool" where
  "fixed w v \<longleftrightarrow> next_conn v = next_conn w \<and> next_chan v = next_chan w \<and> refs v = refs w \<and>
     hostPtr v = hostPtr w \<and> flag v = flag w \<and>
     (\<forall>n. channel_of (conn_heap v n) = channel_of (conn_heap w n)) \<and>
     (\<forall>c. callbacks (chan_heap v c) = callbacks (chan_heap w c))"

lemma fixed_trans: "fixed u v \<Longrightarrow> fixed v w \<Longrightarrow> fixed u w"
  by (simp add: fixed_def)

lemma more_flag:
  assumes "net_st.more v = net_st.more w" shows "flag v = flag w"
  using assms
  by (cases v rule: myserver_st.cases_scheme; cases w rule: myserver_st.cases_scheme;
      simp only: net_st.select_convs server_st.select_convs myserver_st.select_convs acceptor_st.select_convs
        acceptor_st.ext_inject server_st.ext_inject myserver_st.ext_inject)

lemma still_fixed: "still w v \<Longrightarrow> fixed w v"
  using world_more_eqD(2)[of v w] more_flag[of v w] by (simp add: still_def fixed_def binding_def callbacks_def)

lemma fixed_bound:
  assumes "fixed w v" "bound H D w" shows "bound H D v"
proof -
  have "calls_back v n = calls_back w n" for n
    using assms(1) by (simp add: calls_back_def conn_channel_def fixed_def)
  then show ?thesis using assms by (simp add: bound_def fixed_def)
qed

lemma still_bound: "still w v \<Longrightarrow> bound H D w \<Longrightarrow> bound H D v"
  using still_fixed fixed_bound by blast

section \<open>Owners come and go\<close>

lemma bound_acquire:
  assumes "bound H D w" "n \<notin> D" shows "bound H D (acquire n w)"
proof -
  have "calls_back (acquire n w) m = calls_back w m" for m
    by (simp add: calls_back_def conn_channel_def acquire_def)
  then show ?thesis using assms by (auto simp: bound_def acquire_def)
qed

lemma bound_alive: "bound H D w \<Longrightarrow> 0 < refs w n \<Longrightarrow> n \<notin> D"
  using boundD(4) by fastforce

lemma bound_release:
  assumes "bound H D w" shows "bound H D (release (conn_dtor S) n w)"
proof -
  let ?w = "w\<lparr>refs := (refs w)(n := refs w n - 1)\<rparr>"
  have "calls_back ?w m = calls_back w m" for m by (simp add: calls_back_def conn_channel_def)
  then have "bound H D ?w" using assms by (auto simp: bound_def)
  moreover have "still ?w (conn_dtor S n ?w)" by (intro still_intros)
  ultimately show ?thesis unfolding release_def Let_def using still_bound by auto
qed

lemma bound_release_opt: "bound H D w \<Longrightarrow> bound H D (release_opt (conn_dtor S) p w)"
  by (simp add: release_opt_def bound_release split: option.split)

lemma bound_enqueue: "bound H D w \<Longrightarrow> bound H D (w\<lparr>pendingFunctors := q\<rparr>)"
  by (erule fixed_bound[rotated]) (simp add: fixed_def)

lemma bound_queue:
  assumes "bound H D w" "\<And>n. task_owner t = Some n \<Longrightarrow> n \<notin> D"
  shows "bound H D (queueInLoop S task_owner t w)"
proof -
  have "bound H D (acquire_opt (task_owner t) (w\<lparr>pendingFunctors := pendingFunctors w @ [t]\<rparr>))"
    using assms by (auto simp: acquire_opt_def intro: bound_acquire bound_enqueue split: option.split)
  with queueInLoop_still show ?thesis by (rule still_bound)
qed

lemma fixed_upd_conn: "(\<And>cn. channel_of (f cn) = channel_of cn) \<Longrightarrow> fixed w (upd_conn n f w)"
  by (simp add: fixed_def upd_conn_def)

section \<open>Operations\<close>

lemma removeConnectionInLoop_bound:
  fixes w :: "('o, 'z) world"
  assumes safe: "keeps G L B w" and n: "n \<in># L" and b: "bound H D w"
  shows "bound H D (removeConnectionInLoop S n w)"
proof -
  let ?w1 = "w\<lparr>connections := AList.delete (conn_name (conn_heap w n)) (connections w)\<rparr>"
  let ?w2 = "release_opt (conn_dtor S) (map_of (connections w) (conn_name (conn_heap w n))) ?w1"
  have "keeps G L B ?w2" using safe by (rule safe_unmap)
  then have a: "0 < refs ?w2 n" using n safe_alive by fastforce
  have "fixed w ?w1" by (simp add: fixed_def)
  then have w2: "bound H D ?w2" using b fixed_bound bound_release_opt by blast
  then have "bound H D (queueInLoop S task_owner (ConnConnectDestroyed n) ?w2)"
    using bound_alive[OF w2 a] by (intro bound_queue) auto
  then show ?thesis by (simp add: removeConnectionInLoop_def assertInLoopThread_def Let_def)
qed

lemma new_connection_bound:
  fixes w :: "('o, 'z) world"
  assumes b: "bound H D w" and run: "new_connection nm sockfd local peer w = Inr (n, v)"
  shows "bound H D v"
proof -
  obtain buf where buf: "new_buffer kInitialSize = Inr buf"
    using run by (auto simp: new_connection_def ebind_eq_Inr case_prod_beta)
  let ?n = "next_conn w" and ?c = "next_chan w"
  have v: "next_conn v = Suc ?n" "next_chan v = Suc ?c" "refs v = refs w"
    "hostPtr v = hostPtr w" "flag v = flag w"
    and h: "channel_of (conn_heap v ?n) = ?c" "\<And>m. m \<noteq> ?n \<Longrightarrow> conn_heap v m = conn_heap w m"
    and c: "callbacks (chan_heap v ?c) = own_callbacks ?n" "\<And>d. d \<noteq> ?c \<Longrightarrow> chan_heap v d = chan_heap w d"
    using run buf by (auto simp: new_connection_def alloc_channel_def Let_def upd_chan_def callback_defs new_channel_def
        callbacks_def own_callbacks_def)
  have "calls_back v m" if "m < Suc ?n" for m
  proof (cases "m = ?n")
    case True
    then show ?thesis using h(1) c(1) by (simp add: calls_back_def conn_channel_def v)
  next
    case False
    then have "calls_back w m" using boundD(1)[OF b] that by simp
    with False show ?thesis using h(2) c(2) by (simp add: calls_back_def conn_channel_def v)
  qed
  then show ?thesis using b by (auto simp: bound_def v)
qed

lemma newConnection_bound:
  fixes w :: "('o, 'z) world"
  assumes safe: "keeps G L B w" and b: "bound H D w"
    and run: "newConnection S (my_handlers S) sockfd peer w = Inr v"
  shows "bound H D v"
proof -
  let ?n = "next_conn w" and ?nm = "server_name w @ connection_suffix (hostport w) (nextConnId w)"
  let ?w1 = "w\<lparr>nextConnId := nextConnId w + 1\<rparr>" let ?w2 = "snd (getLocalAddr S sockfd ?w1)"
  obtain local w3 where w3: "new_connection ?nm sockfd local peer ?w2 = Inr (?n, w3)"
    and v: "v = release (conn_dtor S) ?n (queueInLoop S task_owner (ConnConnectEstablished ?n)
       (upd_conn ?n (wired (store_connection S ?nm ?n (acquire ?n w3))) (store_connection S ?nm ?n (acquire ?n w3))))"
    by (rule newConnection_parts[OF safe run])
  let ?w4 = "acquire ?n w3" let ?w5 = "store_connection S ?nm ?n ?w4"
  have D: "?n \<notin> D" using boundD(4)[OF b] by blast
  have "fixed w ?w1" by (simp add: fixed_def)
  moreover have "still ?w1 ?w2" by (intro still_intros)
  ultimately have "bound H D ?w2" using b fixed_bound still_bound by blast
  then have "bound H D w3" using w3 by (rule new_connection_bound)
  then have "bound H D ?w4" using D by (rule bound_acquire)
  moreover have "fixed ?w4 (?w4\<lparr>connections := AList.update ?nm ?n (connections ?w4)\<rparr>)" by (simp add: fixed_def)
  ultimately have "bound H D (?w4\<lparr>connections := AList.update ?nm ?n (connections ?w4)\<rparr>)" using fixed_bound by blast
  then have "bound H D ?w5" unfolding store_connection_def using D by (intro bound_release_opt bound_acquire)
  moreover have "fixed ?w5 (upd_conn ?n (wired ?w5) ?w5)" by (rule fixed_upd_conn) (simp del: o_apply)
  ultimately have "bound H D (upd_conn ?n (wired ?w5) ?w5)" using fixed_bound by blast
  then show ?thesis unfolding v using D by (intro bound_release bound_queue) auto
qed

lemma acceptor_handleRead_bound:
  fixes w :: "('o, 'z) world"
  assumes safe: "keeps G L B w" and b: "bound H D w"
    and run: "acceptor_handleRead S (my_new_connection S) w = Inr v"
  shows "bound H D v"
proof -
  let ?p = "InetAddress_port big_endian_host 0"
  obtain connfd peer u where ac: "Socket_Accept S (acceptSocket w) ?p w = ((connfd, peer), u)" by (metis surj_pair)
  have "still w (snd (Socket_Accept S (acceptSocket w) ?p w))" by (intro still_intros)
  then have st: "still w u" by (simp add: ac)
  have u: "keeps G L B u" "bound H D u" using st safe b safe_still still_bound by blast+
  have cb: "newConnectionCallback u = Some ServerNewConnection" using safeD(9)[OF u(1)] by (simp add: server_slots_def)
  show ?thesis
  proof (cases "0 \<le> connfd")
    case True
    then have "newConnection S (my_handlers S) connfd peer u = Inr v"
      using run by (simp add: acceptor_handleRead_def ac cb my_new_connection_def)
    then show ?thesis by (rule newConnection_bound[OF u])
  next
    case False
    then have "still u v" using run by (auto simp: acceptor_handleRead_def ac)
    then show ?thesis using u(2) by (rule still_bound)
  qed
qed

section \<open>Runs\<close>

text \<open>All the other steps leave callbacks, host and destroyed connections alone.\<close>

interpretation bnd: connection_invariant S "\<lambda>B. bound H D"
  for S H D
proof
  fix B L t and w :: "'a myserver_st" and n c b i a f bs k buf
  assume w: "bound H D w"
  have st: "bound H D v" if "still w v" for v using that w by (rule still_bound)
  have fx: "bound H D v" if "fixed w v" for v using that w by (rule fixed_bound)
  show "bound H D (loop_poll S w)" by (rule st) (intro still_intros)
  show "bound H D (w\<lparr>callingPendingFunctors := b, pendingFunctors := []\<rparr>)" by (rule fx) (simp add: fixed_def)
  show "bound H D (upd_chan c (\<lambda>ch. ch\<lparr>ch_eventHandling := b\<rparr>) w)" by (rule st) (intro still_intros)
  show "bound H D (w\<lparr>eventHandling := b\<rparr>)" by (rule st) (intro still_intros)
  show "bound H D (w\<lparr>currentActiveChannel := a\<rparr>)" by (rule st) (intro still_intros)
  show "bound H D (w\<lparr>callingPendingFunctors := b\<rparr>)" by (rule st) (intro still_intros)
  show "bound H D (w\<lparr>numConnected := i\<rparr>)" by (rule fx) (simp add: fixed_def)
  show "bound H D (w\<lparr>flag := False, hostPtr := Some n\<rparr>)" if "flag w"
  proof -
    have "hostPtr w = None" using boundD(2)[OF w] that by simp
    then have "H = {}" using boundD(3)[OF w] by auto
    moreover have "calls_back (w\<lparr>flag := False, hostPtr := Some n\<rparr>) m = calls_back w m" for m
      by (simp add: calls_back_def conn_channel_def)
    ultimately show ?thesis using w by (simp add: bound_def)
  qed
  show "bound H D (snd (sock_write S f bs w))" by (rule st) (intro still_intros)
  show "bound H D (snd (sock_read S f k w))" by (rule st) (intro still_intros)
  show "bound H D (shutdownInLoop S n w)" by (rule st) (intro still_intros)
  show "bound H D (w\<lparr>pendingFunctors := pendingFunctors w @ [t]\<rparr>)" using w by (rule bound_enqueue)
  show "0 < refs w n \<Longrightarrow> bound H D (acquire n w)" using w bound_alive bound_acquire by blast
  show "bound H D (release (conn_dtor S) n w)" using w by (rule bound_release)
  show "bound H D (upd_conn n (\<lambda>cn. cn\<lparr>outputBuffer := buf\<rparr>) w)" by (rule fx, rule fixed_upd_conn) simp
  show "bound H D (upd_conn n (setState kDisconnecting) w)" by (rule fx, rule fixed_upd_conn) simp
  show "bound H D (enableWriting S (channel_of (conn_heap w n)) w)" by (rule st) (intro still_intros)
  show "bound H D (disableWriting S (channel_of (conn_heap w n)) w)" by (rule st) (intro still_intros)
  show "bound H D (acceptor_listen S w)" by (rule st) (unfold acceptor_listen_def Let_def, intro still_intros)
  show "bound H D (enableReading S c (upd_chan c (channel_tie n) (upd_conn n (setState kConnected) w)))"
  proof -
    have "fixed w (upd_conn n (setState kConnected) w)" by (rule fixed_upd_conn) simp
    moreover have "fixed u (upd_chan c (channel_tie n) u)" for u :: "'a myserver_st"
      by (simp add: fixed_def upd_chan_def channel_tie_def callbacks_def)
    ultimately have "bound H D (upd_chan c (channel_tie n) (upd_conn n (setState kConnected) w))"
      using fx fixed_trans by blast
    moreover have "still u (enableReading S c u)" for u :: "'a myserver_st" by (intro still_intros)
    ultimately show ?thesis using still_bound by blast
  qed
  show "bound H D (disableAll S (channel_of (conn_heap w n)) (upd_conn n (setState kDisconnected) w))"
  proof -
    have "bound H D (upd_conn n (setState kDisconnected) w)" by (rule fx, rule fixed_upd_conn) simp
    moreover have "still u (disableAll S c u)" for u :: "'a myserver_st" and c by (intro still_intros)
    ultimately show ?thesis using still_bound by blast
  qed
  show "bound H D (channel_remove S (channel_of (conn_heap w n)) w)" by (rule st) (intro still_intros)
next
  fix L and w v :: "'a myserver_st"
  assume "safe Map.empty {} L [] w" "bound H D w" "acceptor_handleRead S (my_new_connection S) w = Inr v"
  then show "bound H D v" by (rule acceptor_handleRead_bound)
next
  fix L B and w :: "'a myserver_st" and n
  assume "safe Map.empty {} L B w" "n \<in># L" "bound H D w"
  then show "bound H D (removeConnectionInLoop S n w)" by (rule removeConnectionInLoop_bound)
qed

lemma boot_bound:
  assumes "boot S k = Inr w" shows "bound {} {} (w\<lparr>thisThread := 1, quit := False\<rparr>)"
proof -
  obtain w1 w2 where w1: "loop_new S LoopHandleRead (initial_world k) = Inr w1"
    and w2: "myserver_new S (InetAddress_port big_endian_host 55266) 2 w1 = Inr w2" and w: "myserver_start S w2 = Inr w"
    using assms by (auto simp: boot_def ebind_eq_Inr)
  have s2: "starting w2" "hostPtr w2 = None" using starting_server[OF starting_loop_new[OF w1] w2] by simp_all
  then have "isInLoopThread w2" by (simp add: starting_def isInLoopThread_def)
  then have "w = acceptor_listen S w2" using w by (simp add: myserver_start_def server_start_def runInLoop_def)
  then have "still w2 w" unfolding acceptor_listen_def Let_def by simp (intro still_intros)
  moreover have "bound {} {} w2" using s2 by (simp add: bound_def starting_def)
  ultimately have "bound {} {} w" by (rule still_bound)
  moreover have "fixed w (w\<lparr>thisThread := 1, quit := False\<rparr>)" by (simp add: fixed_def)
  ultimately show ?thesis using fixed_bound by blast
qed

lemma reachable_bound:
  assumes "documented_calls S" "reachable S k w" shows "bound {} {} w"
  using assms by (rule bnd.reachable_J) (rule boot_bound)

section \<open>A message without a host\<close>

text \<open>The read handler of a living connection that gets a message, when the host is gone.\<close>

lemma orphan_message:
  assumes slots: "conn_slots (conn_heap w n)" and a: "0 < refs w n"
    and h: "hostPtr w = Some h" "refs w h = 0"
    and rd: "fst (os_read S (fd (conn_channel n w)) 1024 (os w)) = (r, bs, e)" "0 < r"
  shows "run_task S (ConnHandleRead n) w = Inl Null_dereference"
proof -
  obtain u where u: "sock_read S (fd (conn_channel n w)) 1024 w = ((r, bs, e), u)" and st: "u = snd (sock_read S (fd (conn_channel n w)) 1024 w)"
    using rd(1) by (simp add: sock_read_def sys_eqs Let_def)
  have "still w (snd (sock_read S (fd (conn_channel n w)) 1024 w))" by (intro still_intros)
  then have f: "refs u = refs w" "conn_heap u = conn_heap w" "net_st.more u = net_st.more w" using st by (simp_all add: still_def)
  have hu: "hostPtr u = Some h" using world_more_eqD(2)[OF f(3)] h(1) by simp
  have "n \<noteq> h" using a h(2) by auto
  then have e: "expired (hostPtr (acquire n u)) (acquire n u)" using hu h(2) f(1) by (simp add: expired_def acquire_def)
  have cb: "messageCallback (conn_heap (acquire n u) n) = Some MyServerOnMessage"
    using slots f(2) by (simp add: acquire_def conn_slots_def)
  have "with_shared S n (\<lambda>v. call_fn (messageCallback (conn_heap v n))
      (\<lambda>c. on_message (my_handlers S) c n (take (nat r) bs) v)) u = Inl Null_dereference"
    using a f(1) e cb by (simp add: with_shared_def call_fn_def my_handlers_def my_on_message_def onMessage_def)
  then show ?thesis using a rd(2) u by (simp add: on_alive_def handleRead_def loop_op_defs)
qed

text \<open>The event that reports the message reaches that handler, since the channel is tied to its connection.\<close>

lemma readable_event:
  assumes cb: "callbacks (chan_heap w c) = own_callbacks n" and t: "tied (chan_heap w c)" "tie (chan_heap w c) = Some n"
    and a: "0 < refs w n" and ev: "revents (chan_heap w c) AND EPOLLIN \<noteq> 0"
    and fault: "run_task S (ConnHandleRead n) (upd_chan c (\<lambda>ch. ch\<lparr>ch_eventHandling := True\<rparr>) (acquire n w)) = Inl x"
  shows "handleEvent (conn_dtor S) (run_task S) c w = Inl x"
proof -
  let ?u = "upd_chan c (\<lambda>ch. ch\<lparr>ch_eventHandling := True\<rparr>) (acquire n w)"
  have u: "revents (chan_heap ?u c) = revents (chan_heap w c)" "readCallback (chan_heap ?u c) = Some (ConnHandleRead n)"
    "errorCallback (chan_heap ?u c) = Some (ConnHandleError n)" "0 < refs ?u n"
    using cb by (simp_all add: acquire_def upd_chan_def callbacks_def own_callbacks_def)
  have in3: "r AND (EPOLLIN OR EPOLLPRI OR EPOLLRDHUP) \<noteq> 0" if "r AND EPOLLIN \<noteq> 0" for r :: "32 word"
  proof
    assume z: "r AND (EPOLLIN OR EPOLLPRI OR EPOLLRDHUP) = 0"
    have "r AND EPOLLIN = (r AND (EPOLLIN OR EPOLLPRI OR EPOLLRDHUP)) AND EPOLLIN"
      by (rule bit_word_eqI) (auto simp: bit_and_iff bit_or_iff)
    then show False using that z by simp
  qed
  have "fire (run_task S) c (\<lambda>r. r AND EPOLLHUP \<noteq> 0 \<and> r AND EPOLLIN = 0) closeCallback ?u = Inr ?u"
    using ev u(1) by (simp add: fire_def)
  moreover have "fire (run_task S) c (\<lambda>r. r AND EPOLLERR \<noteq> 0) errorCallback ?u = Inr ?u"
    using u(3,4) by (simp add: fire_def on_alive_def handleError_def)
  moreover have "fire (run_task S) c (\<lambda>r. r AND (EPOLLIN OR EPOLLPRI OR EPOLLRDHUP) \<noteq> 0) readCallback ?u = Inl x"
    using in3[OF ev] u(1,2) fault by (simp add: fire_def)
  ultimately have "handleEventWithGuard (run_task S) c (acquire n w) = Inl x" by (simp add: handleEventWithGuard_def)
  then show ?thesis using t a by (simp add: handleEvent_def expired_def acquire_opt_def)
qed

lemma poll_fd:
  fixes w :: "('o, 't, 'z) loop_st_scheme"
  shows "fd (chan_heap (loop_poll S w) c) = fd (chan_heap w c)"
proof -
  have fill: "fd (chan_heap (snd (fillActiveChannels es u)) c) = fd (chan_heap u c)"
    for es and u :: "('o, 't, 'z) loop_st_scheme"
    by (induction es arbitrary: u) (auto simp: case_prod_beta upd_chan_def set_revents_def)
  show ?thesis by (auto simp: loop_poll_def poller_poll_def sys_eqs case_prod_beta log_call_def fill)
qed

text \<open>Once connected, a connection's channel is tied to it.\<close>

lemma channel_tied:
  assumes safe: "keeps G L B w" and n: "n < next_conn w" "state (conn_heap w n) \<noteq> kConnecting"
    and cb: "callbacks (conn_channel n w) = own_callbacks n"
  shows "tied (conn_channel n w) \<and> tie (conn_channel n w) = Some n"
proof -
  have "ConnHandleRead n \<in> channel_tasks (chan_heap w (channel_of (conn_heap w n)))"
    using cb by (simp add: channel_tasks_def callbacks_def own_callbacks_def conn_channel_def)
  with safeD(8)[OF safe, of "channel_of (conn_heap w n)"] n show ?thesis
    by (auto simp: channel_ok_def conn_tasks_def conn_channel_def)
qed

lemma demo_three: "case demo_run 3 of Inr v \<Rightarrow> hostPtr v = Some 0 \<and> refs v 0 = 0 \<and> next_conn v = 2 \<and>
    state (conn_heap v 1) = kConnected \<and> channel_of (conn_heap v 1) = 4 \<and> fd (chan_heap v 4) = 9 \<and>
    activeChannels (loop_poll demo_kernel v) = [4] \<and> revents (chan_heap (loop_poll demo_kernel v) 4) = EPOLLIN
  | Inl e \<Rightarrow> False"
  by (simp add: demo_eval del: One_nat_def iterations.simps
      cong: ebind_weak_cong let_weak_cong prod.case_cong_weak)

section \<open>Properties\<close>

text \<open>C12: The answer to a message is not guarded against the loss of the host.  The first client is the
  host for good: once its connection has been destroyed, no later client takes its place, however
  many iterations follow and whatever happens in them; and the next time the kernel reports
  first that another open connection can be read, and \<open>read\<close> delivers a message from it, the
  iteration ends with the loop thread dereferencing a null pointer.\<close>
theorem message_after_host_left_faults:
  assumes S: "documented_calls S" and "reachable S k w" and host: "hostPtr w = Some h" "refs w h = 0"
    and run: "iterations S (conn_dtor S) task_owner (run_task S) m w = Inr v"
    and n: "n < next_conn v" "state (conn_heap v n) \<in> {kConnected, kDisconnecting}"
    and event: "activeChannels (loop_poll S v) = channel_of (conn_heap v n) # cs"
      "revents (chan_heap (loop_poll S v) (channel_of (conn_heap v n))) AND EPOLLIN \<noteq> 0"
    and rd: "fst (os_read S (fd (conn_channel n v)) 1024 (os (loop_poll S v))) = (r, bs, e)" "0 < r"
  shows "hostPtr v = Some h \<and> refs v h = 0 \<and> server_iteration S v = Inl Null_dereference"
proof -
  have "h < next_conn w" using reachable_safe[OF S assms(2)] host(1) safeD(11) by blast
  then have "bound {h} {h} w" using reachable_bound[OF S assms(2)] host by (simp add: bound_def)
  from bnd.iterations_J[OF S assms(2) this run] have b: "bound {h} {h} v" .
  then have hv: "hostPtr v = Some h" "refs v h = 0" by (simp_all add: bound_def)
  have rv: "reachable S k v" using assms(2) run by (rule reachable_iterations)
  note safe = reachable_safe[OF S rv]
  have a: "0 < refs v n" using open_alive[OF S rv n(1)] n(2) by (auto simp: open_state_def)
  define c where "c = channel_of (conn_heap v n)"
  have cb: "callbacks (conn_channel n v) = own_callbacks n" using boundD(1)[OF b n(1)] by (simp add: calls_back_def)
  have t: "tied (conn_channel n v)" "tie (conn_channel n v) = Some n"
    using channel_tied[OF safe n(1) _ cb] n(2) by auto
  have sp: "still v (loop_poll S v)" by (intro still_intros)
  let ?x = "(loop_poll S v)\<lparr>eventHandling := True, currentActiveChannel := Some c\<rparr>"
  have x: "refs ?x = refs v" "conn_heap ?x = conn_heap v" "hostPtr ?x = Some h" "binding (chan_heap ?x c) = binding (conn_channel n v)"
    "revents (chan_heap ?x c) AND EPOLLIN \<noteq> 0" "os ?x = os (loop_poll S v)" "net_st.more ?x = net_st.more v"
    using sp world_more_eqD(2)[of "loop_poll S v" v] hv event(2) by (simp_all add: still_def c_def conn_channel_def)
  have fd: "fd (chan_heap ?x c) = fd (conn_channel n v)" by (simp add: poll_fd c_def conn_channel_def)
  have "handleEvent (conn_dtor S) (run_task S) c ?x = Inl Null_dereference"
  proof (rule readable_event)
    show "callbacks (chan_heap ?x c) = own_callbacks n" "tied (chan_heap ?x c)" "tie (chan_heap ?x c) = Some n"
      using x(4) cb t by (simp_all add: binding_def callbacks_def)
    show "0 < refs ?x n" using a x(1) by simp
    show "revents (chan_heap ?x c) AND EPOLLIN \<noteq> 0" using x(5) .
    let ?u = "upd_chan c (\<lambda>ch. ch\<lparr>ch_eventHandling := True\<rparr>) (acquire n ?x)"
    show "run_task S (ConnHandleRead n) ?u = Inl Null_dereference"
    proof (rule orphan_message)
      show "conn_slots (conn_heap ?u n)" using safeD(7)[OF safe n(1)] x(2) by (simp add: acquire_def upd_chan_def)
      show "0 < refs ?u n" by (simp add: acquire_def upd_chan_def)
      show "hostPtr ?u = Some h" using x(3) by (simp add: acquire_def upd_chan_def)
      show "refs ?u h = 0" using hv(2) a x(1) by (auto simp: acquire_def upd_chan_def)
      show "fst (os_read S (fd (conn_channel n ?u)) 1024 (os ?u)) = (r, bs, e)"
        using rd(1) fd x(2,6) by (simp add: acquire_def upd_chan_def conn_channel_def c_def)
    qed (rule rd(2))
  qed
  then have "server_iteration S v = Inl Null_dereference"
    using event(1) by (simp add: server_iteration_def loop_body_def Let_def handleActive_def c_def)
  with hv show ?thesis by blast
qed

lemma message_after_host_left_faults_witness:
  "\<exists>w. demo_run 3 = Inr w \<and> hostPtr w = Some 0 \<and> refs w 0 = 0 \<and> state (conn_heap w 1) = kConnected \<and>
     server_iteration demo_kernel w = Inl Null_dereference"
proof -
  obtain w where w: "demo_run 3 = Inr w" "hostPtr w = Some 0" "refs w 0 = 0" "next_conn w = 2"
    "state (conn_heap w 1) = kConnected" "channel_of (conn_heap w 1) = 4" "fd (chan_heap w 4) = 9"
    "activeChannels (loop_poll demo_kernel w) = [4]" "revents (chan_heap (loop_poll demo_kernel w) 4) = EPOLLIN"
    using demo_three by (auto split: sum.splits)
  have "fst (os_read demo_kernel (fd (conn_channel 1 w)) 1024 (os (loop_poll demo_kernel w))) = (1, [65], EINTR)"
    using w(6,7) by (simp add: demo_kernel_simps conn_channel_def)
  with message_after_host_left_faults[OF demo_documented demo_reachable[OF w(1)] w(2,3), of 0 w 1 "[]" 1 "[65]" EINTR] w
  show ?thesis by (simp add: EPOLLIN_def)
qed

text \<open>
  Function objects in their places: the server's slots and those of every connection hold the
  callbacks of their signatures, and the four slots of a connection's channel hold its own
  handlers.  A callback of a channel belongs to the loop, the acceptor or the connection the
  channel was made for; that connection is alive, or it is disconnected and the channel tied
  to it, so that the lock taken before the call decides.  A functor in the queue is bound to a
  living connection.
\<close>

definition well_typed :: "('o, 'z) world \<Rightarrow> bool" where
  "well_typed w \<longleftrightarrow> server_slots w \<and>
     (\<forall>n<next_conn w. conn_slots (conn_heap w n) \<and> callbacks (conn_channel n w) = own_callbacks n) \<and>
     (\<forall>c. \<forall>t\<in>channel_tasks (chan_heap w c). is_callback t \<and>
        (\<forall>n. conn_of t = Some n \<longrightarrow> n < next_conn w \<and> channel_of (conn_heap w n) = c \<and>
           (0 < refs w n \<or>
            state (conn_heap w n) = kDisconnected \<and> tied (chan_heap w c) \<and> tie (chan_heap w c) = Some n))) \<and>
     (\<forall>t\<in>set (pendingFunctors w). queueable t \<and> (\<forall>n. conn_of t = Some n \<longrightarrow> 0 < refs w n))"

lemma connecting_alive:
  assumes safe: "keeps G L [] w" and n: "n < next_conn w" "state (conn_heap w n) = kConnecting"
  shows "0 < refs w n"
proof -
  have "ConnConnectEstablished n \<in> set (pendingFunctors w)"
    using spec[OF safeD(5)[OF safe, unfolded establishing_def], of n] n by (metis append_Nil count_mset_0_iff zero_neq_one)
  then have "n \<in># held w" using owners_member[of _ _ task_owner n] by (simp add: held_def)
  then show ?thesis by (intro safe_alive[OF safe]) simp
qed

lemma reachable_well_typed:
  assumes "documented_calls S" "reachable S k w" shows "well_typed w"
proof -
  note safe = reachable_safe[OF assms] and b = reachable_bound[OF assms]
  note D = safeD[OF safe]
  have slot: "is_callback t \<and> (\<forall>n. conn_of t = Some n \<longrightarrow> n < next_conn w \<and> channel_of (conn_heap w n) = c \<and>
      (0 < refs w n \<or> state (conn_heap w n) = kDisconnected \<and> tied (chan_heap w c) \<and> tie (chan_heap w c) = Some n))"
    if t: "t \<in> channel_tasks (chan_heap w c)" for t c
  proof -
    have ok: "t = LoopHandleRead \<or> t = AcceptorHandleRead \<or> (\<exists>m<next_conn w. t \<in> conn_tasks m \<and> channel_of (conn_heap w m) = c \<and>
        (state (conn_heap w m) = kConnecting \<or> tied (chan_heap w c) \<and> tie (chan_heap w c) = Some m))"
      using bspec[OF D(8)[of c, unfolded channel_ok_def] t] by blast
    have alive: "0 < refs w m" if "m < next_conn w" "state (conn_heap w m) \<noteq> kDisconnected" for m
      using connecting_alive[OF safe that(1)] open_alive[OF assms that(1)] that(2)
      by (cases "state (conn_heap w m)") (simp_all add: open_state_def)
    show ?thesis
    proof (cases "\<exists>m. conn_of t = Some m")
      case False
      then show ?thesis using ok by (auto simp: conn_tasks_def)
    next
      case True
      then obtain m where m: "conn_of t = Some m" by blast
      with ok have "is_callback t" "m < next_conn w" "channel_of (conn_heap w m) = c"
        "state (conn_heap w m) = kConnecting \<or> tied (chan_heap w c) \<and> tie (chan_heap w c) = Some m"
        by (auto simp: conn_tasks_def)
      then show ?thesis using alive[of m] m by (cases "state (conn_heap w m) = kDisconnected") auto
    qed
  qed
  have queued: "0 < refs w n" if "t \<in> set (pendingFunctors w)" "conn_of t = Some n" for t n
  proof -
    have "n \<in># owners task_owner (pendingFunctors w)" using D(4) that by (simp add: queue_ok_def)
    then show ?thesis by (intro safe_alive[OF safe]) (simp add: held_def)
  qed
  moreover have "queueable t" if "t \<in> set (pendingFunctors w)" for t using D(4) that by (simp add: queue_ok_def)
  moreover have "conn_slots (conn_heap w n)" "callbacks (conn_channel n w) = own_callbacks n" if "n < next_conn w" for n
    using D(7)[of n] boundD(1)[OF b that] that by (simp_all add: calls_back_def)
  ultimately show ?thesis unfolding well_typed_def using D(9) slot by blast
qed

text \<open>C8: Type safety of the function objects: in every reachable state each slot holds a function
  object of its signature and each channel of a connection its own four handlers; every
  queued functor is bound to a living connection, and every channel callback to a living one
  or to a disconnected one that the channel's tie guards; and no iteration calls an empty
  function object.\<close>
theorem function_objects_typed:
  assumes "documented_calls S" and "reachable S k w"
  shows "well_typed w \<and> server_iteration S w \<noteq> Inl Bad_function_call"
  using reachable_well_typed[OF assms] iteration_faults[OF assms] by (auto simp: server_fault_def)

lemma function_objects_typed_witness:
  "\<exists>w. reachable demo_kernel 0 w \<and> pendingFunctors w = [ConnConnectDestroyed 0] \<and> 0 < refs w 0 \<and>
     readCallback (conn_channel 0 w) = Some (ConnHandleRead 0)"
proof -
  obtain w where w: "demo_run 2 = Inr w" "next_conn w = 1" "pendingFunctors w = [ConnConnectDestroyed 0]"
    using demo_state2 by blast
  from function_objects_typed[OF demo_documented demo_reachable[OF w(1)]] w demo_reachable[OF w(1)]
  show ?thesis by (auto simp: well_typed_def callbacks_def own_callbacks_def)
qed

end
