(* ===== verification/HostCalls.thy ===== *)
theory HostCalls
  imports Channel
begin

text \<open>
  The boundary of the older socket layer (TcpServerSocket, TcpClientSocket, UdpSocket, Ipc):
  the calls it makes beyond those of the reactor, as further fields of the kernel's record,
  and the three functions of socket.cpp that change an epoll set.
\<close>

record 'o host_calls = "'o os_calls" +
  os_send :: "int \<Rightarrow> byte list \<Rightarrow> 'o \<Rightarrow> int \<times> 'o"
  os_connect :: "int \<Rightarrow> sockaddr_in \<Rightarrow> 'o \<Rightarrow> int \<times> 'o"
  os_recvfrom :: "int \<Rightarrow> nat \<Rightarrow> 'o \<Rightarrow> (int \<times> byte list \<times> sockaddr_in) \<times> 'o"
  os_sendto :: "int \<Rightarrow> byte list \<Rightarrow> sockaddr_in \<Rightarrow> 'o \<Rightarrow> int \<times> 'o"
  os_select :: "int \<Rightarrow> 'o \<Rightarrow> (int \<times> bool) \<times> 'o"
  os_bind_un :: "int \<Rightarrow> string \<Rightarrow> 'o \<Rightarrow> int \<times> 'o"
  os_connect_un :: "int \<Rightarrow> string \<Rightarrow> 'o \<Rightarrow> int \<times> 'o"
  os_access :: "string \<Rightarrow> 'o \<Rightarrow> int \<times> 'o"
  os_unlink :: "string \<Rightarrow> 'o \<Rightarrow> int \<times> 'o"

definition sys_send :: "'o host_calls \<Rightarrow> int \<Rightarrow> byte list \<Rightarrow> ('o, 'z) process_scheme \<Rightarrow> int \<times> ('o, 'z) process_scheme" where
  "sys_send S f bs w = (case os_send S f bs (os w) of (r, k) \<Rightarrow> (r, log_call (Sys_send f bs r) k w))"

definition sys_connect :: "'o host_calls \<Rightarrow> int \<Rightarrow> sockaddr_in \<Rightarrow> ('o, 'z) process_scheme \<Rightarrow> int \<times> ('o, 'z) process_scheme" where
  "sys_connect S f addr w = (case os_connect S f addr (os w) of (r, k) \<Rightarrow> (r, log_call (Sys_connect f addr r) k w))"

definition sys_recvfrom :: "'o host_calls \<Rightarrow> int \<Rightarrow> nat \<Rightarrow>
    ('o, 'z) process_scheme \<Rightarrow> (int \<times> byte list \<times> sockaddr_in) \<times> ('o, 'z) process_scheme" where
  "sys_recvfrom S f n w =
     (case os_recvfrom S f n (os w) of ((r, bs, a), k) \<Rightarrow> ((r, bs, a), log_call (Sys_recvfrom f n r bs) k w))"

definition sys_sendto :: "'o host_calls \<Rightarrow> int \<Rightarrow> byte list \<Rightarrow> sockaddr_in \<Rightarrow>
    ('o, 'z) process_scheme \<Rightarrow> int \<times> ('o, 'z) process_scheme" where
  "sys_sendto S f bs a w = (case os_sendto S f bs a (os w) of (r, k) \<Rightarrow> (r, log_call (Sys_sendto f bs a r) k w))"

text \<open>\<open>select\<close> on one descriptor; the flag is \<open>FD_ISSET\<close> afterwards.\<close>

definition sys_select :: "'o host_calls \<Rightarrow> int \<Rightarrow> ('o, 'z) process_scheme \<Rightarrow> (int \<times> bool) \<times> ('o, 'z) process_scheme" where
  "sys_select S f w = (case os_select S f (os w) of ((r, b), k) \<Rightarrow> ((r, b), log_call (Sys_select f r) k w))"

definition sys_bind_un :: "'o host_calls \<Rightarrow> int \<Rightarrow> string \<Rightarrow> ('o, 'z) process_scheme \<Rightarrow> int \<times> ('o, 'z) process_scheme" where
  "sys_bind_un S f path w = (case os_bind_un S f path (os w) of (r, k) \<Rightarrow> (r, log_call (Sys_bind_un f path r) k w))"

definition sys_connect_un :: "'o host_calls \<Rightarrow> int \<Rightarrow> string \<Rightarrow> ('o, 'z) process_scheme \<Rightarrow> int \<times> ('o, 'z) process_scheme" where
  "sys_connect_un S f path w = (case os_connect_un S f path (os w) of (r, k) \<Rightarrow> (r, log_call (Sys_connect_un f path r) k w))"

definition sys_access :: "'o host_calls \<Rightarrow> string \<Rightarrow> ('o, 'z) process_scheme \<Rightarrow> int \<times> ('o, 'z) process_scheme" where
  "sys_access S path w = (case os_access S path (os w) of (r, k) \<Rightarrow> (r, log_call (Sys_access path r) k w))"

definition sys_unlink :: "'o host_calls \<Rightarrow> string \<Rightarrow> ('o, 'z) process_scheme \<Rightarrow> int \<times> ('o, 'z) process_scheme" where
  "sys_unlink S path w = (case os_unlink S path (os w) of (r, k) \<Rightarrow> (r, log_call (Sys_unlink path r) k w))"

lemmas host_defs = sys_send_def sys_connect_def sys_recvfrom_def sys_sendto_def sys_select_def
  sys_bind_un_def sys_connect_un_def sys_access_def sys_unlink_def

section \<open>Epoll sets by descriptor\<close>

text \<open>
  The user data of an event is a union of 64 bits whose member \<open>fd\<close> is its low half;
  \<open>data_fd\<close> reads that half as an \<open>int\<close>.
\<close>

definition EPOLLET :: "32 word" where "EPOLLET = 0x80000000"

definition fd_data :: "int \<Rightarrow> nat" where
  "fd_data f = nat (f mod 2 ^ 32)"

definition data_fd :: "nat \<Rightarrow> int" where
  "data_fd d = size_to_int d"

lemma data_fd_fd_data: "- (2 ^ 31) \<le> f \<Longrightarrow> f < 2 ^ 31 \<Longrightarrow> data_fd (fd_data f) = f"
  by (simp add: data_fd_def fd_data_def size_to_int_def mod_add_left_eq)

definition modify_event :: "('o, 'y) os_calls_scheme \<Rightarrow> int \<Rightarrow> int \<Rightarrow> 32 word \<Rightarrow> ('o, 'z) process_scheme \<Rightarrow> ('o, 'z) process_scheme" where
  "modify_event S ep f ev w = snd (sys_epoll_ctl S ep EPOLL_CTL_MOD f ev (fd_data f) w)"

definition add_event :: "('o, 'y) os_calls_scheme \<Rightarrow> int \<Rightarrow> int \<Rightarrow> 32 word \<Rightarrow> ('o, 'z) process_scheme \<Rightarrow> ('o, 'z) process_scheme" where
  "add_event S ep f ev w = snd (sys_epoll_ctl S ep EPOLL_CTL_ADD f ev (fd_data f) w)"

definition delete_event :: "('o, 'y) os_calls_scheme \<Rightarrow> int \<Rightarrow> int \<Rightarrow> 32 word \<Rightarrow> ('o, 'z) process_scheme \<Rightarrow> ('o, 'z) process_scheme" where
  "delete_event S ep f ev w = snd (sys_epoll_ctl S ep EPOLL_CTL_DEL f ev (fd_data f) w)"

lemmas event_ctl_defs = modify_event_def add_event_def delete_event_def

section \<open>Open descriptors\<close>

text \<open>
  The connections a process holds according to its trace: a positive descriptor returned by
  \<open>accept\<close> is open until it is closed.
\<close>

definition opened :: "sysev \<Rightarrow> int set \<Rightarrow> int set" where
  "opened e fs =
     (case e of Sys_accept l r \<Rightarrow> if 0 < r then insert r fs else fs | Sys_close f r \<Rightarrow> fs - {f} | _ \<Rightarrow> fs)"

definition open_fds :: "sysev list \<Rightarrow> int set" where
  "open_fds es = fold opened es {}"

lemma open_fds_Nil [simp]: "open_fds [] = {}"
  by (simp add: open_fds_def)

lemma open_fds_snoc [simp]: "open_fds (es @ [e]) = opened e (open_fds es)"
  by (simp add: open_fds_def)

lemma opened_simps [simp]:
  "opened (Sys_accept l r) fs = (if 0 < r then insert r fs else fs)"
  "opened (Sys_close f r) fs = fs - {f}"
  "opened (Sys_socket r) fs = fs" "opened (Sys_epoll_create r) fs = fs"
  "opened (Sys_setsockopt f opt b r) fs = fs" "opened (Sys_bind f a r) fs = fs" "opened (Sys_listen f r) fs = fs"
  "opened (Sys_read f n r bs) fs = fs" "opened (Sys_shutdown f h r) fs = fs"
  "opened (Sys_epoll_ctl ep q f ev d r) fs = fs" "opened (Sys_epoll_wait ep n r) fs = fs"
  "opened (Sys_send f bs r) fs = fs" "opened (Sys_write f bs r) fs = fs"
  "opened (Sys_bind_un f p r) fs = fs" "opened (Sys_connect_un f p r) fs = fs"
  "opened (Sys_access p r) fs = fs" "opened (Sys_unlink p r) fs = fs"
  "opened (Sys_open p r) fs = fs" "opened (Sys_ioctl f p r) fs = fs"
  "opened (Sys_mkfifo p r) fs = fs" "opened (Sys_poll f r) fs = fs" "opened (Sys_system p r) fs = fs"
  by (simp_all add: opened_def)

end
