(* ===== verification/FdManager.thy ===== *)
theory FdManager
  imports Prelude "HOL-Library.AList"
begin

text \<open>
  The registries of open descriptors (FdManager.h, FdManager.cpp): \<open>FdManager\<close>, a vector of
  descriptors with a capacity, and \<open>FdManagerSet\<close>, a map from names to such registries.
  The locale \<open>fd_registry\<close> states what a server relies on when it admits and drops
  connections by a registry; it is interpreted on \<open>FdManager\<close>.

  \<open>ClearAll\<close> and \<open>DumpAll\<close> are declared to return \<open>int\<close> and have no return statement; no
  caller uses a value of theirs and they are modelled by their effect.  The vectors stay far
  below \<open>max_size()\<close>, so that \<open>push_back\<close> does not throw.
\<close>

section \<open>FdManager\<close>

record fd_manager =
  maxSize :: int
  fdVec :: "int list"

definition FdManager_new :: "int \<Rightarrow> fd_manager" where
  "FdManager_new num = \<lparr>maxSize = num, fdVec = []\<rparr>"

definition FdManager_Insert :: "int \<Rightarrow> fd_manager \<Rightarrow> int \<times> fd_manager" where
  "FdManager_Insert f m =
     (if length (fdVec m) \<le> int_to_size (maxSize m)
      then (0, m\<lparr>fdVec := fdVec m @ [f]\<rparr>)
      else (-1, m))"

definition FdManager_Delete :: "int \<Rightarrow> fd_manager \<Rightarrow> int \<times> fd_manager" where
  "FdManager_Delete f m =
     (if f \<notin> set (fdVec m) then (-1, m) else (0, m\<lparr>fdVec := remove1 f (fdVec m)\<rparr>))"

definition FdManager_Find :: "int \<Rightarrow> fd_manager \<Rightarrow> int" where
  "FdManager_Find f m = (if f \<notin> set (fdVec m) then -1 else f)"

definition FdManager_ClearAll :: "fd_manager \<Rightarrow> fd_manager" where
  "FdManager_ClearAll m = m\<lparr>fdVec := []\<rparr>"

definition FdManager_GetVal :: "int \<Rightarrow> fd_manager \<Rightarrow> int res" where
  "FdManager_GetVal num m =
     (if int_to_size num < length (fdVec m) then Inr (fdVec m ! int_to_size num) else Inl Out_of_bounds)"

definition FdManager_GetTotalCount :: "fd_manager \<Rightarrow> int" where
  "FdManager_GetTotalCount m = size_to_int (length (fdVec m))"

text \<open>The lines \<open>DumpAllData\<close> prints, without their ends.\<close>

definition DumpAllData :: "fd_manager \<Rightarrow> string list" where
  "DumpAllData m =
     [''**********DumpAllData*********''] @ map (\<lambda>f. ''[fd]:'' @ dec_int f) (fdVec m) @ [''******End of DumpAllData******'']"

lemmas fd_manager_defs = FdManager_Insert_def FdManager_Delete_def FdManager_Find_def FdManager_ClearAll_def

text \<open>What a sequence of operations can do to a registry.\<close>

datatype fd_op = Op_insert int | Op_delete int | Op_clear

fun fd_apply :: "fd_op \<Rightarrow> fd_manager \<Rightarrow> fd_manager" where
  "fd_apply (Op_insert f) m = snd (FdManager_Insert f m)"
| "fd_apply (Op_delete f) m = snd (FdManager_Delete f m)"
| "fd_apply Op_clear m = FdManager_ClearAll m"

lemma fd_apply_maxSize [simp]: "maxSize (fd_apply q m) = maxSize m"
  by (cases q) (simp_all add: fd_manager_defs)

lemma fd_apply_bound:
  assumes "0 \<le> maxSize m" "maxSize m < 2 ^ 63" and "int (length (fdVec m)) \<le> maxSize m + 1"
  shows "int (length (fdVec (fd_apply q m))) \<le> maxSize m + 1"
  using assms by (cases q) (auto simp: fd_manager_defs size_simps length_remove1)

lemma fd_fold_bound:
  assumes "0 \<le> maxSize m" "maxSize m < 2 ^ 63" and "int (length (fdVec m)) \<le> maxSize m + 1"
  shows "maxSize (fold fd_apply qs m) = maxSize m \<and> int (length (fdVec (fold fd_apply qs m))) \<le> maxSize m + 1"
  using assms
proof (induction qs arbitrary: m)
  case (Cons q qs)
  from Cons.IH[of "fd_apply q m"] Cons.prems fd_apply_bound[OF Cons.prems] show ?case by simp
qed simp

lemma fold_insert_fresh:
  assumes "0 \<le> maxSize m" "maxSize m < 2 ^ 63" and "int (length (fdVec m) + length fs) \<le> maxSize m + 1"
  shows "fold fd_apply (map Op_insert fs) m = m\<lparr>fdVec := fdVec m @ fs\<rparr>"
  using assms
proof (induction fs arbitrary: m)
  case (Cons f fs)
  then show ?case by (simp add: FdManager_Insert_def size_simps)
qed simp

section \<open>Admission by a registry\<close>

text \<open>
  A registry as its clients see it: the descriptors it holds, in order, how to add one, drop
  one and count them.  \<open>ok\<close> is the condition under which the laws hold.  A client admits a
  descriptor only while the count is below its limit.
\<close>

locale fd_registry =
  fixes members :: "'r \<Rightarrow> int list"
    and room :: "'r \<Rightarrow> int"
    and add :: "int \<Rightarrow> 'r \<Rightarrow> 'r"
    and drop :: "int \<Rightarrow> 'r \<Rightarrow> 'r"
    and total :: "'r \<Rightarrow> int"
    and ok :: "'r \<Rightarrow> bool"
  assumes total: "ok r \<Longrightarrow> total r = int (length (members r))"
    and add: "ok r \<Longrightarrow> int (length (members r)) < room r \<Longrightarrow> members (add f r) = members r @ [f]"
    and add_ok: "ok r \<Longrightarrow> ok (add f r)"
    and add_room: "room (add f r) = room r"
    and drop: "ok r \<Longrightarrow> members (drop f r) = remove1 f (members r)"
    and drop_ok: "ok r \<Longrightarrow> ok (drop f r)"
    and drop_room: "room (drop f r) = room r"
begin

definition admit :: "int \<Rightarrow> 'r \<Rightarrow> 'r \<times> bool" where
  "admit f r = (if total r < room r then (add f r, True) else (r, False))"

lemma admit_bound:
  assumes "ok r" "int (length (members r)) \<le> room r"
  shows "ok (fst (admit f r)) \<and> room (fst (admit f r)) = room r
    \<and> int (length (members (fst (admit f r)))) \<le> room r"
  using assms by (auto simp: admit_def total add add_ok add_room)

lemma drop_bound:
  assumes "ok r" "int (length (members r)) \<le> room r"
  shows "int (length (members (drop f r))) \<le> room r"
  using assms drop[of r f] by (auto simp: length_remove1)

lemma admit_fold_bound:
  assumes "ok r" "int (length (members r)) \<le> room r"
  shows "int (length (members (fold (\<lambda>f m. fst (admit f m)) fs r))) \<le> room r"
  using assms
proof (induction fs arbitrary: r)
  case (Cons f fs)
  show ?case using Cons.IH[of "fst (admit f r)"] admit_bound[OF Cons.prems, of f] by simp
qed simp

lemma admit_full:
  assumes "ok r" "int (length (members r)) = room r" shows "admit f r = (r, False)"
  using assms by (simp add: admit_def total)

lemma drop_makes_room:
  assumes "ok r" "int (length (members r)) \<le> room r" "g \<in> set (members r)"
  shows "snd (admit f (drop g r))"
proof -
  have "length (members (drop g r)) < length (members r)"
    using assms drop[of r g] length_pos_if_in_set[of g "members r"] by (simp add: length_remove1)
  then show ?thesis using assms by (simp add: admit_def total drop_ok drop_room)
qed

end

definition registry_ok :: "fd_manager \<Rightarrow> bool" where
  "registry_ok m \<longleftrightarrow> 0 \<le> maxSize m \<and> maxSize m < 2 ^ 30 \<and> int (length (fdVec m)) \<le> maxSize m + 1"

interpretation fdm: fd_registry fdVec maxSize "\<lambda>f m. snd (FdManager_Insert f m)"
  "\<lambda>f m. snd (FdManager_Delete f m)" FdManager_GetTotalCount registry_ok
proof unfold_locales
  fix m :: fd_manager and f :: int
  assume m: "registry_ok m"
  show "FdManager_GetTotalCount m = int (length (fdVec m))"
    using m by (simp add: registry_ok_def FdManager_GetTotalCount_def size_simps)
  show "registry_ok (snd (FdManager_Insert f m))"
    using m fd_apply_bound[of m "Op_insert f"] fd_apply_maxSize[of "Op_insert f" m]
    by (simp add: registry_ok_def)
  show "registry_ok (snd (FdManager_Delete f m))"
    using m fd_apply_bound[of m "Op_delete f"] fd_apply_maxSize[of "Op_delete f" m]
    by (simp add: registry_ok_def)
  show "fdVec (snd (FdManager_Delete f m)) = remove1 f (fdVec m)"
    by (auto simp: FdManager_Delete_def remove1_idem)
  assume "int (length (fdVec m)) < maxSize m"
  then show "fdVec (snd (FdManager_Insert f m)) = fdVec m @ [f]"
    using m by (simp add: registry_ok_def FdManager_Insert_def size_simps)
qed (simp_all add: fd_manager_defs)

section \<open>FdManagerSet\<close>

text \<open>
  An \<open>unordered_map\<close> from names to owned registries; the order of the list stands for the
  iteration order.  A \<open>const char*\<close> argument is an optional string.
\<close>

record fd_manager_set =
  set_maxSize :: int
  FdMap :: "(string \<times> fd_manager) list"

definition FdManagerSet_new :: "int \<Rightarrow> fd_manager_set" where
  "FdManagerSet_new num = \<lparr>set_maxSize = num, FdMap = []\<rparr>"

definition findPair :: "('k \<times> 'v) list \<Rightarrow> 'k \<times> 'v \<Rightarrow> ('k \<times> 'v) option" where
  "findPair kvs p = find (\<lambda>q. fst q = fst p) kvs"

text \<open>A registry that is not inserted is leaked.\<close>

definition CreatManagerSet :: "string \<Rightarrow> int \<Rightarrow> fd_manager_set \<Rightarrow> int \<times> fd_manager_set" where
  "CreatManagerSet str num s =
     (let newPair = (str, FdManager_new num)
      in if findPair (FdMap s) newPair = None
         then (0, s\<lparr>FdMap := FdMap s @ [newPair]\<rparr>)
         else (0, s))"

fun delete_loop :: "string \<Rightarrow> (string \<times> 'v) list \<Rightarrow> (string \<times> 'v) list" where
  "delete_loop str [] = []"
| "delete_loop str (kv # kvs) = (if fst kv = str then delete_loop str kvs else kv # delete_loop str kvs)"

definition DeleteManagerSet :: "string \<Rightarrow> fd_manager_set \<Rightarrow> int \<times> fd_manager_set" where
  "DeleteManagerSet str s = (0, s\<lparr>FdMap := delete_loop str (FdMap s)\<rparr>)"

text \<open>The result of \<open>FdManager::Insert\<close> is dropped.\<close>

fun insert_loop :: "string \<Rightarrow> int \<Rightarrow> (string \<times> fd_manager) list \<Rightarrow> int \<times> (string \<times> fd_manager) list" where
  "insert_loop str f [] = (-1, [])"
| "insert_loop str f (kv # kvs) =
     (if fst kv = str then (0, (fst kv, snd (FdManager_Insert f (snd kv))) # kvs)
      else (case insert_loop str f kvs of (r, kvs') \<Rightarrow> (r, kv # kvs')))"

definition set_insert :: "string \<Rightarrow> int \<Rightarrow> fd_manager_set \<Rightarrow> int \<times> fd_manager_set" where
  "set_insert str f s = (case insert_loop str f (FdMap s) of (r, kvs) \<Rightarrow> (r, s\<lparr>FdMap := kvs\<rparr>))"

definition CreatManagerSet_cstr :: "string option \<Rightarrow> int \<Rightarrow> fd_manager_set \<Rightarrow> int \<times> fd_manager_set" where
  "CreatManagerSet_cstr pName num s =
     (case pName of None \<Rightarrow> (-1, s) | Some str \<Rightarrow> (0, snd (CreatManagerSet str num s)))"

definition DeleteManagerSet_cstr :: "string option \<Rightarrow> fd_manager_set \<Rightarrow> int \<times> fd_manager_set" where
  "DeleteManagerSet_cstr pName s =
     (case pName of None \<Rightarrow> (-1, s) | Some str \<Rightarrow> (0, snd (DeleteManagerSet str s)))"

definition set_insert_cstr :: "string option \<Rightarrow> int \<Rightarrow> fd_manager_set \<Rightarrow> int \<times> fd_manager_set" where
  "set_insert_cstr pName f s = (case pName of None \<Rightarrow> (-1, s) | Some str \<Rightarrow> set_insert str f s)"

text \<open>The lines \<open>DumpAll\<close> prints between its two log messages.\<close>

definition DumpAll :: "fd_manager_set \<Rightarrow> string list" where
  "DumpAll s = concat (map (\<lambda>(str, m). (''['' @ str @ '']:'') # DumpAllData m) (FdMap s))"

datatype set_op = Set_create "string option" int | Set_delete "string option" | Set_insert "string option" int

fun set_apply :: "set_op \<Rightarrow> fd_manager_set \<Rightarrow> int \<times> fd_manager_set" where
  "set_apply (Set_create pName num) s = CreatManagerSet_cstr pName num s"
| "set_apply (Set_delete pName) s = DeleteManagerSet_cstr pName s"
| "set_apply (Set_insert pName f) s = set_insert_cstr pName f s"

lemmas manager_set_defs = CreatManagerSet_cstr_def DeleteManagerSet_cstr_def set_insert_cstr_def
  CreatManagerSet_def DeleteManagerSet_def set_insert_def findPair_def

text \<open>The results of a sequence of operations, and the state they leave.\<close>

fun run_results :: "('q \<Rightarrow> 's \<Rightarrow> 'r \<times> 's) \<Rightarrow> 'q list \<Rightarrow> 's \<Rightarrow> 'r list \<times> 's" where
  "run_results step [] s = ([], s)"
| "run_results step (q # qs) s =
     (case step q s of (r, t) \<Rightarrow> case run_results step qs t of (rs, u) \<Rightarrow> (r # rs, u))"

text \<open>The specification: a partial function from names to registries.\<close>

type_synonym name_map = "string \<Rightarrow> fd_manager option"

fun spec_apply :: "set_op \<Rightarrow> name_map \<Rightarrow> int \<times> name_map" where
  "spec_apply (Set_create None num) M = (-1, M)"
| "spec_apply (Set_create (Some str) num) M =
     (0, if str \<in> dom M then M else M(str \<mapsto> FdManager_new num))"
| "spec_apply (Set_delete None) M = (-1, M)"
| "spec_apply (Set_delete (Some str)) M = (0, M(str := None))"
| "spec_apply (Set_insert None f) M = (-1, M)"
| "spec_apply (Set_insert (Some str) f) M =
     (case M str of None \<Rightarrow> (-1, M) | Some m \<Rightarrow> (0, M(str \<mapsto> snd (FdManager_Insert f m))))"

definition set_map :: "fd_manager_set \<Rightarrow> name_map" where
  "set_map s = map_of (FdMap s)"

lemma delete_loop_filter: "delete_loop str kvs = AList.delete str kvs"
  by (induction kvs) (auto simp: AList.delete_eq)

lemma find_key_None: "find (\<lambda>q. fst q = k) kvs = None \<longleftrightarrow> map_of kvs k = None"
  by (induction kvs) auto

lemma insert_loop_fst: "fst (insert_loop str f kvs) = (if map_of kvs str = None then -1 else 0)"
  by (induction kvs) (auto split: prod.splits)

lemma insert_loop_map:
  "map_of (snd (insert_loop str f kvs)) =
     (case map_of kvs str of None \<Rightarrow> map_of kvs | Some m \<Rightarrow> (map_of kvs)(str \<mapsto> snd (FdManager_Insert f m)))"
  by (induction kvs) (auto split: prod.splits option.splits)

lemma insert_loop_keys: "map fst (snd (insert_loop str f kvs)) = map fst kvs"
  by (induction kvs) (auto split: prod.splits)

lemma map_add_fresh: "M k = None \<Longrightarrow> [k \<mapsto> v] ++ M = M(k \<mapsto> v)"
  by (auto simp: fun_eq_iff map_add_def split: option.splits)

lemma set_apply_refines:
  assumes "distinct (map fst (FdMap s))"
  shows "fst (set_apply q s) = fst (spec_apply q (set_map s))"
    and "set_map (snd (set_apply q s)) = snd (spec_apply q (set_map s))"
    and "distinct (map fst (FdMap (snd (set_apply q s))))"
proof -
  have "fst (set_apply q s) = fst (spec_apply q (set_map s)) \<and>
    set_map (snd (set_apply q s)) = snd (spec_apply q (set_map s)) \<and>
    distinct (map fst (FdMap (snd (set_apply q s))))"
  proof (cases q)
    case (Set_create pName num)
    then show ?thesis using assms
      by (cases pName)
        (auto simp: manager_set_defs set_map_def find_key_None dom_def map_add_fresh map_of_eq_None_iff[symmetric] simp del: map_of_eq_None_iff)
  next
    case (Set_delete pName)
    then show ?thesis using assms
      by (cases pName) (auto simp: manager_set_defs set_map_def delete_loop_filter delete_conv' distinct_delete)
  next
    case (Set_insert pName f)
    then show ?thesis using assms
      by (cases pName)
        (auto simp: manager_set_defs set_map_def insert_loop_fst insert_loop_map insert_loop_keys case_prod_beta
          split: option.splits)
  qed
  then show "fst (set_apply q s) = fst (spec_apply q (set_map s))"
    "set_map (snd (set_apply q s)) = snd (spec_apply q (set_map s))"
    "distinct (map fst (FdMap (snd (set_apply q s))))" by auto
qed

section \<open>Properties\<close>

text \<open>C30: Used alone, a registry of capacity \<open>n\<close> never holds more than \<open>n + 1\<close> descriptors, whatever
  sequence of operations is run on it, and \<open>n + 1\<close> are really accepted (\<open>Insert\<close> compares
  with \<open><=\<close>); guarded by a test of the count, as the servers use it, it never exceeds \<open>n\<close>.\<close>
theorem fd_manager_capacity:
  assumes "0 \<le> n" "n < 2 ^ 30" and "length fs = nat n + 1"
  shows "int (length (fdVec (fold fd_apply qs (FdManager_new n)))) \<le> n + 1 \<and>
         fdVec (fold fd_apply (map Op_insert fs) (FdManager_new n)) = fs \<and>
         int (length (fdVec (fold (\<lambda>f m. fst (fdm.admit f m)) gs (FdManager_new n)))) \<le> n"
proof -
  have new: "maxSize (FdManager_new n) = n" "fdVec (FdManager_new n) = []" "registry_ok (FdManager_new n)"
    using assms by (simp_all add: FdManager_new_def registry_ok_def)
  have "int (length (fdVec (fold fd_apply qs (FdManager_new n)))) \<le> n + 1"
    using fd_fold_bound[of "FdManager_new n" qs] new assms by simp
  moreover have "fdVec (fold fd_apply (map Op_insert fs) (FdManager_new n)) = fs"
    using fold_insert_fresh[of "FdManager_new n" fs] new assms by (simp add: FdManager_new_def)
  moreover have "int (length (fdVec (fold (\<lambda>f m. fst (fdm.admit f m)) gs (FdManager_new n)))) \<le> n"
    using fdm.admit_fold_bound[of "FdManager_new n" gs] new assms by simp
  ultimately show ?thesis by blast
qed

lemma fd_manager_capacity_witness:
  "fdVec (fold fd_apply (map Op_insert [5, 6, 7, 8, 9]) (FdManager_new 4)) = [5, 6, 7, 8, 9]"
  using fd_manager_capacity[of 4 "[5, 6, 7, 8, 9]"] by simp

text \<open>C31: \<open>FdManagerSet\<close> implements a finite map from names to registries: results and contents
  of any sequence of creations, deletions and insertions are those of the map, names stay
  unique, and in particular a null name changes nothing and is reported by \<open>-1\<close>.\<close>
theorem manager_set_refines_map:
  "run_results spec_apply qs Map.empty =
     (fst (run_results set_apply qs (FdManagerSet_new n)), set_map (snd (run_results set_apply qs (FdManagerSet_new n)))) \<and>
   distinct (map fst (FdMap (snd (run_results set_apply qs (FdManagerSet_new n)))))"
proof -
  have "run_results spec_apply qs (set_map s) =
      (fst (run_results set_apply qs s), set_map (snd (run_results set_apply qs s))) \<and>
      distinct (map fst (FdMap (snd (run_results set_apply qs s))))"
    if "distinct (map fst (FdMap s))" for s
    using that
  proof (induction qs arbitrary: s)
    case (Cons q qs)
    obtain r t where t: "set_apply q s = (r, t)" by force
    have "spec_apply q (set_map s) = (r, set_map t)" "distinct (map fst (FdMap t))"
      using set_apply_refines[OF Cons.prems, of q] t by (simp_all add: prod_eq_iff)
    with t Cons.IH[of t] show ?case by (simp add: case_prod_beta)
  qed simp
  from this[of "FdManagerSet_new n"] show ?thesis by (simp add: set_map_def FdManagerSet_new_def)
qed

end
