(* ===== verification/TcpServerSocket.thy ===== *)
theory TcpServerSocket
  imports HostCalls FdManager
begin

text \<open>
  The older server of the repository (TcpServerSocket.h, TcpServerSocket.cpp): the class
  \<open>TcpInterfaceSocket\<close>, the class \<open>TcpServerSocket\<close> and its two server threads.  Both admit
  connections by an \<open>FdManager\<close> and serve them from one epoll set.

  The object whose member function runs is the component \<open>srv\<close> of the state, so that several
  objects can share one process; \<open>last_num\<close> is the local variable \<open>num\<close> of the thread that runs.  A function that is declared to return \<open>int\<close> and has no
  return statement is modelled by its effect; no caller uses its value.  \<open>printf\<close> and
  \<open>LOGGING\<close> are not modelled, and neither are the peer addresses, which are only printed,
  and \<open>hostFd\<close>, which is never used.

  The flag \<open>isThreadRunning\<close> is cleared by another thread.  A server thread is therefore a
  function of the number of rounds it makes before it sees the flag cleared, and the
  properties hold for every such number.
\<close>

section \<open>State\<close>

datatype TcpServerType = TCP_SERVER_TYPE_CONCURRENT | TCP_SERVER_TYPE_NONE_CONCURRENT

record ifc_socket =
  if_socketFd :: int
  if_socketAddr :: sockaddr_in
  if_connFd :: int
  if_maxConnections :: int
  if_tcpPort :: int
  pIfcFdVec :: fd_manager

record tcp_socket =
  ts_socketFd :: int
  ts_socketAddr :: sockaddr_in
  ts_connFd :: int
  serverType :: TcpServerType
  ts_tcpPort :: int
  isThreadRunning :: bool
  maxConnections :: int
  pDevFdVec :: "fd_manager option"
  pInterfaceSocket :: "ifc_socket option"
  pScanDriver :: "nat option"
  pEventManager :: "nat option"
  pReaderConfig :: "nat option"

record 'o tcp_world = "'o process" +
  srv :: tcp_socket
  numOfConcurrentServer :: int
  live_configs :: "nat set"
  last_num :: int

definition upd_srv :: "(tcp_socket \<Rightarrow> tcp_socket) \<Rightarrow> ('o, 'z) tcp_world_scheme \<Rightarrow> ('o, 'z) tcp_world_scheme" where
  "upd_srv f w = w\<lparr>srv := f (srv w)\<rparr>"

definition MAX_DEV_CONNECTIONS :: int where "MAX_DEV_CONNECTIONS = 4"
definition MAX_IFC_CONNECTIONS :: int where "MAX_IFC_CONNECTIONS = 2"
definition MAX_EVENTS :: nat where "MAX_EVENTS = 100"

text \<open>The address both \<open>Open\<close> functions fill in (\<open>INADDR_ANY\<close> is 0), on a little-endian host.\<close>

definition any_addr :: "int \<Rightarrow> sockaddr_in" where
  "any_addr port = zero_addr\<lparr>sin_family := AF_INET, sin_port := hostToNetwork16 False (word_of_int port),
     s_addr := hostToNetwork32 False INADDR_ANY\<rparr>"

definition shut_mode :: "int \<Rightarrow> shut_how" where
  "shut_mode mode = (if mode = 0 then SHUT_RD else if mode = 1 then SHUT_WR else SHUT_RDWR)"

section \<open>TcpInterfaceSocket\<close>

definition new_ifc :: "int \<Rightarrow> int \<Rightarrow> ifc_socket" where
  "new_ifc maxConn port =
     \<lparr>if_socketFd = -1, if_socketAddr = zero_addr, if_connFd = -1, if_maxConnections = maxConn,
      if_tcpPort = port, pIfcFdVec = FdManager_new maxConn\<rparr>"

definition ifc_Open :: "'o host_calls \<Rightarrow> ifc_socket \<Rightarrow> ('o, 'z) process_scheme \<Rightarrow> ifc_socket \<times> ('o, 'z) process_scheme" where
  "ifc_Open S i w =
     (if if_socketFd i < 0 then
        (case sys_socket S w of (r, w1) \<Rightarrow>
           if r = -1 then (i\<lparr>if_socketFd := r\<rparr>, w1)
           else (i\<lparr>if_socketFd := r, if_socketAddr := any_addr (if_tcpPort i)\<rparr>, w1))
      else (i, w))"

text \<open>A failing \<open>bind\<close> or \<open>listen\<close> ends the process (\<open>exit(-1)\<close>).\<close>

definition SetUpTcpInterfaceSocket :: "'o host_calls \<Rightarrow> ifc_socket \<Rightarrow> ('o, 'z) process_scheme \<Rightarrow> ('o, 'z) process_scheme res" where
  "SetUpTcpInterfaceSocket S i w =
     (let w1 = snd (sys_setsockopt S (if_socketFd i) ''SO_REUSEADDR'' True w);
          w2 = snd (sys_setsockopt S (if_socketFd i) ''SO_REUSEPORT'' True w1)
      in case sys_bind S (if_socketFd i) (if_socketAddr i) w2 of (r, w3) \<Rightarrow>
         if r = -1 then Inl (Process_exit (-1))
         else (case sys_listen S (if_socketFd i) w3 of (r', w4) \<Rightarrow>
                 if r' = -1 then Inl (Process_exit (-1)) else Inr w4))"

definition ifc_CheckConnections :: "ifc_socket \<Rightarrow> int" where
  "ifc_CheckConnections i = (if FdManager_GetTotalCount (pIfcFdVec i) < if_maxConnections i then 1 else -1)"

definition ifc_Close :: "'o host_calls \<Rightarrow> ifc_socket \<Rightarrow> ('o, 'z) process_scheme \<Rightarrow> ifc_socket \<times> ('o, 'z) process_scheme" where
  "ifc_Close S i w =
     (if 0 < if_socketFd i then
        (i\<lparr>if_socketFd := -1\<rparr>, snd (sys_close S (if_socketFd i) (snd (sys_shutdown S (if_socketFd i) SHUT_RDWR w))))
      else (i, w))"

definition ifc_Close_fd :: "'o host_calls \<Rightarrow> int \<Rightarrow> ifc_socket \<Rightarrow> ('o, 'z) process_scheme \<Rightarrow> ifc_socket \<times> ('o, 'z) process_scheme" where
  "ifc_Close_fd S f i w =
     (if 0 < f then
        (i\<lparr>pIfcFdVec := snd (FdManager_Delete f (pIfcFdVec i))\<rparr>,
         snd (sys_close S f (snd (sys_shutdown S f SHUT_RDWR w))))
      else (i, w))"

definition ifc_Shutdown :: "'o host_calls \<Rightarrow> int \<Rightarrow> ifc_socket \<Rightarrow> ('o, 'z) process_scheme \<Rightarrow> ('o, 'z) process_scheme" where
  "ifc_Shutdown S mode i w = (if 0 < if_socketFd i then snd (sys_shutdown S (if_socketFd i) SHUT_RDWR w) else w)"

definition ifc_Accept :: "'o host_calls \<Rightarrow> ifc_socket \<Rightarrow> ('o, 'z) process_scheme \<Rightarrow> int \<times> ifc_socket \<times> ('o, 'z) process_scheme" where
  "ifc_Accept S i w =
     (case sys_accept S (if_socketFd i) w of ((r, peer), w1) \<Rightarrow>
        let i1 = i\<lparr>if_connFd := r\<rparr>
        in if r = -1 then (r, i1, w1)
           else if 0 < ifc_CheckConnections i1
           then (r, i1\<lparr>pIfcFdVec := snd (FdManager_Insert r (pIfcFdVec i1))\<rparr>, w1)
           else (case ifc_Close_fd S r i1 w1 of (i2, w2) \<Rightarrow> (-1, i2\<lparr>if_connFd := -1\<rparr>, w2)))"

definition ifc_GetFd :: "ifc_socket \<Rightarrow> int" where
  "ifc_GetFd i = if_socketFd i"

text \<open>The destructor closes nothing.  \<open>SocketRead\<close> and \<open>SocketWrite\<close> have no effect.\<close>

definition ifc_delete :: "ifc_socket \<Rightarrow> ('o, 'z) process_scheme \<Rightarrow> ('o, 'z) process_scheme" where
  "ifc_delete i w = w"

definition ifc_SocketWrite :: "byte list \<Rightarrow> ifc_socket \<Rightarrow> int \<times> ifc_socket" where
  "ifc_SocketWrite buff i = (0, i)"

definition ifc_CheckFd :: "int \<Rightarrow> ifc_socket \<Rightarrow> int \<times> ifc_socket" where
  "ifc_CheckFd f i =
     (if 0 < FdManager_Find f (pIfcFdVec i)
      then (1, i\<lparr>pIfcFdVec := snd (FdManager_Delete f (pIfcFdVec i))\<rparr>)
      else (-1, i))"

text \<open>
  The loop \<open>for(int i = 0; i < GetTotalCount(); i++)\<close> of both \<open>CloseAllConnections\<close>: it shuts
  down and closes the descriptor \<open>GetVal(i)\<close>.
\<close>

definition close_entry :: "'o host_calls \<Rightarrow> fd_manager \<Rightarrow> int \<Rightarrow> ('o, 'z) process_scheme \<Rightarrow> ('o, 'z) process_scheme res" where
  "close_entry S m i w =
     ebind (FdManager_GetVal i m) (\<lambda>f. Inr (snd (sys_close S f (snd (sys_shutdown S f SHUT_RDWR w)))))"

definition close_entries :: "'o host_calls \<Rightarrow> fd_manager \<Rightarrow> ('o, 'z) process_scheme \<Rightarrow> ('o, 'z) process_scheme res" where
  "close_entries S m w = foldE (close_entry S m) (map int [0..<nat (FdManager_GetTotalCount m)]) w"

definition ifc_CloseAllConnections :: "'o host_calls \<Rightarrow> ifc_socket \<Rightarrow>
    ('o, 'z) process_scheme \<Rightarrow> (ifc_socket \<times> ('o, 'z) process_scheme) res" where
  "ifc_CloseAllConnections S i w =
     ebind (close_entries S (pIfcFdVec i) w) (\<lambda>w1. Inr (i\<lparr>pIfcFdVec := FdManager_ClearAll (pIfcFdVec i)\<rparr>, w1))"

text \<open>\<open>SendDataAll\<close> stops at the first descriptor that fails.\<close>

fun send_entries :: "'o host_calls \<Rightarrow> byte list \<Rightarrow> fd_manager \<Rightarrow> int list \<Rightarrow>
    ('o, 'z) process_scheme \<Rightarrow> (int \<times> ('o, 'z) process_scheme) res" where
  "send_entries S buff m [] w = Inr (0, w)"
| "send_entries S buff m (i # is) w =
     ebind (FdManager_GetVal i m) (\<lambda>f.
       case sys_send S f buff w of (r, w1) \<Rightarrow> if r = -1 then Inr (-1, w1) else send_entries S buff m is w1)"

definition SendDataAll :: "'o host_calls \<Rightarrow> byte list \<Rightarrow> ifc_socket \<Rightarrow>
    ('o, 'z) process_scheme \<Rightarrow> (int \<times> ('o, 'z) process_scheme) res" where
  "SendDataAll S buff i w =
     send_entries S buff (pIfcFdVec i) (map int [0..<nat (FdManager_GetTotalCount (pIfcFdVec i))]) w"

section \<open>TcpServerSocket\<close>

definition blank_socket :: "int \<Rightarrow> TcpServerType \<Rightarrow> tcp_socket" where
  "blank_socket port type =
     \<lparr>ts_socketFd = -1, ts_socketAddr = zero_addr, ts_connFd = -1, serverType = type, ts_tcpPort = port,
      isThreadRunning = False, maxConnections = 0, pDevFdVec = None, pInterfaceSocket = None,
      pScanDriver = None, pEventManager = None, pReaderConfig = None\<rparr>"

text \<open>
  The constructor.  A further concurrent server is refused once two exist, and the object
  then keeps its null pointers.
\<close>

definition new_tcp_socket :: "int \<Rightarrow> TcpServerType \<Rightarrow> ('o, 'z) tcp_world_scheme \<Rightarrow> ('o, 'z) tcp_world_scheme" where
  "new_tcp_socket port type w =
     (let b = blank_socket port type in
      if 1 < numOfConcurrentServer w \<and> type = TCP_SERVER_TYPE_CONCURRENT then w\<lparr>srv := b\<rparr>
      else if type = TCP_SERVER_TYPE_CONCURRENT then
        w\<lparr>srv := b\<lparr>maxConnections := MAX_DEV_CONNECTIONS,
                    pInterfaceSocket := Some (new_ifc MAX_IFC_CONNECTIONS 55256),
                    pDevFdVec := Some (FdManager_new MAX_DEV_CONNECTIONS)\<rparr>,
          numOfConcurrentServer := numOfConcurrentServer w + 1\<rparr>
      else w\<lparr>srv := b\<lparr>maxConnections := 1, pDevFdVec := Some (FdManager_new 1)\<rparr>\<rparr>)"

definition ts_Open :: "'o host_calls \<Rightarrow> ('o, 'z) tcp_world_scheme \<Rightarrow> ('o, 'z) tcp_world_scheme" where
  "ts_Open S w =
     (if ts_socketFd (srv w) < 0 then
        (case sys_socket S w of (r, w1) \<Rightarrow>
           upd_srv (\<lambda>t. t\<lparr>ts_socketFd := r, ts_socketAddr := any_addr (ts_tcpPort t)\<rparr>) w1)
      else w)"

definition ts_Close :: "'o host_calls \<Rightarrow> ('o, 'z) tcp_world_scheme \<Rightarrow> ('o, 'z) tcp_world_scheme" where
  "ts_Close S w =
     (let f = ts_socketFd (srv w) in
      if 0 < f then upd_srv (\<lambda>t. t\<lparr>ts_socketFd := -1\<rparr>) (snd (sys_close S f (snd (sys_shutdown S f SHUT_RDWR w)))) else w)"

definition ts_Shutdown :: "'o host_calls \<Rightarrow> int \<Rightarrow> ('o, 'z) tcp_world_scheme \<Rightarrow> ('o, 'z) tcp_world_scheme" where
  "ts_Shutdown S mode w =
     (if 0 < ts_socketFd (srv w) then snd (sys_shutdown S (ts_socketFd (srv w)) (shut_mode mode) w) else w)"

definition ts_Shutdown_fd :: "'o host_calls \<Rightarrow> int \<Rightarrow> int \<Rightarrow> ('o, 'z) tcp_world_scheme \<Rightarrow> ('o, 'z) tcp_world_scheme" where
  "ts_Shutdown_fd S f mode w = snd (sys_shutdown S f (shut_mode mode) w)"

text \<open>A member access through a null \<open>pDevFdVec_\<close> or \<open>pInterfaceSocket\<close> is a fault.\<close>

definition dev_fds :: "('o, 'z) tcp_world_scheme \<Rightarrow> fd_manager res" where
  "dev_fds w = (case pDevFdVec (srv w) of None \<Rightarrow> Inl Null_dereference | Some m \<Rightarrow> Inr m)"

definition set_dev :: "fd_manager \<Rightarrow> ('o, 'z) tcp_world_scheme \<Rightarrow> ('o, 'z) tcp_world_scheme" where
  "set_dev m w = upd_srv (\<lambda>t. t\<lparr>pDevFdVec := Some m\<rparr>) w"

definition the_ifc :: "('o, 'z) tcp_world_scheme \<Rightarrow> ifc_socket res" where
  "the_ifc w = (case pInterfaceSocket (srv w) of None \<Rightarrow> Inl Null_dereference | Some i \<Rightarrow> Inr i)"

definition set_ifc :: "ifc_socket \<Rightarrow> ('o, 'z) tcp_world_scheme \<Rightarrow> ('o, 'z) tcp_world_scheme" where
  "set_ifc i w = upd_srv (\<lambda>t. t\<lparr>pInterfaceSocket := Some i\<rparr>) w"

definition ts_Close_fd :: "'o host_calls \<Rightarrow> int \<Rightarrow> ('o, 'z) tcp_world_scheme \<Rightarrow> ('o, 'z) tcp_world_scheme res" where
  "ts_Close_fd S f w =
     (if 0 < f then
        (let w1 = snd (sys_close S f (snd (sys_shutdown S f SHUT_RDWR w)))
         in ebind (dev_fds w1) (\<lambda>m. Inr (set_dev (snd (FdManager_Delete f m)) w1)))
      else Inr w)"

definition ts_Bind :: "'o host_calls \<Rightarrow> ('o, 'z) tcp_world_scheme \<Rightarrow> int \<times> ('o, 'z) tcp_world_scheme" where
  "ts_Bind S w =
     (case sys_bind S (ts_socketFd (srv w)) (ts_socketAddr (srv w)) w of (r, w1) \<Rightarrow> (if r = -1 then -1 else 0, w1))"

definition ts_Listen :: "'o host_calls \<Rightarrow> ('o, 'z) tcp_world_scheme \<Rightarrow> int \<times> ('o, 'z) tcp_world_scheme" where
  "ts_Listen S w =
     (case sys_listen S (ts_socketFd (srv w)) w of (r, w1) \<Rightarrow> (if r = -1 then -1 else 0, w1))"

definition ts_SetSocketOpt :: "'o host_calls \<Rightarrow> ('o, 'z) tcp_world_scheme \<Rightarrow> ('o, 'z) tcp_world_scheme" where
  "ts_SetSocketOpt S w =
     snd (sys_setsockopt S (ts_socketFd (srv w)) ''SO_REUSEPORT'' True
       (snd (sys_setsockopt S (ts_socketFd (srv w)) ''SO_REUSEADDR'' True w)))"

definition ts_CheckConnections :: "('o, 'z) tcp_world_scheme \<Rightarrow> int res" where
  "ts_CheckConnections w =
     ebind (dev_fds w) (\<lambda>m. Inr (if FdManager_GetTotalCount m < maxConnections (srv w) then 1 else -1))"

definition ts_CheckFd :: "int \<Rightarrow> ('o, 'z) tcp_world_scheme \<Rightarrow> (int \<times> ('o, 'z) tcp_world_scheme) res" where
  "ts_CheckFd f w =
     ebind (dev_fds w) (\<lambda>m.
       Inr (if 0 < FdManager_Find f m then (1, set_dev (snd (FdManager_Delete f m)) w) else (-1, w)))"

definition ts_Accept :: "'o host_calls \<Rightarrow> ('o, 'z) tcp_world_scheme \<Rightarrow> (int \<times> ('o, 'z) tcp_world_scheme) res" where
  "ts_Accept S w =
     (case pDevFdVec (srv w) of
        None \<Rightarrow> Inr (-1, w)
      | Some m \<Rightarrow>
          (case sys_accept S (ts_socketFd (srv w)) w of ((r, peer), w1) \<Rightarrow>
             let w2 = upd_srv (\<lambda>t. t\<lparr>ts_connFd := r\<rparr>) w1
             in if r = -1 then Inr (-1, w2)
                else ebind (ts_CheckConnections w2) (\<lambda>c.
                  if 0 < c then Inr (r, set_dev (snd (FdManager_Insert r m)) w2)
                  else ebind (ts_Close_fd S r w2) (\<lambda>w3. Inr (-1, upd_srv (\<lambda>t. t\<lparr>ts_connFd := -1\<rparr>) w3)))))"

definition ts_CloseAllConnections :: "'o host_calls \<Rightarrow> ('o, 'z) tcp_world_scheme \<Rightarrow> ('o, 'z) tcp_world_scheme res" where
  "ts_CloseAllConnections S w =
     ebind (dev_fds w) (\<lambda>m. ebind (close_entries S m w) (\<lambda>w1. Inr (set_dev (FdManager_ClearAll m) w1)))"

definition GetSocketFd :: "('o, 'z) tcp_world_scheme \<Rightarrow> int" where
  "GetSocketFd w = ts_socketFd (srv w)"

definition GetRemoteSocketFd :: "('o, 'z) tcp_world_scheme \<Rightarrow> int" where
  "GetRemoteSocketFd w = ts_connFd (srv w)"

text \<open>The mutexes of \<open>SocketRead\<close> and \<open>SocketWrite\<close> only order calls of different threads.\<close>

definition ts_SocketRead :: "'o host_calls \<Rightarrow> nat \<Rightarrow> ('o, 'z) tcp_world_scheme \<Rightarrow>
    (int \<times> byte list \<times> errno) \<times> ('o, 'z) tcp_world_scheme" where
  "ts_SocketRead S len w = sys_read S (ts_connFd (srv w)) len w"

definition ts_SocketWrite :: "'o host_calls \<Rightarrow> byte list \<Rightarrow> ('o, 'z) tcp_world_scheme \<Rightarrow> int \<times> ('o, 'z) tcp_world_scheme" where
  "ts_SocketWrite S buff w =
     (case sys_send S (ts_connFd (srv w)) buff w of (r, w1) \<Rightarrow> (if r = -1 then -1 else 0, w1))"

definition RegisterScanDriver :: "nat option \<Rightarrow> nat option \<Rightarrow> tcp_socket \<Rightarrow> tcp_socket" where
  "RegisterScanDriver scan_driver event_manager t =
     (let t1 = (if pScanDriver t = None then t\<lparr>pScanDriver := scan_driver\<rparr> else t)
      in if pEventManager t1 = None then t1\<lparr>pEventManager := event_manager\<rparr> else t1)"

definition UnRegisterScanDriver :: "tcp_socket \<Rightarrow> tcp_socket" where
  "UnRegisterScanDriver t = t\<lparr>pScanDriver := None, pEventManager := None\<rparr>"

definition RegisterConfiguration :: "nat option \<Rightarrow> tcp_socket \<Rightarrow> int \<times> tcp_socket" where
  "RegisterConfiguration pRc t =
     (if pReaderConfig t = None then (0, t\<lparr>pReaderConfig := pRc\<rparr>) else (-1, t))"

text \<open>\<open>delete\<close> of an object that is already dead is a fault; the pointer is not reset.\<close>

definition UnRegisterConfiguration :: "('o, 'z) tcp_world_scheme \<Rightarrow> (int \<times> ('o, 'z) tcp_world_scheme) res" where
  "UnRegisterConfiguration w =
     (case pReaderConfig (srv w) of
        None \<Rightarrow> Inr (-1, w)
      | Some p \<Rightarrow> if p \<in> live_configs w then Inr (0, w\<lparr>live_configs := live_configs w - {p}\<rparr>)
                 else Inl Use_after_free)"

end
