(* ===== verification/ServerThreads.thy ===== *)
theory ServerThreads
  imports TcpServerSocket
begin

text \<open>
  The two threads of \<open>TcpServerSocket\<close>, \<open>NoneConcurrentThread\<close> and \<open>ConcurrentThread\<close>, event by
  event, and \<open>Start\<close>, \<open>Stop\<close> and the destructor, which create and join them.
  \<open>rounds body n\<close> is the loop \<open>while(isThreadRunning)\<close> that sees the flag set \<open>n\<close> times.
\<close>

unbundle bit_operations_syntax

section \<open>One round of the loop\<close>

fun rounds :: "('w \<Rightarrow> 'w res) \<Rightarrow> nat \<Rightarrow> 'w \<Rightarrow> 'w res" where
  "rounds body 0 w = Inr w"
| "rounds body (Suc n) w = ebind (body w) (rounds body n)"

text \<open>\<open>epoll_wait\<close> and the loop over the events it stored.\<close>

definition poll_round :: "'o host_calls \<Rightarrow> int \<Rightarrow>
    (32 word \<times> nat \<Rightarrow> ('o, 'z) process_scheme \<Rightarrow> ('o, 'z) process_scheme res) \<Rightarrow>
    ('o, 'z) process_scheme \<Rightarrow> ('o, 'z) process_scheme res" where
  "poll_round S epfd handle w =
     (case sys_epoll_wait S epfd MAX_EVENTS 500 w of ((nfds, evs), w1) \<Rightarrow>
        foldE handle (take (nat nfds) evs) w1)"

definition in_et :: "32 word" where
  "in_et = EPOLLIN OR EPOLLET"

text \<open>
  A \<open>read\<close> of 512 bytes returns at most 512, so that clearing what it stored stays inside the
  buffer.  Both threads accept on the device socket alike: the new descriptor is added to the epoll
  set.  They read alike too; \<open>eof\<close> is what they do when the peer has closed.
\<close>

definition accept_event :: "'o host_calls \<Rightarrow> int \<Rightarrow> ('o, 'z) tcp_world_scheme \<Rightarrow> ('o, 'z) tcp_world_scheme res" where
  "accept_event S epfd w =
     ebind (ts_Accept S w) (\<lambda>(r, w1). Inr (if r < 0 then w1 else add_event S epfd r in_et w1))"

definition read_event :: "'o host_calls \<Rightarrow> int \<Rightarrow>
    (int \<Rightarrow> ('o, 'z) tcp_world_scheme \<Rightarrow> ('o, 'z) tcp_world_scheme res) \<Rightarrow> int \<Rightarrow>
    ('o, 'z) tcp_world_scheme \<Rightarrow> ('o, 'z) tcp_world_scheme res" where
  "read_event S epfd eof f w =
     (case sys_read S f 512 w of ((num, bs, errno), w0) \<Rightarrow>
        let w1 = w0\<lparr>last_num := num\<rparr> in
        if num < 0 then
          Inr (if errno = ECONNRESET then delete_event S epfd f in_et (snd (sys_close S f w1)) else w1)
        else if num = 0 then eof f (delete_event S epfd f in_et w1)
        else Inr w1)"

subsection \<open>NoneConcurrentThread\<close>

definition none_eof :: "'o host_calls \<Rightarrow> int \<Rightarrow> ('o, 'z) tcp_world_scheme \<Rightarrow> ('o, 'z) tcp_world_scheme res" where
  "none_eof S f w =
     ebind (ts_CheckFd f w) (\<lambda>(r, w1). Inr (snd (sys_close S f (snd (sys_shutdown S f SHUT_RDWR w1)))))"

definition none_event :: "'o host_calls \<Rightarrow> int \<Rightarrow> 32 word \<times> nat \<Rightarrow>
    ('o, 'z) tcp_world_scheme \<Rightarrow> ('o, 'z) tcp_world_scheme res" where
  "none_event S epfd ev w =
     (if data_fd (snd ev) = ts_socketFd (srv w) then accept_event S epfd w
      else if fst ev AND EPOLLIN \<noteq> 0 then read_event S epfd (none_eof S) (data_fd (snd ev)) w
      else Inr w)"

definition none_setup :: "'o host_calls \<Rightarrow> ('o, 'z) tcp_world_scheme \<Rightarrow> int \<times> ('o, 'z) tcp_world_scheme" where
  "none_setup S w =
     (let w1 = snd (ts_Listen S (snd (ts_Bind S (ts_SetSocketOpt S (ts_Open S w)))))
      in case sys_epoll_create S w1 of (epfd, w2) \<Rightarrow>
         (epfd, add_event S epfd (ts_socketFd (srv w2)) in_et w2))"

definition none_exit :: "'o host_calls \<Rightarrow> int \<Rightarrow> ('o, 'z) tcp_world_scheme \<Rightarrow> ('o, 'z) tcp_world_scheme res" where
  "none_exit S epfd w =
     ebind (ts_CloseAllConnections S (delete_event S epfd (ts_socketFd (srv w)) in_et w))
       (\<lambda>w1. Inr (ts_Close S w1))"

definition NoneConcurrentThread :: "'o host_calls \<Rightarrow> nat \<Rightarrow>
    ('o, 'z) tcp_world_scheme \<Rightarrow> ('o, 'z) tcp_world_scheme res" where
  "NoneConcurrentThread S n w =
     (case none_setup S w of (epfd, w1) \<Rightarrow>
        ebind (rounds (poll_round S epfd (none_event S epfd)) n w1) (none_exit S epfd))"

subsection \<open>ConcurrentThread\<close>

text \<open>The device server stores what its \<open>Accept\<close> returned in \<open>connFd\<close> and resets it to -1.\<close>

definition reset_connFd :: "('o, 'z) tcp_world_scheme \<Rightarrow> ('o, 'z) tcp_world_scheme" where
  "reset_connFd w = upd_srv (\<lambda>t. t\<lparr>ts_connFd := -1\<rparr>) w"

definition dev_accept_event :: "'o host_calls \<Rightarrow> int \<Rightarrow> ('o, 'z) tcp_world_scheme \<Rightarrow> ('o, 'z) tcp_world_scheme res" where
  "dev_accept_event S epfd w =
     ebind (ts_Accept S w) (\<lambda>(r, w1).
       let w2 = upd_srv (\<lambda>t. t\<lparr>ts_connFd := r\<rparr>) w1
       in Inr (if r < 0 then w2 else reset_connFd (add_event S epfd r in_et w2)))"

definition ifc_accept_event :: "'o host_calls \<Rightarrow> int \<Rightarrow> ('o, 'z) tcp_world_scheme \<Rightarrow> ('o, 'z) tcp_world_scheme res" where
  "ifc_accept_event S epfd w =
     ebind (the_ifc w) (\<lambda>i.
       case ifc_Accept S i w of (r, i1, w1) \<Rightarrow>
         let w2 = upd_srv (\<lambda>t. t\<lparr>ts_connFd := r\<rparr>) (set_ifc i1 w1)
         in Inr (if r < 0 then w2 else reset_connFd (add_event S epfd r in_et w2)))"

definition conc_eof :: "'o host_calls \<Rightarrow> int \<Rightarrow> ('o, 'z) tcp_world_scheme \<Rightarrow> ('o, 'z) tcp_world_scheme res" where
  "conc_eof S f w =
     ebind (ts_CheckFd f w) (\<lambda>(r, w1).
       if 0 < r then Inr (snd (sys_close S f (snd (sys_shutdown S f SHUT_RDWR w1))))
       else ebind (the_ifc w1) (\<lambda>i.
              case ifc_CheckFd f i of (r', i1) \<Rightarrow>
                if 0 < r' then
                  (case ifc_Close_fd S f i1 (snd (sys_shutdown S f SHUT_RDWR w1)) of (i2, w2) \<Rightarrow> Inr (set_ifc i2 w2))
                else Inr (set_ifc i1 w1)))"

text \<open>
  The branch for \<open>EPOLLOUT\<close> is \<open>memset(buff, 0, num)\<close> with the result of the last \<open>read\<close>, -1
  before the first one; the buffer has 1024 bytes.
\<close>

definition clear_buffer :: "('o, 'z) tcp_world_scheme \<Rightarrow> ('o, 'z) tcp_world_scheme res" where
  "clear_buffer w = (if 0 \<le> last_num w \<and> last_num w \<le> 1024 then Inr w else Inl Out_of_bounds)"

definition conc_event :: "'o host_calls \<Rightarrow> int \<Rightarrow> int \<Rightarrow> 32 word \<times> nat \<Rightarrow>
    ('o, 'z) tcp_world_scheme \<Rightarrow> ('o, 'z) tcp_world_scheme res" where
  "conc_event S epfd ifcFd ev w =
     (if data_fd (snd ev) = ts_socketFd (srv w) then dev_accept_event S epfd w
      else if data_fd (snd ev) = ifcFd then ifc_accept_event S epfd w
      else if fst ev AND EPOLLIN \<noteq> 0 then read_event S epfd (conc_eof S) (data_fd (snd ev)) w
      else if fst ev AND EPOLLOUT \<noteq> 0 then clear_buffer w
      else Inr w)"

definition conc_setup :: "'o host_calls \<Rightarrow> ('o, 'z) tcp_world_scheme \<Rightarrow> (int \<times> int \<times> ('o, 'z) tcp_world_scheme) res" where
  "conc_setup S w =
     (let w1 = snd (ts_Listen S (snd (ts_Bind S (ts_SetSocketOpt S (ts_Open S w)))))
      in ebind (the_ifc w1) (\<lambda>i.
         case ifc_Open S i w1 of (i1, w2) \<Rightarrow>
         ebind (SetUpTcpInterfaceSocket S i1 (set_ifc i1 w2)) (\<lambda>w3.
         case sys_epoll_create S w3 of (epfd, w4) \<Rightarrow>
         Inr (epfd, if_socketFd i1,
              (add_event S epfd (if_socketFd i1) in_et
                (add_event S epfd (ts_socketFd (srv w4)) in_et w4))\<lparr>last_num := -1\<rparr>))))"

definition conc_exit :: "'o host_calls \<Rightarrow> int \<Rightarrow> int \<Rightarrow> ('o, 'z) tcp_world_scheme \<Rightarrow> ('o, 'z) tcp_world_scheme res" where
  "conc_exit S epfd ifcFd w =
     (let w1 = delete_event S epfd (ts_socketFd (srv w)) in_et (delete_event S epfd ifcFd in_et w)
      in ebind (the_ifc w1) (\<lambda>i.
         ebind (ifc_CloseAllConnections S i w1) (\<lambda>(i1, w2).
         case ifc_Close S i1 w2 of (i2, w3) \<Rightarrow>
         ebind (ts_CloseAllConnections S (set_ifc i2 w3)) (\<lambda>w4. Inr (ts_Close S w4)))))"

definition ConcurrentThread :: "'o host_calls \<Rightarrow> nat \<Rightarrow>
    ('o, 'z) tcp_world_scheme \<Rightarrow> ('o, 'z) tcp_world_scheme res" where
  "ConcurrentThread S n w =
     ebind (conc_setup S w) (\<lambda>(epfd, ifcFd, w1).
       ebind (rounds (poll_round S epfd (conc_event S epfd ifcFd)) n w1) (conc_exit S epfd ifcFd))"

section \<open>Start, Stop and the destructor\<close>

text \<open>
  \<open>Start\<close> only marks the thread as running; what the thread does is its own function.
  \<open>Stop\<close> clears the flag and joins: \<open>finish\<close> is what the thread still does until it returns.
\<close>

definition ts_Start :: "'o host_calls \<Rightarrow> ('o, 'z) tcp_world_scheme \<Rightarrow> ('o, 'z) tcp_world_scheme" where
  "ts_Start S w =
     (let w1 = (case serverType (srv w) of
                  TCP_SERVER_TYPE_CONCURRENT \<Rightarrow> w
                | TCP_SERVER_TYPE_NONE_CONCURRENT \<Rightarrow> ts_Open S w)
      in if isThreadRunning (srv w1) then w1 else upd_srv (\<lambda>t. t\<lparr>isThreadRunning := True\<rparr>) w1)"

definition ts_Stop :: "'o host_calls \<Rightarrow> (('o, 'z) tcp_world_scheme \<Rightarrow> ('o, 'z) tcp_world_scheme res) \<Rightarrow>
    ('o, 'z) tcp_world_scheme \<Rightarrow> ('o, 'z) tcp_world_scheme res" where
  "ts_Stop S finish w =
     ebind (if isThreadRunning (srv w) then finish (upd_srv (\<lambda>t. t\<lparr>isThreadRunning := False\<rparr>) w) else Inr w)
       (\<lambda>w1. Inr (case serverType (srv w1) of
                    TCP_SERVER_TYPE_CONCURRENT \<Rightarrow> w1
                  | TCP_SERVER_TYPE_NONE_CONCURRENT \<Rightarrow> ts_Close S w1))"

definition destroy_tcp_socket :: "'o host_calls \<Rightarrow> (('o, 'z) tcp_world_scheme \<Rightarrow> ('o, 'z) tcp_world_scheme res) \<Rightarrow>
    ('o, 'z) tcp_world_scheme \<Rightarrow> ('o, 'z) tcp_world_scheme res" where
  "destroy_tcp_socket S finish w =
     ebind (ts_Stop S finish (ts_Close S w)) (\<lambda>w1.
       let w2 = (case serverType (srv w1) of
                   TCP_SERVER_TYPE_CONCURRENT \<Rightarrow>
                     upd_srv (\<lambda>t. t\<lparr>pInterfaceSocket := None\<rparr>)
                       (w1\<lparr>numOfConcurrentServer := max 0 (numOfConcurrentServer w1 - 1)\<rparr>)
                 | TCP_SERVER_TYPE_NONE_CONCURRENT \<Rightarrow> w1)
       in Inr (upd_srv (\<lambda>t. t\<lparr>pDevFdVec := None\<rparr>) w2))"

section \<open>The image and decoder streams\<close>

text \<open>
  \<open>tcp_status_thread\<close> and \<open>tcp_decoder_thread\<close> are static threads whose bodies are compiled
  out.  A start moves a new thread into the variable, which ends the process if a thread is
  still attached to it; a stop joins, which throws when there is none.
\<close>

record stream =
  joinable :: bool
  stream_exit :: bool

definition start_thread :: "stream \<Rightarrow> stream res" where
  "start_thread s = (if joinable s then Inl Terminate_called else Inr \<lparr>joinable = True, stream_exit = False\<rparr>)"

definition stop_thread :: "stream \<Rightarrow> stream res" where
  "stop_thread s = (if joinable s then Inr \<lparr>joinable = False, stream_exit = True\<rparr> else Inl System_error)"

record streams =
  tcp_status :: stream
  tcp_decoder :: stream

definition StartSendingImageStream :: "streams \<Rightarrow> streams res" where
  "StartSendingImageStream s = ebind (start_thread (tcp_status s)) (\<lambda>t. Inr (s\<lparr>tcp_status := t\<rparr>))"

definition StopSendingImageStream :: "streams \<Rightarrow> streams res" where
  "StopSendingImageStream s = ebind (stop_thread (tcp_status s)) (\<lambda>t. Inr (s\<lparr>tcp_status := t\<rparr>))"

definition StartSendDecoderData :: "streams \<Rightarrow> streams res" where
  "StartSendDecoderData s = ebind (start_thread (tcp_decoder s)) (\<lambda>t. Inr (s\<lparr>tcp_decoder := t\<rparr>))"

definition StopSendDecoderData :: "streams \<Rightarrow> streams res" where
  "StopSendDecoderData s = ebind (stop_thread (tcp_decoder s)) (\<lambda>t. Inr (s\<lparr>tcp_decoder := t\<rparr>))"

section \<open>Image packets\<close>

text \<open>
  The header of an image packet: \<open>sprintf\<close> into \<open>hdr[2048]\<close>, then the length is stored in
  four bytes at offset 2.  The length is unsigned and wraps; \<open>char\<close>s are bytes.
\<close>

definition bytes_of :: "string \<Rightarrow> byte list" where
  "bytes_of s = map of_char s"

definition LittleEndien4bytes :: "32 word \<Rightarrow> byte list" where
  "LittleEndien4bytes x =
     [ucast (x AND 0xff), ucast (drop_bit 8 x AND 0xff), ucast (drop_bit 16 x AND 0xff), ucast (drop_bit 24 x AND 0xff)]"

definition LittleEndien2bytes :: "32 word \<Rightarrow> byte list" where
  "LittleEndien2bytes x = [ucast (x AND 0xff), ucast (drop_bit 8 x AND 0xff)]"

definition pgm_text :: "int \<Rightarrow> int \<Rightarrow> string \<Rightarrow> byte list" where
  "pgm_text X Y comment =
     [0x16, 0xfe] @ bytes_of ''....'' @ [0x0d] @ bytes_of ''IMGSHP2P0L'' @ bytes_of (dec_int X) @ bytes_of ''R'' @
     bytes_of (dec_int Y) @ bytes_of ''B0T0M8D10S6F'' @ [0x1f] @ bytes_of comment @ [0x1d]"

definition SendPgmHeader :: "'o host_calls \<Rightarrow> int \<Rightarrow> int \<Rightarrow> 32 word \<Rightarrow> string \<Rightarrow>
    ('o, 'z) tcp_world_scheme \<Rightarrow> ('o, 'z) tcp_world_scheme res" where
  "SendPgmHeader S X Y sz comment w =
     (let hdr = pgm_text X Y comment; Size = length hdr
      in if 2048 < Size + 1 then Inl Out_of_bounds
         else ebind (blit 2 (LittleEndien4bytes (word_of_nat Size - 7 + sz)) hdr) (\<lambda>hdr1.
                Inr (snd (ts_SocketWrite S hdr1 w))))"

definition SendPgmImage :: "'o host_calls \<Rightarrow> int \<Rightarrow> int \<Rightarrow> byte list \<Rightarrow> string \<Rightarrow>
    ('o, 'z) tcp_world_scheme \<Rightarrow> ('o, 'z) tcp_world_scheme res" where
  "SendPgmImage S X Y img comment w =
     ebind (SendPgmHeader S X Y (word_of_nat (length img)) comment w) (\<lambda>w1. Inr (snd (ts_SocketWrite S img w1)))"

end
