(* ===== verification/ServerThreadInv.thy ===== *)
theory ServerThreadInv
  imports ServerThreads
begin

text \<open>
  What the server threads preserve: both registries stay within their limits and every open
  connection is in one of them.  Each operation is shown to return and to keep this
  invariant; \<open>rounds_keep\<close> lifts it to any number of rounds, and the exit of a thread then
  closes whatever is open.
\<close>

section \<open>Frame facts\<close>

lemma srv_log [simp]: "srv (log_call e k w) = srv w"
  by (simp add: log_call_def)

lemma upd_srv_simps [simp]:
  "srv (upd_srv f w) = f (srv w)" "trace (upd_srv f w) = trace w" "os (upd_srv f w) = os w"
  by (simp_all add: upd_srv_def)

lemmas reg_access = set_dev_def set_ifc_def dev_fds_def the_ifc_def reset_connFd_def

text \<open>What a call leaves behind: the object as it was, and the open descriptors.\<close>

lemma call_frame [simp]:
  "srv (snd (sys_socket S w)) = srv w" "srv (snd (sys_epoll_create S w)) = srv w"
  "srv (snd (sys_setsockopt S f opt b w)) = srv w" "srv (snd (sys_bind S f a w)) = srv w"
  "srv (snd (sys_listen S f w)) = srv w" "srv (snd (sys_accept S f w)) = srv w"
  "srv (snd (sys_read S f n w)) = srv w" "srv (snd (sys_shutdown S f h w)) = srv w"
  "srv (snd (sys_close S f w)) = srv w" "srv (snd (sys_epoll_ctl S ep c f ev d w)) = srv w"
  "srv (snd (sys_epoll_wait S ep n t w)) = srv w"
  by (simp_all add: sys_eqs)

lemma call_open [simp]:
  "open_fds (trace (snd (sys_socket S w))) = open_fds (trace w)"
  "open_fds (trace (snd (sys_epoll_create S w))) = open_fds (trace w)"
  "open_fds (trace (snd (sys_setsockopt S f opt b w))) = open_fds (trace w)"
  "open_fds (trace (snd (sys_bind S f a w))) = open_fds (trace w)"
  "open_fds (trace (snd (sys_listen S f w))) = open_fds (trace w)"
  "open_fds (trace (snd (sys_read S f n w))) = open_fds (trace w)"
  "open_fds (trace (snd (sys_shutdown S f h w))) = open_fds (trace w)"
  "open_fds (trace (snd (sys_close S f w))) = open_fds (trace w) - {f}"
  "open_fds (trace (snd (sys_epoll_ctl S ep c f ev d w))) = open_fds (trace w)"
  "open_fds (trace (snd (sys_epoll_wait S ep n t w))) = open_fds (trace w)"
  "open_fds (trace (snd (sys_accept S f w))) =
     (if 0 < fst (fst (sys_accept S f w)) then insert (fst (fst (sys_accept S f w))) (open_fds (trace w))
      else open_fds (trace w))"
  by (simp_all add: sys_eqs)

lemma event_ctl_frame [simp]:
  "srv (add_event S ep f ev w) = srv w" "srv (delete_event S ep f ev w) = srv w"
  by (simp_all add: event_ctl_defs)

lemma event_ctl_open [simp]:
  "open_fds (trace (add_event S ep f ev w)) = open_fds (trace w)"
  "open_fds (trace (delete_event S ep f ev w)) = open_fds (trace w)"
  by (simp_all add: event_ctl_defs)

section \<open>The invariant of the server threads\<close>

text \<open>
  A registry within its limit; both registries of the object within theirs; and every open
  connection in one of them.  \<open>limits\<close> is what no event changes.
\<close>

definition reg_ok :: "int \<Rightarrow> fd_manager \<Rightarrow> bool" where
  "reg_ok n m \<longleftrightarrow> registry_ok m \<and> maxSize m = n \<and> int (length (fdVec m)) \<le> n"

definition ifc_ok :: "ifc_socket \<Rightarrow> bool" where
  "ifc_ok i \<longleftrightarrow> reg_ok (if_maxConnections i) (pIfcFdVec i)"

definition server_ok :: "tcp_socket \<Rightarrow> bool" where
  "server_ok t \<longleftrightarrow> (\<exists>m. pDevFdVec t = Some m \<and> reg_ok (maxConnections t) m) \<and>
     (\<forall>i. pInterfaceSocket t = Some i \<longrightarrow> ifc_ok i)"

definition dev_list :: "tcp_socket \<Rightarrow> int list" where
  "dev_list t = (case pDevFdVec t of None \<Rightarrow> [] | Some m \<Rightarrow> fdVec m)"

definition ifc_list :: "tcp_socket \<Rightarrow> int list" where
  "ifc_list t = (case pInterfaceSocket t of None \<Rightarrow> [] | Some i \<Rightarrow> fdVec (pIfcFdVec i))"

definition tracked :: "tcp_socket \<Rightarrow> int set" where
  "tracked t = set (dev_list t) \<union> set (ifc_list t)"

definition srv_inv :: "('o, 'z) tcp_world_scheme \<Rightarrow> bool" where
  "srv_inv w \<longleftrightarrow> server_ok (srv w) \<and> open_fds (trace w) \<subseteq> tracked (srv w)"

definition limits :: "tcp_socket \<Rightarrow> int \<times> int option" where
  "limits t = (maxConnections t, map_option if_maxConnections (pInterfaceSocket t))"

definition keeps :: "('o, 'z) tcp_world_scheme \<Rightarrow> ('o, 'z) tcp_world_scheme \<Rightarrow> bool" where
  "keeps w v \<longleftrightarrow> srv_inv v \<and> limits (srv v) = limits (srv w)"

lemma reg_ok_total: "reg_ok n m \<Longrightarrow> FdManager_GetTotalCount m = int (length (fdVec m))"
  by (simp add: reg_ok_def fdm.total)

lemma reg_ok_insert:
  assumes "reg_ok n m" "int (length (fdVec m)) < n"
  shows "reg_ok n (snd (FdManager_Insert f m))" "fdVec (snd (FdManager_Insert f m)) = fdVec m @ [f]"
  using assms fdm.add[of m f] fdm.add_ok[of m f] fdm.add_room[of f m] by (auto simp: reg_ok_def)

lemma reg_ok_delete:
  assumes "reg_ok n m"
  shows "reg_ok n (snd (FdManager_Delete f m))" "fdVec (snd (FdManager_Delete f m)) = remove1 f (fdVec m)"
  using assms fdm.drop[of m f] fdm.drop_ok[of m f] fdm.drop_room[of f m] fdm.drop_bound[of m f]
  by (auto simp: reg_ok_def)

lemma remove1_minus: "A \<subseteq> set xs \<union> B \<Longrightarrow> A - {f} \<subseteq> set (remove1 f xs) \<union> B"
proof
  fix x assume "A \<subseteq> set xs \<union> B" "x \<in> A - {f}"
  then show "x \<in> set (remove1 f xs) \<union> B" by (auto simp: in_set_remove1)
qed


lemma sys_accept_frame:
  assumes "sys_accept S l w = ((r, a), w1)"
  shows "srv w1 = srv w" "open_fds (trace w1) = (if 0 < r then insert r (open_fds (trace w)) else open_fds (trace w))"
  using call_frame(6)[of S l w] call_open(11)[of S l w] assms by auto

lemma sys_read_frame:
  assumes "sys_read S f n w = ((r, bs, e), w1)"
  shows "srv w1 = srv w" "open_fds (trace w1) = open_fds (trace w)"
  using call_frame(7)[of S f n w] call_open(6)[of S f n w] assms by auto

lemma keeps_refl: "srv_inv w \<Longrightarrow> keeps w w"
  by (simp add: keeps_def)

lemma keeps_trans: "keeps u v \<Longrightarrow> keeps v w \<Longrightarrow> keeps u w"
  by (simp add: keeps_def)

lemma keeps_inv: "keeps w v \<Longrightarrow> srv_inv v"
  by (simp add: keeps_def)

text \<open>A step that changes neither registries nor open descriptors.\<close>

lemma keeps_quiet:
  assumes "srv_inv w" "open_fds (trace v) = open_fds (trace w)"
    "pDevFdVec (srv v) = pDevFdVec (srv w)" "pInterfaceSocket (srv v) = pInterfaceSocket (srv w)"
    "maxConnections (srv v) = maxConnections (srv w)"
  shows "keeps w v"
  using assms by (simp add: keeps_def srv_inv_def server_ok_def tracked_def dev_list_def ifc_list_def limits_def)

text \<open>A step that closes a descriptor as well.\<close>

lemma keeps_close:
  assumes "srv_inv w" "open_fds (trace v) \<subseteq> open_fds (trace w)" "srv v = srv w"
  shows "keeps w v"
  using assms by (auto simp: keeps_def srv_inv_def)

text \<open>Registering in one of the registries, and dropping from one after closing.\<close>

lemma keeps_dev_insert:
  assumes "srv_inv w" "pDevFdVec (srv w) = Some m" "int (length (fdVec m)) < maxConnections (srv w)"
    and "srv v = (srv w)\<lparr>ts_connFd := c, pDevFdVec := Some (snd (FdManager_Insert r m))\<rparr>"
    and "open_fds (trace v) \<subseteq> insert r (open_fds (trace w))"
  shows "keeps w v"
proof -
  have "reg_ok (maxConnections (srv w)) m" using assms(1,2) by (simp add: srv_inv_def server_ok_def)
  from reg_ok_insert[OF this assms(3), of r] show ?thesis
    using assms by (auto simp: keeps_def srv_inv_def server_ok_def tracked_def dev_list_def ifc_list_def limits_def)
qed

lemma keeps_dev_delete:
  assumes "srv_inv w" "pDevFdVec (srv w) = Some m"
    and "srv v = (srv w)\<lparr>ts_connFd := c, pDevFdVec := Some (snd (FdManager_Delete f m))\<rparr>"
    and "open_fds (trace v) = open_fds (trace w) - {f}"
  shows "keeps w v"
proof -
  have "reg_ok (maxConnections (srv w)) m" using assms(1,2) by (simp add: srv_inv_def server_ok_def)
  from reg_ok_delete[OF this, of f] show ?thesis
    using assms remove1_minus[of "open_fds (trace w)" "fdVec m" "set (ifc_list (srv w))" f]
    by (simp add: keeps_def srv_inv_def server_ok_def tracked_def dev_list_def ifc_list_def limits_def)
qed

lemma keeps_ifc_insert:
  assumes "srv_inv w" "pInterfaceSocket (srv w) = Some i" "int (length (fdVec (pIfcFdVec i))) < if_maxConnections i"
    and "srv v = (srv w)\<lparr>ts_connFd := c, pInterfaceSocket := Some (i\<lparr>if_connFd := r, pIfcFdVec := snd (FdManager_Insert r (pIfcFdVec i))\<rparr>)\<rparr>"
    and "open_fds (trace v) \<subseteq> insert r (open_fds (trace w))"
  shows "keeps w v"
proof -
  have "reg_ok (if_maxConnections i) (pIfcFdVec i)" using assms(1,2) by (simp add: srv_inv_def server_ok_def ifc_ok_def)
  from reg_ok_insert[OF this assms(3), of r] show ?thesis
    using assms
    by (auto simp: keeps_def srv_inv_def server_ok_def tracked_def dev_list_def ifc_list_def limits_def ifc_ok_def)
qed

lemma keeps_ifc_delete:
  assumes "srv_inv w" "pInterfaceSocket (srv w) = Some i"
    and "srv v = (srv w)\<lparr>ts_connFd := c, pInterfaceSocket := Some (i\<lparr>if_connFd := r, pIfcFdVec := snd (FdManager_Delete f (pIfcFdVec i))\<rparr>)\<rparr>"
    and "open_fds (trace v) = open_fds (trace w) - {f}"
  shows "keeps w v"
proof -
  have "reg_ok (if_maxConnections i) (pIfcFdVec i)" using assms(1,2) by (simp add: srv_inv_def server_ok_def ifc_ok_def)
  from reg_ok_delete[OF this, of f] show ?thesis
    using assms remove1_minus[of "open_fds (trace w)" "fdVec (pIfcFdVec i)" "set (dev_list (srv w))" f]
    by (simp add: keeps_def srv_inv_def server_ok_def tracked_def dev_list_def ifc_list_def limits_def ifc_ok_def Un_commute)
qed

section \<open>The operations keep the invariant\<close>

lemma ts_Accept_keeps:
  assumes "srv_inv w"
  shows "\<exists>r v. ts_Accept S w = Inr (r, v) \<and> keeps w v"
proof -
  from assms obtain m where m: "pDevFdVec (srv w) = Some m" "reg_ok (maxConnections (srv w)) m"
    by (auto simp: srv_inv_def server_ok_def)
  obtain r a w1 where acc: "sys_accept S (ts_socketFd (srv w)) w = ((r, a), w1)" by (metis prod.collapse)
  note fr = sys_accept_frame[OF acc]
  consider (fail) "r = -1" | (full) "r \<noteq> -1" "\<not> int (length (fdVec m)) < maxConnections (srv w)"
    | (room) "r \<noteq> -1" "int (length (fdVec m)) < maxConnections (srv w)" by blast
  then show ?thesis
  proof cases
    case fail
    have "keeps w (upd_srv (\<lambda>t. t\<lparr>ts_connFd := r\<rparr>) w1)"
      by (rule keeps_quiet[OF assms]) (simp_all add: fr fail)
    then show ?thesis using m acc fail by (simp add: ts_Accept_def)
  next
    case room
    have "keeps w (set_dev (snd (FdManager_Insert r m)) (upd_srv (\<lambda>t. t\<lparr>ts_connFd := r\<rparr>) w1))"
      by (rule keeps_dev_insert[OF assms m(1) room(2)]) (auto simp: fr reg_access)
    then show ?thesis using m acc room by (simp add: ts_Accept_def ts_CheckConnections_def reg_access fr reg_ok_total)
  next
    case full
    show ?thesis
    proof (cases "0 < r")
      case True
      let ?v = "upd_srv (\<lambda>t. t\<lparr>ts_connFd := -1\<rparr>) (set_dev (snd (FdManager_Delete r m))
        (snd (sys_close S r (snd (sys_shutdown S r SHUT_RDWR (upd_srv (\<lambda>t. t\<lparr>ts_connFd := r\<rparr>) w1))))))"
      have o: "open_fds (trace w1) = insert r (open_fds (trace w))" using fr(2) True by simp
      have "open_fds (trace ?v) = open_fds (trace w) - {r}" by (simp add: o reg_access)
      then have "keeps w ?v" by (intro keeps_dev_delete[OF assms m(1), where c = "-1"]) (simp_all add: fr reg_access)
      then show ?thesis using m acc full True
        by (simp add: ts_Accept_def ts_CheckConnections_def ts_Close_fd_def reg_access fr reg_ok_total)
    next
      case False
      have "keeps w (upd_srv (\<lambda>t. t\<lparr>ts_connFd := -1\<rparr>) (upd_srv (\<lambda>t. t\<lparr>ts_connFd := r\<rparr>) w1))"
        by (rule keeps_quiet[OF assms]) (use False in \<open>simp_all add: fr\<close>)
      then show ?thesis using m acc full False
        by (simp add: ts_Accept_def ts_CheckConnections_def ts_Close_fd_def reg_access fr reg_ok_total)
    qed
  qed
qed

lemma ifc_Accept_keeps:
  assumes "srv_inv w" "pInterfaceSocket (srv w) = Some i"
  shows "case ifc_Accept S i w of (r, i1, v) \<Rightarrow> keeps w (upd_srv (\<lambda>t. t\<lparr>ts_connFd := c\<rparr>) (set_ifc i1 v))"
proof -
  from assms have i: "reg_ok (if_maxConnections i) (pIfcFdVec i)"
    by (auto simp: srv_inv_def server_ok_def ifc_ok_def)
  obtain r a w1 where acc: "sys_accept S (if_socketFd i) w = ((r, a), w1)" by (metis prod.collapse)
  note fr = sys_accept_frame[OF acc]
  let ?cc = "int (length (fdVec (pIfcFdVec i))) < if_maxConnections i"
  consider (fail) "r = -1" | (full) "r \<noteq> -1" "\<not> ?cc" | (room) "r \<noteq> -1" "?cc" by blast
  then show ?thesis
  proof cases
    case fail
    then show ?thesis using assms acc i
      by (simp add: ifc_Accept_def keeps_def srv_inv_def server_ok_def tracked_def dev_list_def ifc_list_def
          limits_def ifc_ok_def reg_access fr)
  next
    case room
    have "keeps w (upd_srv (\<lambda>t. t\<lparr>ts_connFd := c\<rparr>)
        (set_ifc (i\<lparr>if_connFd := r, pIfcFdVec := snd (FdManager_Insert r (pIfcFdVec i))\<rparr>) w1))"
      by (rule keeps_ifc_insert[OF assms room(2), where c = c and r = r]) (auto simp: fr reg_access)
    then show ?thesis using acc room i by (simp add: ifc_Accept_def ifc_CheckConnections_def reg_ok_total)
  next
    case full
    show ?thesis
    proof (cases "0 < r")
      case True
      have o: "open_fds (trace w1) = insert r (open_fds (trace w))" using fr(2) True by simp
      have "keeps w (upd_srv (\<lambda>t. t\<lparr>ts_connFd := c\<rparr>)
          (set_ifc (i\<lparr>pIfcFdVec := snd (FdManager_Delete r (pIfcFdVec i)), if_connFd := -1\<rparr>)
            (snd (sys_close S r (snd (sys_shutdown S r SHUT_RDWR w1))))))"
        by (rule keeps_ifc_delete[OF assms, where c = c and r = "-1"]) (simp_all add: fr o reg_access)
      then show ?thesis using acc full True i
        by (simp add: ifc_Accept_def ifc_CheckConnections_def ifc_Close_fd_def reg_ok_total)
    next
      case False
      then show ?thesis using assms acc i full
        by (simp add: ifc_Accept_def ifc_CheckConnections_def ifc_Close_fd_def reg_ok_total keeps_def srv_inv_def
            server_ok_def tracked_def dev_list_def ifc_list_def limits_def ifc_ok_def reg_access fr)
    qed
  qed
qed


lemma accept_event_keeps:
  assumes "srv_inv w" shows "\<exists>v. accept_event S epfd w = Inr v \<and> keeps w v"
proof -
  obtain r v where "ts_Accept S w = Inr (r, v)" "keeps w v" using ts_Accept_keeps[OF assms] by blast
  moreover have "keeps v (add_event S epfd r in_et v)"
    by (rule keeps_quiet[OF keeps_inv[OF \<open>keeps w v\<close>]]) simp_all
  ultimately show ?thesis using keeps_trans by (auto simp: accept_event_def)
qed

lemma dev_accept_event_keeps:
  assumes "srv_inv w" shows "\<exists>v. dev_accept_event S epfd w = Inr v \<and> keeps w v"
proof -
  obtain r v where v: "ts_Accept S w = Inr (r, v)" "keeps w v" using ts_Accept_keeps[OF assms] by blast
  have "keeps v (upd_srv (\<lambda>t. t\<lparr>ts_connFd := r\<rparr>) v)"
    "keeps v (reset_connFd (add_event S epfd r in_et (upd_srv (\<lambda>t. t\<lparr>ts_connFd := r\<rparr>) v)))"
    by (rule keeps_quiet[OF keeps_inv[OF v(2)]]; simp add: reg_access)+
  with v show ?thesis using keeps_trans by (auto simp: dev_accept_event_def Let_def)
qed

lemma ifc_accept_event_keeps:
  assumes "srv_inv w" "pInterfaceSocket (srv w) = Some i"
  shows "\<exists>v. ifc_accept_event S epfd w = Inr v \<and> keeps w v"
proof -
  obtain r i1 w1 where a: "ifc_Accept S i w = (r, i1, w1)" by (metis prod.collapse)
  let ?u = "upd_srv (\<lambda>t. t\<lparr>ts_connFd := r\<rparr>) (set_ifc i1 w1)"
  have k: "keeps w ?u" using ifc_Accept_keeps[OF assms, where S = S and c = r] a by simp
  have "keeps ?u (reset_connFd (add_event S epfd r in_et ?u))"
    by (rule keeps_quiet[OF keeps_inv[OF k]]; simp add: reg_access)
  then show ?thesis using a k keeps_trans assms(2) by (auto simp: ifc_accept_event_def the_ifc_def Let_def)
qed

lemma none_eof_keeps:
  assumes "srv_inv w" shows "\<exists>v. none_eof S f w = Inr v \<and> keeps w v"
proof -
  from assms obtain m where m: "pDevFdVec (srv w) = Some m" by (auto simp: srv_inv_def server_ok_def)
  let ?c = "\<lambda>u. snd (sys_close S f (snd (sys_shutdown S f SHUT_RDWR u)))"
  show ?thesis
  proof (cases "0 < FdManager_Find f m")
    case True
    have "keeps w (?c (set_dev (snd (FdManager_Delete f m)) w))"
      by (rule keeps_dev_delete[OF assms m, where c = "ts_connFd (srv w)"]) (simp_all add: reg_access)
    then show ?thesis using m True by (simp add: none_eof_def ts_CheckFd_def dev_fds_def)
  next
    case False
    have "keeps w (?c w)" by (rule keeps_close[OF assms]) auto
    then show ?thesis using m False by (simp add: none_eof_def ts_CheckFd_def dev_fds_def)
  qed
qed

lemma conc_eof_keeps:
  assumes "srv_inv w" "pInterfaceSocket (srv w) = Some i"
  shows "\<exists>v. conc_eof S f w = Inr v \<and> keeps w v"
proof -
  from assms obtain m where m: "pDevFdVec (srv w) = Some m" by (auto simp: srv_inv_def server_ok_def)
  let ?c = "\<lambda>u. snd (sys_close S f (snd (sys_shutdown S f SHUT_RDWR u)))"
  consider (dev) "0 < FdManager_Find f m" | (ifc) "\<not> 0 < FdManager_Find f m" "0 < FdManager_Find f (pIfcFdVec i)"
    | (none) "\<not> 0 < FdManager_Find f m" "\<not> 0 < FdManager_Find f (pIfcFdVec i)" by blast
  then show ?thesis
  proof cases
    case dev
    have "keeps w (?c (set_dev (snd (FdManager_Delete f m)) w))"
      by (rule keeps_dev_delete[OF assms(1) m, where c = "ts_connFd (srv w)"]) (simp_all add: reg_access)
    then show ?thesis using m dev by (simp add: conc_eof_def ts_CheckFd_def dev_fds_def)
  next
    case ifc
    let ?i1 = "i\<lparr>pIfcFdVec := snd (FdManager_Delete f (pIfcFdVec i))\<rparr>"
    let ?i2 = "?i1\<lparr>pIfcFdVec := snd (FdManager_Delete f (pIfcFdVec ?i1))\<rparr>"
    let ?v = "set_ifc ?i2 (?c (snd (sys_shutdown S f SHUT_RDWR w)))"
    have pos: "0 < f" using ifc(2) by (auto simp: FdManager_Find_def split: if_splits)
    have k1: "keeps w (set_ifc ?i1 (?c w))"
      by (rule keeps_ifc_delete[OF assms, where c = "ts_connFd (srv w)" and r = "if_connFd i"]) (simp_all add: reg_access)
    have i1: "pInterfaceSocket (srv (set_ifc ?i1 (?c w))) = Some ?i1" by (simp add: reg_access)
    have "keeps (set_ifc ?i1 (?c w)) ?v"
      by (rule keeps_ifc_delete[OF keeps_inv[OF k1] i1, where c = "ts_connFd (srv w)" and r = "if_connFd i"])
        (auto simp: reg_access)
    then have "keeps w ?v" using k1 keeps_trans by blast
    then show ?thesis using m ifc pos assms(2)
      by (simp add: conc_eof_def ts_CheckFd_def dev_fds_def the_ifc_def ifc_CheckFd_def ifc_Close_fd_def)
  next
    case none
    have "keeps w (set_ifc i w)" by (rule keeps_quiet[OF assms(1)]) (simp_all add: reg_access assms(2))
    then show ?thesis using m none assms(2)
      by (simp add: conc_eof_def ts_CheckFd_def dev_fds_def the_ifc_def ifc_CheckFd_def)
  qed
qed

lemma read_event_keeps:
  assumes "srv_inv w"
    and eof: "\<And>u. srv_inv u \<Longrightarrow> srv u = srv w \<Longrightarrow> \<exists>v. eof f u = Inr v \<and> keeps u v"
  shows "\<exists>v. read_event S epfd eof f w = Inr v \<and> keeps w v"
proof -
  obtain num bs e w1 where r: "sys_read S f 512 w = ((num, bs, e), w1)" by (metis prod.collapse)
  note fr = sys_read_frame[OF r]
  let ?w1 = "w1\<lparr>last_num := num\<rparr>"
  have k1: "keeps w ?w1" by (rule keeps_quiet[OF assms(1)]) (simp_all add: fr)
  have kd: "keeps w (delete_event S epfd f in_et ?w1)" by (rule keeps_quiet[OF assms(1)]) (simp_all add: fr)
  have kc: "keeps w (delete_event S epfd f in_et (snd (sys_close S f ?w1)))"
    by (rule keeps_close[OF assms(1)]) (auto simp: fr)
  show ?thesis
    using r k1 kd kc eof[OF keeps_inv[OF kd]] fr(1) keeps_trans[OF kd]
    by (cases "num < 0"; cases "num = 0"; cases "e = ECONNRESET") (auto simp: read_event_def Let_def)
qed

lemma none_event_keeps:
  assumes "srv_inv w" shows "\<exists>v. none_event S epfd ev w = Inr v \<and> keeps w v"
  using accept_event_keeps[OF assms] read_event_keeps[OF assms none_eof_keeps] keeps_refl[OF assms]
  by (simp add: none_event_def)

lemma keeps_ifc: "keeps w v \<Longrightarrow> pInterfaceSocket (srv w) \<noteq> None \<Longrightarrow> pInterfaceSocket (srv v) \<noteq> None"
  by (auto simp: keeps_def limits_def)

text \<open>
  \<open>epoll_wait\<close> reports only what was asked for, besides errors and hang-ups: no descriptor
  here is watched for \<open>EPOLLOUT\<close>.
\<close>

definition no_write_events :: "'o host_calls \<Rightarrow> bool" where
  "no_write_events S \<longleftrightarrow>
     (\<forall>ep n t k. \<forall>ev \<in> set (snd (fst (os_epoll_wait S ep n t k))). fst ev AND EPOLLOUT = 0)"

lemma conc_event_keeps:
  assumes "srv_inv w" "pInterfaceSocket (srv w) \<noteq> None" "fst ev AND EPOLLOUT = 0" shows "\<exists>v. conc_event S epfd l ev w = Inr v \<and> keeps w v"
proof -
  from assms obtain i where i: "pInterfaceSocket (srv w) = Some i" by auto
  have "\<exists>v. read_event S epfd (conc_eof S) f w = Inr v \<and> keeps w v" for f
    by (rule read_event_keeps[OF assms(1) conc_eof_keeps]) (use i in auto)
  then show ?thesis
    using dev_accept_event_keeps[OF assms(1)] ifc_accept_event_keeps[OF assms(1) i] keeps_refl[OF assms(1)] assms(3)
    by (simp add: conc_event_def)
qed

text \<open>A round and any number of rounds.\<close>

lemma poll_round_keeps:
  assumes "srv_inv w" "P w"
    and step: "\<And>ev u. Q ev \<Longrightarrow> srv_inv u \<Longrightarrow> P u \<Longrightarrow> \<exists>v. h ev u = Inr v \<and> keeps u v"
    and Q: "\<And>ep n t k ev. ev \<in> set (snd (fst (os_epoll_wait S ep n t k))) \<Longrightarrow> Q ev"
    and P: "\<And>u v. keeps u v \<Longrightarrow> P u \<Longrightarrow> P v"
  shows "\<exists>v. poll_round S epfd h w = Inr v \<and> keeps w v \<and> P v"
proof -
  obtain n evs w1 where e: "sys_epoll_wait S epfd MAX_EVENTS 500 w = ((n, evs), w1)" by (metis prod.collapse)
  have "srv w1 = srv w" "open_fds (trace w1) = open_fds (trace w)"
    using call_frame(11)[of S epfd MAX_EVENTS 500 w] call_open(10)[of S epfd MAX_EVENTS 500 w] e by auto
  then have k: "keeps w w1" by (intro keeps_quiet[OF assms(1)]) simp_all
  have "\<exists>v. foldE h (take (nat n) evs) w1 = Inr v \<and> (keeps w v \<and> P v)"
  proof (rule foldE_total)
    show "keeps w w1 \<and> P w1" using k P assms(2) by blast
  next
    fix ev u assume ev: "ev \<in> set (take (nat n) evs)" and u: "keeps w u \<and> P u"
    have "evs = snd (fst (os_epoll_wait S epfd MAX_EVENTS 500 (os w)))" using e by (auto simp: sys_eqs)
    then have "Q ev" using Q ev in_set_takeD by fastforce
    then show "\<exists>v. h ev u = Inr v \<and> (keeps w v \<and> P v)"
      using step[of ev u] u P keeps_inv keeps_trans by blast
  qed
  then show ?thesis by (simp add: poll_round_def e)
qed

lemma rounds_keep:
  assumes "srv_inv w" "P w"
    and "\<And>u. srv_inv u \<Longrightarrow> P u \<Longrightarrow> \<exists>v. body u = Inr v \<and> keeps u v \<and> P v"
  shows "\<exists>v. rounds body n w = Inr v \<and> keeps w v \<and> P v"
  using assms(1,2)
proof (induction n arbitrary: w)
  case 0
  then show ?case by (simp add: keeps_refl)
next
  case (Suc n)
  obtain v where v: "body w = Inr v" "keeps w v" "P v" using assms(3)[OF Suc.prems] by blast
  show ?case using Suc.IH[OF keeps_inv[OF v(2)] v(3)] v keeps_trans by fastforce
qed

lemma none_rounds:
  assumes "srv_inv w"
  shows "\<exists>v. rounds (poll_round S epfd (none_event S epfd)) n w = Inr v \<and> keeps w v"
proof -
  have "\<exists>v. rounds (poll_round S epfd (none_event S epfd)) n w = Inr v \<and> keeps w v \<and> True"
    by (rule rounds_keep[where P = "\<lambda>_. True", OF assms TrueI])
      (rule poll_round_keeps[where P = "\<lambda>_. True" and Q = "\<lambda>_. True"]; use none_event_keeps in blast)
  then show ?thesis by simp
qed

lemma conc_rounds:
  assumes "srv_inv w" "pInterfaceSocket (srv w) \<noteq> None" "no_write_events S"
  shows "\<exists>v. rounds (poll_round S epfd (conc_event S epfd l)) n w = Inr v \<and> keeps w v"
proof -
  have "\<exists>v. rounds (poll_round S epfd (conc_event S epfd l)) n w = Inr v \<and> keeps w v \<and> pInterfaceSocket (srv v) \<noteq> None"
  proof (rule rounds_keep[where P = "\<lambda>w. pInterfaceSocket (srv w) \<noteq> None", OF assms(1,2)])
    fix u :: "('a, 'b) tcp_world_scheme"
    assume u: "srv_inv u" "pInterfaceSocket (srv u) \<noteq> None"
    show "\<exists>v. poll_round S epfd (conc_event S epfd l) u = Inr v \<and> keeps u v \<and> pInterfaceSocket (srv v) \<noteq> None"
    proof (rule poll_round_keeps[where P = "\<lambda>w. pInterfaceSocket (srv w) \<noteq> None" and Q = "\<lambda>ev. fst ev AND EPOLLOUT = 0", OF u])
      show "fst ev AND EPOLLOUT = 0" if "ev \<in> set (snd (fst (os_epoll_wait S ep n t k)))" for ep n t k ev
        using assms(3) that by (auto simp: no_write_events_def)
    qed (rule conc_event_keeps keeps_ifc; assumption)+
  qed
  then show ?thesis by blast
qed


section \<open>Set-up and exit\<close>

lemma keeps_same_ifc_fds:
  assumes "srv_inv w" "open_fds (trace v) = open_fds (trace w)" "pDevFdVec (srv v) = pDevFdVec (srv w)"
    "maxConnections (srv v) = maxConnections (srv w)"
    "pInterfaceSocket (srv w) = Some i" "pInterfaceSocket (srv v) = Some j"
    "pIfcFdVec j = pIfcFdVec i" "if_maxConnections j = if_maxConnections i"
  shows "keeps w v"
  using assms by (simp add: keeps_def srv_inv_def server_ok_def tracked_def dev_list_def ifc_list_def limits_def ifc_ok_def)

lemma ts_prepare_frame:
  defines "prep S w \<equiv> snd (ts_Listen S (snd (ts_Bind S (ts_SetSocketOpt S (ts_Open S w)))))"
  shows "open_fds (trace (prep S w)) = open_fds (trace w)" "pDevFdVec (srv (prep S w)) = pDevFdVec (srv w)"
    "pInterfaceSocket (srv (prep S w)) = pInterfaceSocket (srv w)"
    "maxConnections (srv (prep S w)) = maxConnections (srv w)"
proof -
  have "open_fds (trace (ts_Open S w)) = open_fds (trace w) \<and> pDevFdVec (srv (ts_Open S w)) = pDevFdVec (srv w)
    \<and> pInterfaceSocket (srv (ts_Open S w)) = pInterfaceSocket (srv w)
    \<and> maxConnections (srv (ts_Open S w)) = maxConnections (srv w)"
    by (simp add: ts_Open_def case_prod_beta)
  then show "open_fds (trace (prep S w)) = open_fds (trace w)" "pDevFdVec (srv (prep S w)) = pDevFdVec (srv w)"
    "pInterfaceSocket (srv (prep S w)) = pInterfaceSocket (srv w)"
    "maxConnections (srv (prep S w)) = maxConnections (srv w)"
    by (simp_all add: prep_def ts_Listen_def ts_Bind_def ts_SetSocketOpt_def case_prod_beta)
qed

lemma none_setup_keeps:
  assumes "srv_inv w" shows "keeps w (snd (none_setup S w))"
  by (rule keeps_quiet[OF assms]) (simp_all add: none_setup_def Let_def case_prod_beta ts_prepare_frame)

lemma SetUp_frame:
  assumes "SetUpTcpInterfaceSocket S i w = Inr v"
  shows "srv v = srv w" "open_fds (trace v) = open_fds (trace w)"
  using assms by (auto simp: SetUpTcpInterfaceSocket_def Let_def case_prod_beta split: if_splits)

lemma ifc_Open_frame:
  "pIfcFdVec (fst (ifc_Open S i w)) = pIfcFdVec i" "if_maxConnections (fst (ifc_Open S i w)) = if_maxConnections i"
  "srv (snd (ifc_Open S i w)) = srv w" "open_fds (trace (snd (ifc_Open S i w))) = open_fds (trace w)"
  by (simp_all add: ifc_Open_def case_prod_beta)

lemma conc_setup_keeps:
  assumes "srv_inv w" "conc_setup S w = Inr (epfd, l, v)"
  shows "keeps w v" "pInterfaceSocket (srv v) \<noteq> None"
proof -
  let ?p = "snd (ts_Listen S (snd (ts_Bind S (ts_SetSocketOpt S (ts_Open S w)))))"
  note pf = ts_prepare_frame[of S w]
  obtain i where i: "pInterfaceSocket (srv w) = Some i"
    using assms(2) by (auto simp: conc_setup_def Let_def the_ifc_def pf split: option.splits)
  let ?o = "ifc_Open S i ?p"
  from assms(2) i obtain u where u: "SetUpTcpInterfaceSocket S (fst ?o) (set_ifc (fst ?o) (snd ?o)) = Inr u"
      "v = (add_event S epfd (if_socketFd (fst ?o)) in_et
        (add_event S epfd (ts_socketFd (srv (snd (sys_epoll_create S u)))) in_et (snd (sys_epoll_create S u))))\<lparr>last_num := -1\<rparr>"
    by (auto simp: conc_setup_def Let_def the_ifc_def pf ebind_eq_Inr case_prod_beta)
  note uf = SetUp_frame[OF u(1)]
  have v: "srv v = (srv ?p)\<lparr>pInterfaceSocket := Some (fst ?o)\<rparr>" "open_fds (trace v) = open_fds (trace w)"
    using uf ifc_Open_frame[of S i ?p] pf by (simp_all add: u(2) set_ifc_def)
  show "keeps w v"
    by (rule keeps_same_ifc_fds[OF assms(1), where j = "fst ?o" and i = i])
      (use i v pf ifc_Open_frame[of S i ?p] in simp_all)
  show "pInterfaceSocket (srv v) \<noteq> None" using v by simp
qed

lemma conc_setup_fault:
  assumes "conc_setup S w = Inl e" "pInterfaceSocket (srv w) \<noteq> None" shows "e = Process_exit (-1)"
  using assms ts_prepare_frame(3)[of S w]
  by (auto simp: conc_setup_def Let_def the_ifc_def SetUpTcpInterfaceSocket_def case_prod_beta ebind_eq_Inl
      split: if_splits option.splits)

text \<open>The loop of \<open>CloseAllConnections\<close> closes the registered descriptors in order.\<close>

definition close_one :: "'o host_calls \<Rightarrow> int \<Rightarrow> ('o, 'z) process_scheme \<Rightarrow> ('o, 'z) process_scheme" where
  "close_one S f w = snd (sys_close S f (snd (sys_shutdown S f SHUT_RDWR w)))"

lemma close_entries_prefix:
  assumes "k \<le> length (fdVec m)" "length (fdVec m) < 2 ^ 31"
  shows "foldE (close_entry S m) (map int [0..<k]) w = Inr (fold (close_one S) (take k (fdVec m)) w)"
  using assms(1)
proof (induction k)
  case (Suc k)
  then have "FdManager_GetVal (int k) m = Inr (fdVec m ! k)"
    using assms(2) by (simp add: FdManager_GetVal_def size_simps)
  with Suc show ?case by (simp add: foldE_append close_entry_def close_one_def take_Suc_conv_app_nth)
qed simp

lemma close_entries_eq:
  assumes "reg_ok n m" shows "close_entries S m w = Inr (fold (close_one S) (fdVec m) w)"
proof -
  have "length (fdVec m) < 2 ^ 31" using assms by (simp add: reg_ok_def registry_ok_def)
  then show ?thesis
    using close_entries_prefix[of "length (fdVec m)" m S w] reg_ok_total[OF assms] by (simp add: close_entries_def)
qed

lemma fold_close_one:
  "srv (fold (close_one S) fs w) = srv w"
  "open_fds (trace (fold (close_one S) fs w)) = open_fds (trace w) - set fs"
proof (induction fs arbitrary: w)
  case (Cons f fs)
  { case 1 show ?case using Cons(1)[of "close_one S f w"] by (simp add: close_one_def) }
  { case 2 show ?case using Cons(2)[of "close_one S f w"] by (auto simp: close_one_def) }
qed simp_all

lemma ts_Close_open: "open_fds (trace (ts_Close S w)) \<subseteq> open_fds (trace w)" "pDevFdVec (srv (ts_Close S w)) = pDevFdVec (srv w)"
  by (auto simp: ts_Close_def Let_def)

lemma ts_CloseAll:
  assumes "pDevFdVec (srv w) = Some m" "reg_ok n m"
  shows "\<exists>v. ts_CloseAllConnections S w = Inr v \<and> open_fds (trace v) = open_fds (trace w) - set (fdVec m)
    \<and> pDevFdVec (srv v) = Some (m\<lparr>fdVec := []\<rparr>)"
  using assms by (simp add: ts_CloseAllConnections_def reg_access close_entries_eq fold_close_one FdManager_ClearAll_def)

lemma none_exit_closes:
  assumes "srv_inv w" "pInterfaceSocket (srv w) = None"
  shows "\<exists>v. none_exit S epfd w = Inr v \<and> open_fds (trace v) = {}"
proof -
  from assms obtain m where m: "pDevFdVec (srv w) = Some m" "reg_ok (maxConnections (srv w)) m"
    "open_fds (trace w) \<subseteq> set (fdVec m)"
    by (auto simp: srv_inv_def server_ok_def tracked_def dev_list_def ifc_list_def)
  let ?d = "delete_event S epfd (ts_socketFd (srv w)) in_et w"
  obtain v where "ts_CloseAllConnections S ?d = Inr v" "open_fds (trace v) = open_fds (trace w) - set (fdVec m)"
    using ts_CloseAll[OF _ m(2), of ?d S] m(1) by auto
  then show ?thesis using m(3) ts_Close_open(1)[of S v] by (auto simp: none_exit_def)
qed

lemma ifc_Close_frame:
  "srv (snd (ifc_Close S i w)) = srv w" "open_fds (trace (snd (ifc_Close S i w))) \<subseteq> open_fds (trace w)"
  by (auto simp: ifc_Close_def)

lemma conc_exit_closes:
  assumes "srv_inv w" "pInterfaceSocket (srv w) \<noteq> None"
  shows "\<exists>v. conc_exit S epfd l w = Inr v \<and> open_fds (trace v) = {}"
proof -
  from assms obtain m i where m: "pDevFdVec (srv w) = Some m" "reg_ok (maxConnections (srv w)) m"
    and i: "pInterfaceSocket (srv w) = Some i" "reg_ok (if_maxConnections i) (pIfcFdVec i)"
    and o: "open_fds (trace w) \<subseteq> set (fdVec m) \<union> set (fdVec (pIfcFdVec i))"
    by (auto simp: srv_inv_def server_ok_def tracked_def dev_list_def ifc_list_def ifc_ok_def)
  let ?d = "delete_event S epfd (ts_socketFd (srv (delete_event S epfd l in_et w))) in_et (delete_event S epfd l in_et w)"
  let ?i1 = "i\<lparr>pIfcFdVec := FdManager_ClearAll (pIfcFdVec i)\<rparr>"
  let ?u = "fold (close_one S) (fdVec (pIfcFdVec i)) ?d"
  let ?c = "set_ifc (fst (ifc_Close S ?i1 ?u)) (snd (ifc_Close S ?i1 ?u))"
  have c: "open_fds (trace ?c) \<subseteq> set (fdVec m)" "pDevFdVec (srv ?c) = Some m"
    using ifc_Close_frame[of S ?i1 ?u] o m by (auto simp: set_ifc_def fold_close_one)
  obtain v where v: "ts_CloseAllConnections S ?c = Inr v" "open_fds (trace v) = open_fds (trace ?c) - set (fdVec m)"
    using ts_CloseAll[OF c(2) m(2), of S] by blast
  have "conc_exit S epfd l w = Inr (ts_Close S v)"
    using i v by (simp add: conc_exit_def Let_def the_ifc_def ifc_CloseAllConnections_def close_entries_eq case_prod_beta)
  then show ?thesis using v(2) c(1) ts_Close_open(1)[of S v] by auto
qed

lemma new_socket_inv:
  assumes "open_fds (trace w) = {}" "type = TCP_SERVER_TYPE_CONCURRENT \<Longrightarrow> numOfConcurrentServer w \<le> 1"
  shows "srv_inv (new_tcp_socket port type w)"
    "limits (srv (new_tcp_socket port type w)) =
       (case type of TCP_SERVER_TYPE_CONCURRENT \<Rightarrow> (4, Some 2) | TCP_SERVER_TYPE_NONE_CONCURRENT \<Rightarrow> (1, None))"
  using assms
  by (cases type; simp add: new_tcp_socket_def Let_def srv_inv_def server_ok_def ifc_ok_def reg_ok_def registry_ok_def
      FdManager_new_def MAX_DEV_CONNECTIONS_def MAX_IFC_CONNECTIONS_def new_ifc_def limits_def blank_socket_def)+

end
