(* ===== verification/ServerThreadProps.thy ===== *)
theory ServerThreadProps
  imports ServerThreadInv
begin

text \<open>The properties of the older server: admission, descriptors, resets, and image packets.\<close>

section \<open>A kernel and a process for the witnesses\<close>

text \<open>
  Sockets, epoll sets and accepted connections get fixed numbers; \<open>poll\<close> is what
  \<open>epoll_wait\<close> reports and \<open>rd\<close> what \<open>read\<close> returns.
\<close>

definition host_kernel :: "(nat \<Rightarrow> (32 word \<times> nat) list) \<Rightarrow> int \<times> errno \<Rightarrow> nat host_calls" where
  "host_kernel poll rd =
     \<lparr>os_socket = (\<lambda>k. (3, k)), os_eventfd = (\<lambda>k. (4, k)), os_epoll_create = (\<lambda>k. (5, k)),
      os_setsockopt = (\<lambda>_ _ _ k. (0, k)), os_bind = (\<lambda>_ _ k. (0, k)), os_listen = (\<lambda>_ k. (0, k)),
      os_accept = (\<lambda>_ k. ((7, zero_addr), k)), os_getsockname = (\<lambda>_ k. ((0, zero_addr), k)),
      os_read = (\<lambda>_ _ k. ((fst rd, [], snd rd), k)), os_write = (\<lambda>_ bs k. ((int (length bs), EINTR), k)),
      os_shutdown = (\<lambda>_ _ k. (0, k)), os_close = (\<lambda>_ k. (0, k)),
      os_epoll_ctl = (\<lambda>_ _ _ _ _ k. (0, k)),
      os_epoll_wait = (\<lambda>_ _ _ k. ((int (length (poll k)), poll k), Suc k)),
      os_send = (\<lambda>_ bs k. (int (length bs), k)), os_connect = (\<lambda>_ _ k. (0, k)),
      os_recvfrom = (\<lambda>_ _ k. ((0, [], zero_addr), k)), os_sendto = (\<lambda>_ bs _ k. (int (length bs), k)),
      os_select = (\<lambda>_ k. ((1, True), k)), os_bind_un = (\<lambda>_ _ k. (0, k)), os_connect_un = (\<lambda>_ _ k. (0, k)),
      os_access = (\<lambda>_ k. (0, k)), os_unlink = (\<lambda>_ k. (0, k))\<rparr>"

definition fresh_process :: "nat tcp_world" where
  "fresh_process = \<lparr>os = 0, trace = [], srv = blank_socket 0 TCP_SERVER_TYPE_CONCURRENT,
     numOfConcurrentServer = 0, live_configs = {}, last_num = -1\<rparr>"

text \<open>Five clients connect to the device server, then the first one hangs up.\<close>

definition busy :: "nat \<Rightarrow> (32 word \<times> nat) list" where
  "busy k = (if k < 5 then [(1, 3)] else if k = 5 then [(1, 7)] else [])"

lemma busy_events: "no_write_events (host_kernel busy rd)"
  by (simp add: no_write_events_def host_kernel_def busy_def EPOLLOUT_def)

section \<open>Admission\<close>

text \<open>C26: Once a server is set up, its thread never faults, and however many rounds it makes and
  whatever the kernel reports, it never holds more than its four device and two interface
  connections.\<close>
theorem registries_bounded:
  assumes "open_fds (trace w) = {}" and "numOfConcurrentServer w \<le> 1" and "no_write_events S"
    and "conc_setup S (new_tcp_socket port TCP_SERVER_TYPE_CONCURRENT w) = Inr (epfd, l, u)"
  shows "\<exists>v. rounds (poll_round S epfd (conc_event S epfd l)) n u = Inr v \<and>
           length (dev_list (srv v)) \<le> 4 \<and> length (ifc_list (srv v)) \<le> 2"
proof -
  note new = new_socket_inv[of w TCP_SERVER_TYPE_CONCURRENT port, OF assms(1) assms(2)]
  note u = conc_setup_keeps[OF new(1) assms(4)]
  obtain v where v: "rounds (poll_round S epfd (conc_event S epfd l)) n u = Inr v" "keeps u v"
    using conc_rounds[OF keeps_inv[OF u(1)] u(2) assms(3)] by blast
  have "limits (srv v) = (4, Some 2)" "srv_inv v" using v(2) u(1) new(2) by (simp_all add: keeps_def)
  then have "length (dev_list (srv v)) \<le> 4 \<and> length (ifc_list (srv v)) \<le> 2"
    by (auto simp: srv_inv_def server_ok_def limits_def dev_list_def ifc_list_def ifc_ok_def reg_ok_def)
  with v(1) show ?thesis by blast
qed

lemma busy_setup:
  "\<exists>u. conc_setup (host_kernel busy (0, EINTR)) (new_tcp_socket 55296 TCP_SERVER_TYPE_CONCURRENT fresh_process) = Inr (5, 3, u)"
  by (simp add: conc_setup_def new_tcp_socket_def fresh_process_def blank_socket_def ts_Listen_def ts_Bind_def
      ts_SetSocketOpt_def ts_Open_def upd_srv_def the_ifc_def set_ifc_def ifc_Open_def new_ifc_def
      SetUpTcpInterfaceSocket_def host_kernel_def sys_eqs case_prod_beta)

lemma registries_bounded_witness:
  "\<exists>u v. conc_setup (host_kernel busy (0, EINTR)) (new_tcp_socket 55296 TCP_SERVER_TYPE_CONCURRENT fresh_process) = Inr (5, 3, u)
     \<and> rounds (poll_round (host_kernel busy (0, EINTR)) 5 (conc_event (host_kernel busy (0, EINTR)) 5 3)) 6 u = Inr v
     \<and> length (dev_list (srv v)) \<le> 4"
proof -
  obtain u where u: "conc_setup (host_kernel busy (0, EINTR)) (new_tcp_socket 55296 TCP_SERVER_TYPE_CONCURRENT fresh_process) = Inr (5, 3, u)"
    using busy_setup by blast
  from registries_bounded[OF _ _ busy_events u, of 6] u show ?thesis by (auto simp: fresh_process_def)
qed

text \<open>C25: The concurrent server leaks no connection: run for any number of rounds against any
  kernel, it either ends the process during set-up, or it returns with every connection it
  ever accepted closed.\<close>
theorem concurrent_closes_all:
  assumes "open_fds (trace w) = {}" and "numOfConcurrentServer w \<le> 1" and "no_write_events S"
  shows "case ConcurrentThread S n (new_tcp_socket port TCP_SERVER_TYPE_CONCURRENT w) of
           Inl e \<Rightarrow> e = Process_exit (-1)
         | Inr v \<Rightarrow> open_fds (trace v) = {}"
proof -
  let ?w = "new_tcp_socket port TCP_SERVER_TYPE_CONCURRENT w"
  note new = new_socket_inv[of w TCP_SERVER_TYPE_CONCURRENT port, OF assms(1) assms(2)]
  show ?thesis
  proof (cases "conc_setup S ?w")
    case (Inl e)
    have "pInterfaceSocket (srv ?w) \<noteq> None" using new(2) by (auto simp: limits_def)
    then have "e = Process_exit (-1)" using conc_setup_fault[OF Inl] by blast
    then show ?thesis using Inl by (simp add: ConcurrentThread_def)
  next
    case (Inr t)
    obtain epfd l u where t: "t = (epfd, l, u)" by (metis prod.collapse)
    note u = conc_setup_keeps[OF new(1) Inr[unfolded t]]
    obtain v where v: "rounds (poll_round S epfd (conc_event S epfd l)) n u = Inr v" "keeps u v"
      using conc_rounds[OF keeps_inv[OF u(1)] u(2) assms(3)] by blast
    obtain x where "conc_exit S epfd l v = Inr x" "open_fds (trace x) = {}"
      using conc_exit_closes[OF keeps_inv[OF v(2)] keeps_ifc[OF v(2) u(2)]] by blast
    then show ?thesis using v(1) Inr t by (simp add: ConcurrentThread_def)
  qed
qed

lemma concurrent_closes_all_witness:
  "case ConcurrentThread (host_kernel busy (0, EINTR)) 9 (new_tcp_socket 55296 TCP_SERVER_TYPE_CONCURRENT fresh_process) of
     Inl e \<Rightarrow> e = Process_exit (-1) | Inr v \<Rightarrow> open_fds (trace v) = {}"
  by (rule concurrent_closes_all) (simp_all add: fresh_process_def busy_events)

text \<open>C27: The configuration server serves one connection at a time and always returns, with
  every connection it accepted closed.\<close>
theorem none_concurrent_closes_all:
  assumes "open_fds (trace w) = {}"
  shows "\<exists>v. NoneConcurrentThread S n (new_tcp_socket port TCP_SERVER_TYPE_NONE_CONCURRENT w) = Inr v \<and>
           open_fds (trace v) = {}"
proof -
  let ?w = "new_tcp_socket port TCP_SERVER_TYPE_NONE_CONCURRENT w"
  note new = new_socket_inv[of w TCP_SERVER_TYPE_NONE_CONCURRENT port, OF assms(1), simplified]
  obtain epfd u where u: "none_setup S ?w = (epfd, u)" by force
  then have k: "keeps ?w u" using none_setup_keeps[OF new(1), of S] by simp
  obtain v where v: "rounds (poll_round S epfd (none_event S epfd)) n u = Inr v" "keeps u v"
    using none_rounds[OF keeps_inv[OF k]] by blast
  have "limits (srv v) = (1, None)" using v(2) k new(2) by (simp add: keeps_def)
  then have "pInterfaceSocket (srv v) = None" by (simp add: limits_def)
  from none_exit_closes[OF keeps_inv[OF v(2)] this] v(1) u show ?thesis by (simp add: NoneConcurrentThread_def)
qed

lemma none_concurrent_closes_all_witness:
  "\<exists>v. NoneConcurrentThread (host_kernel busy (0, EINTR)) 9
     (new_tcp_socket 55266 TCP_SERVER_TYPE_NONE_CONCURRENT fresh_process) = Inr v \<and> open_fds (trace v) = {}"
  by (rule none_concurrent_closes_all) (simp add: fresh_process_def)

text \<open>C28: The limit on concurrent servers does not hold what its message says.  Of three servers
  created in one process the second is accepted like the first, and the third is left with
  null pointers, so that its thread dereferences a null pointer.\<close>
theorem third_server_faults:
  assumes "numOfConcurrentServer w = 0"
  shows "let new = new_tcp_socket port TCP_SERVER_TYPE_CONCURRENT in
         pDevFdVec (srv (new w)) \<noteq> None \<and> pDevFdVec (srv (new (new w))) \<noteq> None \<and>
         pDevFdVec (srv (new (new (new w)))) = None \<and>
         ConcurrentThread S n (new (new (new w))) = Inl Null_dereference"
proof -
  let ?new = "new_tcp_socket port TCP_SERVER_TYPE_CONCURRENT"
  have three: "srv (?new (?new (?new w))) = blank_socket port TCP_SERVER_TYPE_CONCURRENT"
    using assms by (simp add: new_tcp_socket_def Let_def)
  then have "pInterfaceSocket (srv (?new (?new (?new w)))) = None" by (simp add: blank_socket_def)
  then have "ConcurrentThread S n (?new (?new (?new w))) = Inl Null_dereference"
    by (simp add: ConcurrentThread_def conc_setup_def Let_def the_ifc_def ts_prepare_frame)
  then show ?thesis using three assms by (simp add: new_tcp_socket_def Let_def blank_socket_def)
qed

lemma third_server_faults_witness:
  "ConcurrentThread (host_kernel busy (0, EINTR)) 1
     (((new_tcp_socket 55296 TCP_SERVER_TYPE_CONCURRENT ^^ 3)) fresh_process) = Inl Null_dereference"
  using third_server_faults[of fresh_process 55296 "host_kernel busy (0, EINTR)" 1]
  by (simp add: fresh_process_def Let_def numeral_3_eq_3)

section \<open>Resets\<close>

lemma none_reset_step:
  assumes "data_fd (fd_data f) = f" "f \<noteq> ts_socketFd (srv w)"
    and "os_read S f 512 (os w) = ((r, bs, ECONNRESET), k)" "r < 0"
  shows "none_event S epfd (EPOLLIN, fd_data f) w =
    Inr (delete_event S epfd f in_et (snd (sys_close S f ((snd (sys_read S f 512 w))\<lparr>last_num := r\<rparr>))))"
  using assms by (simp add: none_event_def read_event_def sys_eqs EPOLLIN_def)

text \<open>C29: A connection that is reset, not closed, costs the next client its place.  When the only
  connection of the configuration server is reset, its descriptor is closed but stays in the
  registry; the next client is then refused and hung up although no connection is open, and
  a place becomes free again only if the kernel gives that client the stale number.\<close>
theorem reset_costs_next_client:
  assumes "pDevFdVec (srv w) = Some \<lparr>maxSize = 1, fdVec = [f]\<rparr>" and "maxConnections (srv w) = 1"
    and "0 < f" "f < 2 ^ 31" "f \<noteq> ts_socketFd (srv w)" and "open_fds (trace w) = {f}"
    and "data_fd l = ts_socketFd (srv w)"
    and "\<And>k. fst (os_read S f 512 k) = (-1, [], ECONNRESET)"
    and "\<And>k. fst (fst (os_accept S (ts_socketFd (srv w)) k)) = c" and "0 < c"
  shows "\<exists>v u. none_event S epfd (EPOLLIN, fd_data f) w = Inr v \<and> open_fds (trace v) = {} \<and> dev_list (srv v) = [f] \<and>
           none_event S epfd (ev, l) v = Inr u \<and> open_fds (trace u) = {} \<and>
           dev_list (srv u) = (if c = f then [] else [f])"
proof -
  let ?v = "delete_event S epfd f in_et (snd (sys_close S f ((snd (sys_read S f 512 w))\<lparr>last_num := -1\<rparr>)))"
  have v: "none_event S epfd (EPOLLIN, fd_data f) w = Inr ?v"
    using none_reset_step[of f w S "-1" "[]" "snd (os_read S f 512 (os w))" epfd]
      data_fd_fd_data[of f] assms(3,4,5,8) by (simp add: prod_eq_iff)
  have sv: "srv ?v = srv w" "open_fds (trace ?v) = {}" using assms(6) by auto
  obtain p k where acc: "os_accept S (ts_socketFd (srv w)) (os ?v) = ((c, p), k)"
    using assms(9)[of "os ?v"] by (metis prod.collapse)
  then obtain a where a: "sys_accept S (ts_socketFd (srv w)) ?v = ((c, p), a)" by (simp add: sys_eqs)
  have sa: "srv a = srv w" "open_fds (trace a) = {c}" using sys_accept_frame[OF a] sv assms(10) by auto
  let ?u = "upd_srv (\<lambda>t. t\<lparr>ts_connFd := -1\<rparr>) (set_dev (snd (FdManager_Delete c \<lparr>maxSize = 1, fdVec = [f]\<rparr>))
    (snd (sys_close S c (snd (sys_shutdown S c SHUT_RDWR (upd_srv (\<lambda>t. t\<lparr>ts_connFd := c\<rparr>) a))))))"
  have full: "FdManager_GetTotalCount \<lparr>maxSize = 1, fdVec = [f]\<rparr> = 1"
    by (simp add: FdManager_GetTotalCount_def size_simps)
  have "ts_Accept S ?v = Inr (-1, ?u)"
    using a sa assms(1,2,10) full unfolding ts_Accept_def sv(1)
    by (simp add: ts_CheckConnections_def ts_Close_fd_def reg_access)
  then have "none_event S epfd (ev, l) ?v = Inr ?u"
    using assms(7) sv by (simp add: none_event_def accept_event_def)
  moreover have "open_fds (trace ?u) = {}" using sa by (simp add: reg_access)
  moreover have "dev_list (srv ?u) = (if c = f then [] else [f])"
    using sa by (simp add: reg_access dev_list_def FdManager_Delete_def)
  ultimately show ?thesis using v sv assms(1) by (auto simp: dev_list_def)
qed

text \<open>A process whose configuration server holds connection 7.\<close>

definition one_client :: "nat tcp_world" where
  "one_client = fresh_process\<lparr>trace := [Sys_accept 3 7],
     srv := (blank_socket 55266 TCP_SERVER_TYPE_NONE_CONCURRENT)\<lparr>ts_socketFd := 3, maxConnections := 1,
       pDevFdVec := Some \<lparr>maxSize = 1, fdVec = [7]\<rparr>\<rparr>\<rparr>"

lemma reset_costs_next_client_witness:
  "\<exists>v u. none_event (host_kernel busy (-1, ECONNRESET)) 5 (EPOLLIN, fd_data 7) one_client = Inr v \<and> dev_list (srv v) = [7] \<and>
     none_event (host_kernel busy (-1, ECONNRESET)) 5 (EPOLLIN, 3) v = Inr u \<and> open_fds (trace u) = {}"
proof -
  have sym: "open_fds (trace one_client) = {7}" using open_fds_snoc[of "[]"] by (simp add: one_client_def)
  then show ?thesis
    using reset_costs_next_client[of one_client 7 3 "host_kernel busy (-1, ECONNRESET)" 7 5 EPOLLIN]
    by (auto simp: one_client_def blank_socket_def host_kernel_def data_fd_def size_to_int_def)
qed

section \<open>Image packets\<close>

lemma low_byte: "(ucast (y AND 0xff) :: byte) = ucast (y :: 32 word)"
proof (rule bit_word_eqI)
  fix n assume "n < LENGTH(8)"
  then have "bit (0xff :: 32 word) n" using bit_mask_iff[of 8 n, where 'a = "32 word"] by (simp add: mask_eq_exp_minus_1)
  then show "bit (ucast (y AND 0xff) :: byte) n = bit (ucast y :: byte) n"
    by (simp add: bit_ucast_iff bit_and_iff)
qed

lemma byte_at: "(ucast (drop_bit k (x :: 32 word)) :: byte) = word_of_nat (unat x div 2 ^ k mod 256)"
proof -
  have "unat x < 2 ^ LENGTH(32)" by (rule unsigned_less)
  then have less: "unat x < 2 ^ 32" by simp
  have "unat (drop_bit k x) = unat x div 2 ^ k"
    by (simp only: unsigned_drop_bit_eq drop_bit_eq_div[where 'a = nat]) (simp add: take_bit_nat_eq_self[OF less])
  then have "unat (ucast (drop_bit k x) :: byte) = unat x div 2 ^ k mod 256"
    by (simp only: unsigned_ucast_eq take_bit_eq_mod) simp
  then show ?thesis by (simp only: word_unat_eq_iff unat_byte_mod)
qed

lemma byte_low: "(ucast (x :: 32 word) :: byte) = word_of_nat (unat x mod 256)"
proof -
  have "unat (ucast x :: byte) = unat x mod 256"
    by (simp only: unsigned_ucast_eq take_bit_eq_mod) simp
  then show ?thesis by (simp only: word_unat_eq_iff unat_byte_mod)
qed

lemma le_bytes_4: "le_bytes 4 n = [word_of_nat (n mod 256), word_of_nat (n div 2 ^ 8 mod 256),
    word_of_nat (n div 2 ^ 16 mod 256), word_of_nat (n div 2 ^ 24 mod 256)]"
proof -
  have four: "4 = Suc (Suc (Suc (Suc 0)))" by simp
  show ?thesis unfolding four by (simp add: div_mult2_eq[symmetric])
qed

lemma LittleEndien4bytes_le: "LittleEndien4bytes x = le_bytes 4 (unat x)"
  by (simp only: LittleEndien4bytes_def low_byte le_bytes_4 byte_at byte_low[of x])

text \<open>The first seven bytes of a header are the frame; the length counts what follows them.\<close>

lemma pgm_text_split:
  "\<exists>t. pgm_text X Y comment = [0x16, 0xfe, 0x2e, 0x2e, 0x2e, 0x2e, 0x0d] @ t"
  by (simp add: pgm_text_def bytes_of_def)

text \<open>C32: An image packet is framed consistently: the header and the image go out in two writes, the
  packet starts with the bytes 16 fe, and the four bytes at offset 2 are the little-endian
  count of the bytes that follow the seven-byte frame, so that a receiver that reads the
  frame knows how much to read.\<close>
theorem image_packet_framed:
  assumes "length (pgm_text X Y comment) < 2048" and "length img < 2 ^ 31"
  shows "\<exists>v hdr r1 r2. SendPgmImage S X Y img comment w = Inr v \<and>
     trace v = trace w @ [Sys_send (ts_connFd (srv w)) hdr r1, Sys_send (ts_connFd (srv w)) img r2] \<and>
     take 2 hdr = [0x16, 0xfe] \<and> le_value (slice 2 6 hdr) = length (hdr @ img) - 7"
proof -
  let ?h = "pgm_text X Y comment" and ?L = "word_of_nat (length (pgm_text X Y comment)) - 7 + word_of_nat (length img) :: 32 word"
  let ?hdr = "take 2 ?h @ LittleEndien4bytes ?L @ drop 6 ?h"
  obtain t where t: "?h = [0x16, 0xfe, 0x2e, 0x2e, 0x2e, 0x2e, 0x0d] @ t" using pgm_text_split by blast
  have len: "length ?hdr = length ?h" by (simp add: t LittleEndien4bytes_def)
  have "?L = word_of_nat (length t + length img)" by (simp add: t)
  then have "unat ?L = length t + length img"
    using assms by (simp only: unat_of_nat) (simp add: t)
  moreover have "slice 2 6 ?hdr = le_bytes 4 (unat ?L)"
    by (simp add: slice_def t LittleEndien4bytes_le)
  ultimately have val: "le_value (slice 2 6 ?hdr) = length (?hdr @ img) - 7"
    using assms len by (simp add: le_value_le_bytes t)
  have "SendPgmHeader S X Y (word_of_nat (length img)) comment w = Inr (snd (ts_SocketWrite S ?hdr w))"
    using assms by (simp add: SendPgmHeader_def Let_def blit_def t LittleEndien4bytes_def)
  then have "SendPgmImage S X Y img comment w = Inr (snd (ts_SocketWrite S img (snd (ts_SocketWrite S ?hdr w))))"
    by (simp add: SendPgmImage_def)
  moreover have wr: "\<exists>r. trace (snd (ts_SocketWrite S bs u)) = trace u @ [Sys_send (ts_connFd (srv u)) bs r] \<and>
      srv (snd (ts_SocketWrite S bs u)) = srv u" for bs and u :: "('a, 'b) tcp_world_scheme"
    by (simp add: ts_SocketWrite_def sys_send_def case_prod_beta)
  obtain r1 where "trace (snd (ts_SocketWrite S ?hdr w)) = trace w @ [Sys_send (ts_connFd (srv w)) ?hdr r1]"
    "srv (snd (ts_SocketWrite S ?hdr w)) = srv w" using wr by blast
  then obtain r2 where "trace (snd (ts_SocketWrite S img (snd (ts_SocketWrite S ?hdr w)))) =
      trace w @ [Sys_send (ts_connFd (srv w)) ?hdr r1, Sys_send (ts_connFd (srv w)) img r2]"
    using wr[of img "snd (ts_SocketWrite S ?hdr w)"] by auto
  moreover have "take 2 ?hdr = [0x16, 0xfe]" by (simp add: t)
  ultimately show ?thesis using val by blast
qed

lemma image_packet_framed_witness:
  "\<exists>v hdr r1 r2. SendPgmImage (host_kernel busy (0, EINTR)) 2 1 [0, 255] [] one_client = Inr v \<and>
     trace v = [Sys_accept 3 7, Sys_send (-1) hdr r1, Sys_send (-1) [0, 255] r2] \<and>
     take 2 hdr = [0x16, 0xfe] \<and> le_value (slice 2 6 hdr) = length (hdr @ [0, 255]) - 7"
proof -
  have "length (pgm_text 2 1 []) < 2048" by (simp add: pgm_text_def bytes_of_def dec_int_def dec.simps)
  from image_packet_framed[OF this, of "[0, 255]" "host_kernel busy (0, EINTR)" one_client]
  show ?thesis by (auto simp: one_client_def blank_socket_def)
qed

end
