(* ===== verification/Ipc.thy ===== *)
theory Ipc
  imports ServerThreads
begin

text \<open>
  The local sockets between the processes of the older layer (Ipc.h, Ipc.cpp): the server
  \<open>IPC\<close> with its thread, and the client \<open>IpcClient\<close>.  The path of the socket is kept in 100
  bytes from \<open>new\<close>, whose previous contents are the parameter \<open>mem\<close>; a string ends at the first
  zero.  A function that is declared to return \<open>int\<close> and returns nothing on some path has an
  optional result, \<open>None\<close> on that path; where it never returns a value it is modelled by its
  effect.
\<close>

unbundle bit_operations_syntax

section \<open>Paths\<close>

text \<open>\<open>memcpy(pPath, pStrPath, strlen(pStrPath))\<close> copies no terminating zero.\<close>

definition copy_path :: "string \<Rightarrow> string \<Rightarrow> string res" where
  "copy_path mem str = blit 0 str mem"

definition c_string :: "string \<Rightarrow> string res" where
  "c_string m =
     (if CHR 0x00 \<in> set m then Inr (takeWhile (\<lambda>c. c \<noteq> CHR 0x00) m) else Inl Out_of_bounds)"

lemma c_string_copy:
  assumes "copy_path mem str = Inr m" "CHR 0x00 \<notin> set str"
  shows "c_string m = (case c_string (drop (length str) mem) of Inl e \<Rightarrow> Inl e | Inr rest \<Rightarrow> Inr (str @ rest))"
proof -
  have "takeWhile (\<lambda>c. c \<noteq> CHR 0x00) (str @ xs) = str @ takeWhile (\<lambda>c. c \<noteq> CHR 0x00) xs" for xs
    using assms(2) by (induction str) auto
  then show ?thesis using assms by (auto simp: copy_path_def blit_Inr c_string_def)
qed

section \<open>The server\<close>

text \<open>
  \<open>ipc_thread\<close> and its exit flag are static variables of the file, shared by all servers.
  \<open>ipc_path\<close> is \<open>None\<close> for a null pointer.
\<close>

record ipc_server =
  ipc_socketFd :: int
  ipcFd :: int
  ipc_running :: bool
  ipc_path :: "string option"

record 'o ipc_world = "'o process" +
  ipc :: ipc_server
  ipc_thread :: stream

definition upd_ipc :: "(ipc_server \<Rightarrow> ipc_server) \<Rightarrow> ('o, 'z) ipc_world_scheme \<Rightarrow> ('o, 'z) ipc_world_scheme" where
  "upd_ipc f w = w\<lparr>ipc := f (ipc w)\<rparr>"

definition ipc_pathname :: "('o, 'z) ipc_world_scheme \<Rightarrow> string res" where
  "ipc_pathname w = (case ipc_path (ipc w) of None \<Rightarrow> Inl Null_dereference | Some m \<Rightarrow> c_string m)"

definition IPC_Bind :: "'o host_calls \<Rightarrow> string \<Rightarrow> ('o, 'z) ipc_world_scheme \<Rightarrow> int \<times> ('o, 'z) ipc_world_scheme" where
  "IPC_Bind S path w =
     (case sys_bind_un S (ipc_socketFd (ipc w)) path w of (r, w1) \<Rightarrow> (if r = -1 then -1 else 0, w1))"

definition IPC_Listen :: "'o host_calls \<Rightarrow> ('o, 'z) ipc_world_scheme \<Rightarrow> int \<times> ('o, 'z) ipc_world_scheme" where
  "IPC_Listen S w =
     (case sys_listen S (ipc_socketFd (ipc w)) w of (r, w1) \<Rightarrow> (if r = -1 then -1 else 0, w1))"

text \<open>The results of \<open>Bind\<close> and \<open>Listen\<close> are not used: \<open>Open\<close> succeeds once it has a socket.\<close>

definition IPC_Open :: "'o host_calls \<Rightarrow> ('o, 'z) ipc_world_scheme \<Rightarrow> (int \<times> ('o, 'z) ipc_world_scheme) res" where
  "IPC_Open S w =
     (if ipc_socketFd (ipc w) < 0 then
        (case sys_socket S w of (r, w1) \<Rightarrow>
           let w2 = upd_ipc (\<lambda>i. i\<lparr>ipc_socketFd := r\<rparr>) w1 in
           if r < 0 then Inr (-1, w2)
           else ebind (ipc_pathname w2) (\<lambda>path. Inr (0, snd (IPC_Listen S (snd (IPC_Bind S path w2))))))
      else Inr (0, w))"

definition IPC_new :: "'o host_calls \<Rightarrow> string \<Rightarrow> string \<Rightarrow> ('o, 'z) ipc_world_scheme \<Rightarrow> ('o, 'z) ipc_world_scheme res" where
  "IPC_new S mem pStrPath w =
     ebind (copy_path mem pStrPath) (\<lambda>m.
       let w1 = w\<lparr>ipc := \<lparr>ipc_socketFd = -1, ipcFd = -1, ipc_running = False, ipc_path = Some m\<rparr>\<rparr> in
       ebind (c_string m) (\<lambda>path.
         case sys_access S path w1 of (r, w2) \<Rightarrow>
           let w3 = (if r = -1 then w2 else snd (sys_unlink S path w2))
           in ebind (IPC_Open S w3) (\<lambda>(r', w4). Inr w4)))"

text \<open>
  The destructor: a descriptor is taken as open when it is not 0, and the path is passed to
  \<open>unlink\<close> after it was deleted.
\<close>

definition IPC_delete :: "'o host_calls \<Rightarrow> ('o, 'z) ipc_world_scheme \<Rightarrow> ('o, 'z) ipc_world_scheme res" where
  "IPC_delete S w =
     (let hang = (\<lambda>f u. if f \<noteq> 0 then snd (sys_close S f (snd (sys_shutdown S f SHUT_RDWR u))) else u);
          w1 = hang (ipc_socketFd (ipc w)) (hang (ipcFd (ipc w)) w)
      in if ipc_path (ipc w1) \<noteq> None then Inl Use_after_free else Inr w1)"

definition IPC_Close :: "'o host_calls \<Rightarrow> ('o, 'z) ipc_world_scheme \<Rightarrow> ('o, 'z) ipc_world_scheme" where
  "IPC_Close S w =
     (if ipc_socketFd (ipc w) \<noteq> 0
      then upd_ipc (\<lambda>i. i\<lparr>ipc_socketFd := -1\<rparr>) (snd (sys_close S (ipc_socketFd (ipc w)) w)) else w)"

definition IPC_Shutdown :: "'o host_calls \<Rightarrow> int \<Rightarrow> ('o, 'z) ipc_world_scheme \<Rightarrow> ('o, 'z) ipc_world_scheme" where
  "IPC_Shutdown S mode w =
     (if ipc_socketFd (ipc w) \<noteq> 0 then snd (sys_shutdown S (ipc_socketFd (ipc w)) SHUT_RDWR w) else w)"

definition IPC_Accept :: "'o host_calls \<Rightarrow> ('o, 'z) ipc_world_scheme \<Rightarrow> int \<times> ('o, 'z) ipc_world_scheme" where
  "IPC_Accept S w =
     (case sys_accept S (ipc_socketFd (ipc w)) w of ((r, peer), w1) \<Rightarrow>
        (r, upd_ipc (\<lambda>i. i\<lparr>ipcFd := r\<rparr>) w1))"

definition IpcRead :: "'o host_calls \<Rightarrow> nat \<Rightarrow> ('o, 'z) ipc_world_scheme \<Rightarrow>
    (int \<times> byte list) option \<times> ('o, 'z) ipc_world_scheme" where
  "IpcRead S len w =
     (if 0 < ipcFd (ipc w)
      then (case sys_read S (ipcFd (ipc w)) len w of ((r, bs, e), w1) \<Rightarrow> (Some (r, bs), w1)) else (None, w))"

definition IpcWrite :: "'o host_calls \<Rightarrow> byte list \<Rightarrow> ('o, 'z) ipc_world_scheme \<Rightarrow> int option \<times> ('o, 'z) ipc_world_scheme" where
  "IpcWrite S buf w =
     (if 0 < ipcFd (ipc w)
      then (case sys_write S (ipcFd (ipc w)) buf w of ((r, e), w1) \<Rightarrow> (Some r, w1)) else (None, w))"

text \<open>The rest of \<open>ProcessData\<close> is compiled out.\<close>

definition IPC_ProcessData :: "byte list option \<Rightarrow> int \<Rightarrow> int option" where
  "IPC_ProcessData buf len = (if len = 0 \<or> buf = None then Some (-1) else None)"

definition IPC_GetFd :: "('o, 'z) ipc_world_scheme \<Rightarrow> int" where
  "IPC_GetFd w = ipc_socketFd (ipc w)"

text \<open>\<open>SocketRead\<close> and \<open>SocketWrite\<close> only log.  \<open>new\<close> never gives a null buffer.\<close>

definition IPC_SocketRead :: "('o, 'z) ipc_world_scheme \<Rightarrow> ('o, 'z) ipc_world_scheme" where
  "IPC_SocketRead w = w"

definition IPC_SocketWrite :: "byte list \<Rightarrow> ('o, 'z) ipc_world_scheme \<Rightarrow> ('o, 'z) ipc_world_scheme" where
  "IPC_SocketWrite buf w = w"

definition SetConnFd :: "int \<Rightarrow> ('o, 'z) ipc_world_scheme \<Rightarrow> ('o, 'z) ipc_world_scheme" where
  "SetConnFd val w = upd_ipc (\<lambda>i. i\<lparr>ipcFd := val\<rparr>) w"

definition Starthread :: "('o, 'z) ipc_world_scheme \<Rightarrow> ('o, 'z) ipc_world_scheme res" where
  "Starthread w =
     (if ipc_running (ipc w) then Inr w
      else ebind (start_thread (ipc_thread w)) (\<lambda>t. Inr (upd_ipc (\<lambda>i. i\<lparr>ipc_running := True\<rparr>) (w\<lparr>ipc_thread := t\<rparr>))))"

definition IPC_StopThread :: "('o, 'z) ipc_world_scheme \<Rightarrow> ('o, 'z) ipc_world_scheme res" where
  "IPC_StopThread w =
     (if ipc_running (ipc w)
      then ebind (stop_thread (ipc_thread w)) (\<lambda>t. Inr (upd_ipc (\<lambda>i. i\<lparr>ipc_running := False\<rparr>) (w\<lparr>ipc_thread := t\<rparr>)))
      else Inr w)"

section \<open>The server's thread\<close>

text \<open>A failing \<open>accept\<close> ends the process.  \<open>lfd\<close> is the thread's local \<open>socketFd\<close>.\<close>

definition ipc_accept_event :: "'o host_calls \<Rightarrow> int \<Rightarrow> ('o, 'z) ipc_world_scheme \<Rightarrow> ('o, 'z) ipc_world_scheme res" where
  "ipc_accept_event S epfd w =
     (case IPC_Accept S w of (connFd, w1) \<Rightarrow>
        if connFd < 0 then Inl (Process_exit 1) else Inr (add_event S epfd connFd in_et w1))"

definition ipc_read_event :: "'o host_calls \<Rightarrow> int \<Rightarrow> int \<Rightarrow> ('o, 'z) ipc_world_scheme \<Rightarrow> ('o, 'z) ipc_world_scheme" where
  "ipc_read_event S epfd f w =
     (case sys_read S f 512 w of ((len, bs, e), w1) \<Rightarrow>
        if len = 0
        then SetConnFd (-1) (snd (sys_close S f (snd (sys_shutdown S f SHUT_RDWR (delete_event S epfd f in_et w1)))))
        else w1)"

definition ipc_event :: "'o host_calls \<Rightarrow> int \<Rightarrow> int \<Rightarrow> 32 word \<times> nat \<Rightarrow>
    ('o, 'z) ipc_world_scheme \<Rightarrow> ('o, 'z) ipc_world_scheme res" where
  "ipc_event S epfd lfd ev w =
     (if data_fd (snd ev) = lfd then ipc_accept_event S epfd w
      else if fst ev AND EPOLLIN \<noteq> 0 then Inr (ipc_read_event S epfd (data_fd (snd ev)) w)
      else Inr w)"

definition IPCThread :: "'o host_calls \<Rightarrow> nat \<Rightarrow> ('o, 'z) ipc_world_scheme \<Rightarrow> ('o, 'z) ipc_world_scheme res" where
  "IPCThread S n w =
     (case sys_epoll_create S w of (epfd, w1) \<Rightarrow>
        let lfd = IPC_GetFd w1
        in rounds (poll_round S epfd (ipc_event S epfd lfd)) n (add_event S epfd lfd in_et w1))"

section \<open>The client\<close>

text \<open>\<open>cl_sun_path\<close> is the path of \<open>clientSockAddr\<close>, whatever it holds before \<open>Open\<close>.\<close>

record ipc_client =
  cl_socketFd :: int
  cl_path :: string
  cl_sun_path :: string

definition IpcClient_new :: "string \<Rightarrow> string \<Rightarrow> string \<Rightarrow> ipc_client res" where
  "IpcClient_new mem sun pStrPath =
     ebind (copy_path mem pStrPath) (\<lambda>m. Inr \<lparr>cl_socketFd = -1, cl_path = m, cl_sun_path = sun\<rparr>)"

definition IpcClient_Open :: "'o host_calls \<Rightarrow> ipc_client \<Rightarrow> ('o, 'z) process_scheme \<Rightarrow>
    (int \<times> ipc_client \<times> ('o, 'z) process_scheme) res" where
  "IpcClient_Open S c w =
     (case sys_socket S w of (r, w1) \<Rightarrow>
        if r < 0 then Inr (-1, c\<lparr>cl_socketFd := -1\<rparr>, w1)
        else ebind (c_string (cl_path c)) (\<lambda>path. Inr (0, c\<lparr>cl_socketFd := r, cl_sun_path := path\<rparr>, w1)))"

definition IpcClient_Close :: "'o host_calls \<Rightarrow> ipc_client \<Rightarrow> ('o, 'z) process_scheme \<Rightarrow> ipc_client \<times> ('o, 'z) process_scheme" where
  "IpcClient_Close S c w =
     (if 0 < cl_socketFd c
      then (c\<lparr>cl_socketFd := -1\<rparr>, snd (sys_close S (cl_socketFd c) (snd (sys_shutdown S (cl_socketFd c) SHUT_RDWR w))))
      else (c, w))"

definition IpcClient_delete :: "'o host_calls \<Rightarrow> ipc_client \<Rightarrow> ('o, 'z) process_scheme \<Rightarrow> ('o, 'z) process_scheme" where
  "IpcClient_delete S c w = snd (IpcClient_Close S c w)"

definition IpcClient_Shutdown :: "int \<Rightarrow> ipc_client \<Rightarrow> ipc_client" where
  "IpcClient_Shutdown mode c = c"

definition IpcClient_GetFd :: "ipc_client \<Rightarrow> int" where
  "IpcClient_GetFd c = cl_socketFd c"

definition IpcClient_Read :: "'o host_calls \<Rightarrow> nat \<Rightarrow> ipc_client \<Rightarrow> ('o, 'z) process_scheme \<Rightarrow>
    (int \<times> byte list) option \<times> ('o, 'z) process_scheme" where
  "IpcClient_Read S len c w =
     (if 0 < cl_socketFd c
      then (case sys_read S (cl_socketFd c) len w of ((r, bs, e), w1) \<Rightarrow> (Some (r, bs), w1)) else (None, w))"

definition IpcClient_Write :: "'o host_calls \<Rightarrow> byte list \<Rightarrow> ipc_client \<Rightarrow> ('o, 'z) process_scheme \<Rightarrow>
    int option \<times> ('o, 'z) process_scheme" where
  "IpcClient_Write S buf c w =
     (if 0 < cl_socketFd c
      then (case sys_write S (cl_socketFd c) buf w of ((r, e), w1) \<Rightarrow> (Some r, w1)) else (None, w))"

definition TryConnect :: "'o host_calls \<Rightarrow> ipc_client \<Rightarrow> ('o, 'z) process_scheme \<Rightarrow>
    (int \<times> ipc_client \<times> ('o, 'z) process_scheme) res" where
  "TryConnect S c w =
     ebind (IpcClient_Open S c w) (\<lambda>(r0, c1, w1).
     ebind (c_string (cl_path c1)) (\<lambda>path.
       case sys_access S path w1 of (r, w2) \<Rightarrow>
         if r = -1 then Inr (-1, c1, w2)
         else (case sys_connect_un S (cl_socketFd c1) (cl_sun_path c1) w2 of (r', w3) \<Rightarrow>
                 Inr (if r' = -1 then -1 else 0, c1, w3))))"

definition TryDisconnect :: "'o host_calls \<Rightarrow> ipc_client \<Rightarrow> ('o, 'z) process_scheme \<Rightarrow> int \<times> ipc_client \<times> ('o, 'z) process_scheme" where
  "TryDisconnect S c w = (0, IpcClient_Close S c w)"

end
