(* ===== verification/IpcProps.thy ===== *)
theory IpcProps
  imports Ipc ServerThreadProps
begin

text \<open>
  The properties of the local sockets: which connection the server writes to, what the end of
  one connection does to another, and whether server and client meet at the same path.
\<close>

section \<open>Frame facts\<close>

lemma upd_ipc_simps [simp]:
  "ipc (upd_ipc f w) = f (ipc w)" "trace (upd_ipc f w) = trace w" "os (upd_ipc f w) = os w"
  by (simp_all add: upd_ipc_def)

lemma ipc_log [simp]: "ipc (log_call e k w) = ipc w"
  by (simp add: log_call_def)

lemma ipc_calls [simp]:
  "ipc (snd (sys_socket S w)) = ipc w" "ipc (snd (sys_epoll_create S w)) = ipc w"
  "ipc (snd (sys_listen S f w)) = ipc w" "ipc (snd (sys_accept S f w)) = ipc w"
  "ipc (snd (sys_read S f n w)) = ipc w" "ipc (snd (sys_shutdown S f h w)) = ipc w"
  "ipc (snd (sys_close S f w)) = ipc w" "ipc (snd (sys_epoll_ctl S ep c f ev d w)) = ipc w"
  "ipc (snd (sys_epoll_wait S ep n t w)) = ipc w"
  by (simp_all add: sys_eqs)

lemma ipc_event_ctl [simp]:
  "ipc (add_event S ep f ev w) = ipc w" "ipc (delete_event S ep f ev w) = ipc w"
  by (simp_all add: event_ctl_defs)

section \<open>The connection the server writes to\<close>

text \<open>The result of the last \<open>accept\<close> of a trace.\<close>

definition last_accepted :: "sysev list \<Rightarrow> int option" where
  "last_accepted es = fold (\<lambda>e a. case e of Sys_accept l r \<Rightarrow> Some r | _ \<Rightarrow> a) es None"

lemma last_accepted_snoc [simp]:
  "last_accepted (es @ [e]) = (case e of Sys_accept l r \<Rightarrow> Some r | _ \<Rightarrow> last_accepted es)"
  by (simp add: last_accepted_def split: sysev.splits)

lemma last_accepted_calls [simp]:
  "last_accepted (trace (snd (sys_epoll_create S w))) = last_accepted (trace w)"
  "last_accepted (trace (snd (sys_read S f n w))) = last_accepted (trace w)"
  "last_accepted (trace (snd (sys_shutdown S f h w))) = last_accepted (trace w)"
  "last_accepted (trace (snd (sys_close S f w))) = last_accepted (trace w)"
  "last_accepted (trace (snd (sys_epoll_ctl S ep c f ev d w))) = last_accepted (trace w)"
  "last_accepted (trace (snd (sys_epoll_wait S ep n t w))) = last_accepted (trace w)"
  "last_accepted (trace (snd (sys_accept S f w))) = Some (fst (fst (sys_accept S f w)))"
  by (simp_all add: sys_eqs)

definition ipc_inv :: "('o, 'z) ipc_world_scheme \<Rightarrow> bool" where
  "ipc_inv w \<longleftrightarrow> (0 < ipcFd (ipc w) \<longrightarrow>
     ipcFd (ipc w) \<in> open_fds (trace w) \<and> last_accepted (trace w) = Some (ipcFd (ipc w)))"

lemma ipc_accept_event_inv:
  "ipc_accept_event S epfd w = Inr v \<Longrightarrow> ipc_inv v"
  by (auto simp: ipc_accept_event_def IPC_Accept_def ipc_inv_def case_prod_beta event_ctl_defs split: if_splits)

lemma ipc_read_event_inv:
  assumes "ipc_inv w" shows "ipc_inv (ipc_read_event S epfd f w)"
proof -
  obtain len bs e w1 where r: "sys_read S f 512 w = ((len, bs, e), w1)" by (metis prod.collapse)
  have "w1 = snd (sys_read S f 512 w)" using r by simp
  then have "ipc w1 = ipc w" "open_fds (trace w1) = open_fds (trace w)" "last_accepted (trace w1) = last_accepted (trace w)"
    by simp_all
  then show ?thesis using assms r by (simp add: ipc_read_event_def ipc_inv_def SetConnFd_def)
qed

lemma ipc_event_inv:
  assumes "ipc_inv w"
  shows "case ipc_event S epfd lfd ev w of Inl e \<Rightarrow> e = Process_exit 1 | Inr v \<Rightarrow> ipc_inv v"
proof (cases "data_fd (snd ev) = lfd")
  case True
  show ?thesis
  proof (cases "ipc_accept_event S epfd w")
    case (Inl e)
    then have "e = Process_exit 1" by (auto simp: ipc_accept_event_def case_prod_beta split: if_splits)
    then show ?thesis using True Inl by (simp add: ipc_event_def)
  next
    case (Inr v)
    then show ?thesis using True ipc_accept_event_inv[OF Inr] by (simp add: ipc_event_def)
  qed
next
  case False
  then show ?thesis using ipc_read_event_inv[OF assms] assms by (simp add: ipc_event_def)
qed

lemma foldE_events_inv:
  assumes "ipc_inv w"
  shows "case foldE (ipc_event S epfd lfd) evs w of Inl e \<Rightarrow> e = Process_exit 1 | Inr v \<Rightarrow> ipc_inv v"
  using assms
proof (induction evs arbitrary: w)
  case (Cons ev evs)
  show ?case
    using ipc_event_inv[OF Cons.prems, of S epfd lfd ev] Cons.IH
    by (cases "ipc_event S epfd lfd ev w") auto
qed simp

lemma ipc_round_inv:
  assumes "ipc_inv w"
  shows "case poll_round S epfd (ipc_event S epfd lfd) w of Inl e \<Rightarrow> e = Process_exit 1 | Inr v \<Rightarrow> ipc_inv v"
proof -
  obtain n evs w1 where e: "sys_epoll_wait S epfd MAX_EVENTS 500 w = ((n, evs), w1)" by (metis prod.collapse)
  have "w1 = snd (sys_epoll_wait S epfd MAX_EVENTS 500 w)" using e by simp
  then have "ipc_inv w1" using assms by (simp add: ipc_inv_def)
  from foldE_events_inv[OF this] show ?thesis by (simp add: poll_round_def e)
qed

lemma ipc_rounds_inv:
  assumes "ipc_inv w"
  shows "case rounds (poll_round S epfd (ipc_event S epfd lfd)) n w of Inl e \<Rightarrow> e = Process_exit 1 | Inr v \<Rightarrow> ipc_inv v"
  using assms
proof (induction n arbitrary: w)
  case (Suc n)
  show ?case
    using ipc_round_inv[OF Suc.prems, of S epfd lfd] Suc.IH
    by (cases "poll_round S epfd (ipc_event S epfd lfd) w") auto
qed simp

lemma IPCThread_inv:
  assumes "ipc_inv w"
  shows "case IPCThread S n w of Inl e \<Rightarrow> e = Process_exit 1 | Inr v \<Rightarrow> ipc_inv v"
proof -
  obtain ep w1 where e: "sys_epoll_create S w = (ep, w1)" by (metis prod.collapse)
  have "w1 = snd (sys_epoll_create S w)" using e by simp
  then have "ipc_inv (add_event S ep f ev w1)" for f ev
    using assms by (simp add: ipc_inv_def event_ctl_defs)
  from ipc_rounds_inv[OF this] show ?thesis by (simp add: IPCThread_def Let_def e)
qed

text \<open>C22: The server never writes to a closed connection: after any number of rounds its thread has
  either ended the process because \<open>accept\<close> failed, or \<open>IpcWrite\<close> writes to the connection
  accepted last, which is still open, or does not write at all.\<close>
theorem ipc_writes_to_newest:
  assumes "ipcFd (ipc w) \<le> 0"
  shows "case IPCThread S n w of
           Inl e \<Rightarrow> e = Process_exit 1
         | Inr v \<Rightarrow> IpcWrite S bs v = (None, v) \<or>
             (\<exists>f r u. IpcWrite S bs v = (Some r, u) \<and> trace u = trace v @ [Sys_write f bs r] \<and>
                f \<in> open_fds (trace v) \<and> last_accepted (trace v) = Some f)"
proof -
  have "ipc_inv w" using assms by (simp add: ipc_inv_def)
  from IPCThread_inv[OF this, of S n] show ?thesis
    by (auto simp: ipc_inv_def IpcWrite_def sys_eqs case_prod_beta Let_def split: sum.splits)
qed

text \<open>A server that has bound descriptor 3.\<close>

definition ipc_process :: "nat ipc_world" where
  "ipc_process = \<lparr>os = 0, trace = [],
     ipc = \<lparr>ipc_socketFd = 3, ipcFd = -1, ipc_running = True, ipc_path = Some (''/tmp/a'' @ [CHR 0x00])\<rparr>,
     ipc_thread = \<lparr>joinable = True, stream_exit = False\<rparr>\<rparr>"

lemma ipc_writes_to_newest_witness:
  "case IPCThread (host_kernel busy (0, EINTR)) 4 ipc_process of
     Inl e \<Rightarrow> e = Process_exit 1
   | Inr v \<Rightarrow> IpcWrite (host_kernel busy (0, EINTR)) [1] v = (None, v) \<or>
       (\<exists>f r u. IpcWrite (host_kernel busy (0, EINTR)) [1] v = (Some r, u) \<and> trace u = trace v @ [Sys_write f [1] r] \<and>
          f \<in> open_fds (trace v) \<and> last_accepted (trace v) = Some f)"
  by (rule ipc_writes_to_newest) (simp add: ipc_process_def)

section \<open>Two clients\<close>

text \<open>C24: The end of one connection silences another: with two clients connected, when the older one
  hangs up, the server forgets the newer one.  It stays open, but \<open>IpcWrite\<close> no longer writes
  to it, and returns without a value.\<close>
theorem older_client_silences:
  assumes "ipcFd (ipc w) = b" "{a, b} \<subseteq> open_fds (trace w)" "a \<noteq> b"
    and "data_fd d = a" "a \<noteq> lfd" "fst (fst (os_read S a 512 (os w))) = 0"
  shows "\<exists>v. ipc_event S epfd lfd (EPOLLIN, d) w = Inr v \<and> b \<in> open_fds (trace v) \<and>
           (\<forall>bs. IpcWrite S bs v = (None, v))"
proof -
  let ?r = "sys_read S a 512 w"
  have z: "fst (fst ?r) = 0" using assms(6) by (simp add: sys_eqs Let_def)
  obtain bs e w1 where r: "?r = ((0, bs, e), w1)" using z by (metis prod.collapse)
  have "w1 = snd ?r" using r by simp
  then have w1: "open_fds (trace w1) = open_fds (trace w)" by simp
  let ?v = "ipc_read_event S epfd a w"
  have "b \<in> open_fds (trace ?v)" using assms(2,3) r w1 by (simp add: ipc_read_event_def SetConnFd_def)
  moreover have "IpcWrite S bs ?v = (None, ?v)" for bs by (simp add: ipc_read_event_def r SetConnFd_def IpcWrite_def)
  ultimately show ?thesis using assms(4,5) by (simp add: ipc_event_def EPOLLIN_def)
qed

text \<open>Clients 6 and 7 are connected, 7 being the newer one.\<close>

definition two_clients :: "nat ipc_world" where
  "two_clients = ipc_process\<lparr>ipc := (ipc ipc_process)\<lparr>ipcFd := 7\<rparr>, trace := [Sys_accept 3 6, Sys_accept 3 7]\<rparr>"

lemma older_client_silences_witness:
  "\<exists>v. ipc_event (host_kernel busy (0, EINTR)) 5 3 (EPOLLIN, 6) two_clients = Inr v \<and> 7 \<in> open_fds (trace v) \<and>
     (\<forall>bs. IpcWrite (host_kernel busy (0, EINTR)) bs v = (None, v))"
  by (rule older_client_silences[where a = 6])
    (simp_all add: two_clients_def ipc_process_def open_fds_def host_kernel_def data_fd_def size_to_int_def)

section \<open>Paths\<close>

text \<open>What follows the copied path in the fresh memory, up to the first zero.\<close>

definition leftover :: "string \<Rightarrow> string \<Rightarrow> string" where
  "leftover mem p = takeWhile (\<lambda>c. c \<noteq> CHR 0x00) (drop (length p) mem)"

lemma c_string_leftover:
  assumes "copy_path mem p = Inr m" "CHR 0x00 \<notin> set p" "c_string m = Inr q"
  shows "q = p @ leftover mem p"
  using assms(3) c_string_copy[OF assms(1,2)]
  by (auto simp: c_string_def leftover_def split: if_splits)

lemma leftover_empty:
  assumes "length p < length mem"
  shows "leftover mem p = [] \<longleftrightarrow> mem ! length p = CHR 0x00"
  using assms by (auto simp: leftover_def Cons_nth_drop_Suc[symmetric])

lemma trace_sys_un [simp]:
  "trace (snd (sys_access S q w)) = trace w @ [Sys_access q (fst (sys_access S q w))]"
  "trace (snd (sys_unlink S q w)) = trace w @ [Sys_unlink q (fst (sys_unlink S q w))]"
  "ipc (snd (sys_access S q u)) = ipc u" "ipc (snd (sys_unlink S q u)) = ipc u"
  "ipc (snd (sys_bind_un S f q u)) = ipc u"
  "trace (snd (sys_bind_un S f q w)) = trace w @ [Sys_bind_un f q (fst (sys_bind_un S f q w))]"
  by (simp_all add: host_defs case_prod_beta)

lemma IPC_Open_binds:
  assumes "IPC_Open S w = Inr (r, v)" "ipc_socketFd (ipc w) = -1" "ipc_path (ipc w) = Some m" "c_string m = Inr q"
    and "0 \<le> fst (os_socket S (os w))"
  shows "\<exists>f r. Sys_bind_un f q r \<in> set (trace v)"
proof -
  let ?s = "sys_socket S w"
  have f: "0 \<le> fst ?s" using assms(5) by (simp add: sys_eqs Let_def)
  let ?w2 = "upd_ipc (\<lambda>i. i\<lparr>ipc_socketFd := fst ?s\<rparr>) (snd ?s)"
  have "v = snd (IPC_Listen S (snd (IPC_Bind S q ?w2)))"
    using assms f by (auto simp: IPC_Open_def case_prod_beta Let_def ipc_pathname_def)
  then have "Sys_bind_un (fst ?s) q (fst (sys_bind_un S (fst ?s) q ?w2)) \<in> set (trace v)"
    by (simp add: IPC_Listen_def IPC_Bind_def case_prod_beta sys_eqs Let_def log_call_def)
  then show ?thesis by blast
qed

lemma IPC_new_binds:
  assumes "IPC_new S mem p w = Inr v" "CHR 0x00 \<notin> set p" "\<And>k. 0 \<le> fst (os_socket S k)"
  shows "\<exists>f r. Sys_bind_un f (p @ leftover mem p) r \<in> set (trace v)"
proof -
  obtain m q u r where m: "copy_path mem p = Inr m" "c_string m = Inr q" and o: "IPC_Open S u = Inr (r, v)"
    and u: "ipc u = \<lparr>ipc_socketFd = -1, ipcFd = -1, ipc_running = False, ipc_path = Some m\<rparr>"
  proof -
    assume a: "\<And>m q u r. copy_path mem p = Inr m \<Longrightarrow> c_string m = Inr q \<Longrightarrow> IPC_Open S u = Inr (r, v) \<Longrightarrow>
      ipc u = \<lparr>ipc_socketFd = -1, ipcFd = -1, ipc_running = False, ipc_path = Some m\<rparr> \<Longrightarrow> thesis"
    from assms(1) obtain m where m: "copy_path mem p = Inr m" by (auto simp: IPC_new_def ebind_eq_Inr)
    let ?w1 = "w\<lparr>ipc := \<lparr>ipc_socketFd = -1, ipcFd = -1, ipc_running = False, ipc_path = Some m\<rparr>\<rparr>"
    from assms(1) m obtain q where q: "c_string m = Inr q" by (auto simp: IPC_new_def ebind_eq_Inr Let_def)
    let ?a = "sys_access S q ?w1"
    let ?u = "if fst ?a = -1 then snd ?a else snd (sys_unlink S q (snd ?a))"
    from assms(1) m q obtain r where "IPC_Open S ?u = Inr (r, v)"
      by (auto simp: IPC_new_def ebind_eq_Inr Let_def case_prod_beta)
    moreover have "ipc ?u = \<lparr>ipc_socketFd = -1, ipcFd = -1, ipc_running = False, ipc_path = Some m\<rparr>" by simp
    ultimately show thesis using a m q by blast
  qed
  have "q = p @ leftover mem p" using c_string_leftover[OF m(1) assms(2) m(2)] .
  then show ?thesis using IPC_Open_binds[OF o, of m q] u m(2) assms(3) by simp
qed

lemma TryConnect_connects:
  assumes "IpcClient_new mem sun p = Inr c" "TryConnect S c w = Inr (0, c1, v)" "CHR 0x00 \<notin> set p"
    and "\<And>k. 0 \<le> fst (os_socket S k)"
  shows "\<exists>f. Sys_connect_un f (p @ leftover mem p) (fst (os_connect_un S f (p @ leftover mem p)
      (snd (os_access S (p @ leftover mem p) (snd (os_socket S (os w))))))) \<in> set (trace v)"
proof -
  from assms(1) obtain m where m: "copy_path mem p = Inr m" "c = \<lparr>cl_socketFd = -1, cl_path = m, cl_sun_path = sun\<rparr>"
    by (auto simp: IpcClient_new_def ebind_eq_Inr)
  obtain q where q: "c_string m = Inr q"
    using assms(2,4) m(2) by (auto simp: TryConnect_def IpcClient_Open_def ebind_eq_Inr case_prod_beta sys_eqs Let_def split: if_splits)
  have "q = p @ leftover mem p" using c_string_leftover[OF m(1) assms(3) q] .
  then show ?thesis using assms(2) assms(4)[of "os w"] m(2) q
    by (auto simp: TryConnect_def IpcClient_Open_def case_prod_beta sys_eqs Let_def host_defs split: if_splits)
qed

text \<open>Server and client need not meet at the path they were given: both copy it without a
  terminating zero, so the server binds and the client connects to the path followed by what
  the fresh memory held up to the next zero.  They use the path itself exactly if the byte
  behind the copy happened to be zero.\<close>
lemma ipc_paths:
  assumes "CHR 0x00 \<notin> set p" "length p < length m1" "length p < length m2" "\<And>k. 0 \<le> fst (os_socket S k)"
    and "IPC_new S m1 p w = Inr v" "IpcClient_new m2 sun p = Inr c" "TryConnect S c w' = Inr (0, c1, v')"
  shows "\<exists>x y. (\<exists>f r. Sys_bind_un f (p @ x) r \<in> set (trace v)) \<and> (\<exists>f r. Sys_connect_un f (p @ y) r \<in> set (trace v')) \<and>
           (x = [] \<longleftrightarrow> m1 ! length p = CHR 0x00) \<and> (y = [] \<longleftrightarrow> m2 ! length p = CHR 0x00)"
  using IPC_new_binds[OF assms(5,1,4)] TryConnect_connects[OF assms(6,7,1,4)] leftover_empty assms(2,3) by blast

text \<open>Fresh memory: all zero, or with one byte left of an earlier use behind the path.\<close>

definition zero_memory :: string where "zero_memory = replicate 100 (CHR 0x00)"
definition used_memory :: string where "used_memory = ''......9'' @ replicate 93 (CHR 0x00)"

lemma memory_facts:
  "length zero_memory = 100" "length used_memory = 100" "used_memory ! 6 = CHR ''9''" "zero_memory ! 6 = CHR 0x00"
  by (simp_all add: zero_memory_def used_memory_def)

definition zero_copy :: string where "zero_copy = ''/tmp/a'' @ replicate 94 (CHR 0x00)"
definition used_copy :: string where "used_copy = ''/tmp/a9'' @ replicate 93 (CHR 0x00)"

lemma memory_copies:
  "copy_path zero_memory ''/tmp/a'' = Inr zero_copy" "copy_path used_memory ''/tmp/a'' = Inr used_copy"
  "c_string zero_copy = Inr ''/tmp/a''" "c_string used_copy = Inr ''/tmp/a9''"
  by (simp_all add: copy_path_def blit_def c_string_def zero_memory_def used_memory_def zero_copy_def used_copy_def)

lemma ipc_paths_witness:
  "\<exists>v c c1 v' x y. IPC_new (host_kernel busy (0, EINTR)) used_memory ''/tmp/a'' ipc_process = Inr v \<and>
     IpcClient_new zero_memory [] ''/tmp/a'' = Inr c \<and>
     TryConnect (host_kernel busy (0, EINTR)) c ipc_process = Inr (0, c1, v') \<and>
     (\<exists>f r. Sys_bind_un f (''/tmp/a'' @ x) r \<in> set (trace v)) \<and> (\<exists>f r. Sys_connect_un f (''/tmp/a'' @ y) r \<in> set (trace v')) \<and>
     x \<noteq> [] \<and> y = []"
proof -
  let ?S = "host_kernel busy (0, EINTR)"
  have "\<exists>v. IPC_new ?S used_memory ''/tmp/a'' ipc_process = Inr v"
    by (simp add: IPC_new_def memory_copies IPC_Open_def case_prod_beta ipc_pathname_def Let_def
        host_kernel_def sys_eqs host_defs)
  then obtain v where v: "IPC_new ?S used_memory ''/tmp/a'' ipc_process = Inr v" by blast
  let ?c = "\<lparr>cl_socketFd = -1, cl_path = zero_copy, cl_sun_path = []\<rparr>"
  have c: "IpcClient_new zero_memory [] ''/tmp/a'' = Inr ?c" by (simp add: IpcClient_new_def memory_copies)
  have "\<exists>c1 v'. TryConnect ?S ?c ipc_process = Inr (0, c1, v')"
    by (simp add: TryConnect_def IpcClient_Open_def memory_copies case_prod_beta host_kernel_def sys_eqs host_defs)
  then obtain c1 v' where t: "TryConnect ?S ?c ipc_process = Inr (0, c1, v')" by blast
  have len: "length ''/tmp/a'' = 6" by simp
  have "\<exists>x y. (\<exists>f r. Sys_bind_un f (''/tmp/a'' @ x) r \<in> set (trace v)) \<and> (\<exists>f r. Sys_connect_un f (''/tmp/a'' @ y) r \<in> set (trace v')) \<and>
      (x = [] \<longleftrightarrow> used_memory ! length ''/tmp/a'' = CHR 0x00) \<and> (y = [] \<longleftrightarrow> zero_memory ! length ''/tmp/a'' = CHR 0x00)"
    by (rule ipc_paths[OF _ _ _ _ v c t]) (simp_all add: memory_facts host_kernel_def)
  then have "\<exists>x y. (\<exists>f r. Sys_bind_un f (''/tmp/a'' @ x) r \<in> set (trace v)) \<and> (\<exists>f r. Sys_connect_un f (''/tmp/a'' @ y) r \<in> set (trace v'))
      \<and> x \<noteq> [] \<and> y = []"
    unfolding len memory_facts by auto
  then show ?thesis using v c t by blast
qed

end
