(* ===== verification/ServerProcess.thy ===== *)
theory ServerProcess
  imports ServerThreadProps Ipc
begin

text \<open>
  \<open>ConcurrentProcess\<close> of TcpServerSocket.cpp: the concurrent server as a child process that
  reports to its parent over a local socket.  \<open>pid\<close> is what \<open>fork\<close> returns.  In the child no
  other thread runs, so the loop ends only by the command the parent sends; after \<open>n\<close> rounds
  without it the value is \<open>None\<close>.  \<open>waitpid\<close>, \<open>prctl\<close> and \<open>getpid\<close> have no effect on the state.

  \<open>sock_buff\<close> and \<open>ipc_buff\<close> are the local arrays \<open>buff\<close> and \<open>IPCbuff\<close> of 1024 bytes, with
  arbitrary contents at first.
\<close>

unbundle bit_operations_syntax

section \<open>State\<close>

record 'o child_world = "'o tcp_world" +
  gIpcClientPtr :: "ipc_client option"
  sock_buff :: "byte list"
  ipc_buff :: "byte list"

definition the_client :: "('o, 'z) child_world_scheme \<Rightarrow> ipc_client res" where
  "the_client w = (case gIpcClientPtr w of None \<Rightarrow> Inl Null_dereference | Some c \<Rightarrow> Inr c)"

text \<open>What \<open>read\<close> stores in an array, and \<open>memset(a, 0, n)\<close> on it.\<close>

definition stored :: "int \<Rightarrow> byte list \<Rightarrow> byte list" where
  "stored r bs = (if 0 < r then take (nat r) bs else [])"

definition overlay :: "byte list \<Rightarrow> byte list \<Rightarrow> byte list" where
  "overlay new old = new @ drop (length new) old"

definition zero_prefix :: "int \<Rightarrow> byte list \<Rightarrow> byte list res" where
  "zero_prefix n a = (if 0 \<le> n \<and> nat n \<le> length a then Inr (overlay (replicate (nat n) 0) a) else Inl Out_of_bounds)"

section \<open>Events\<close>

text \<open>
  A message of the parent.  \<open>if(num = 3)\<close> assigns: the test is always true, and the first
  three bytes are cleared afterwards, however many were read.
\<close>

definition ipc_command :: "'o host_calls \<Rightarrow> ('o, 'z) child_world_scheme \<Rightarrow> ('o, 'z) child_world_scheme res" where
  "ipc_command S w =
     ebind (the_client w) (\<lambda>c.
       case IpcClient_Read S 512 c w of
         (None, w1) \<Rightarrow> Inl Indeterminate
       | (Some (r, bs), w1) \<Rightarrow>
           let b = overlay (stored r bs) (ipc_buff w1);
               w2 = w1\<lparr>ipc_buff := b, last_num := 3\<rparr>;
               w3 = (if take 3 b = [1, 2, 3] then upd_srv (\<lambda>t. t\<lparr>isThreadRunning := False\<rparr>) w2 else w2)
           in ebind (zero_prefix 3 b) (\<lambda>b'. Inr (w3\<lparr>ipc_buff := b'\<rparr>)))"

text \<open>What a client sent is passed on to the parent; the result of the write is not used.\<close>

definition forward :: "'o host_calls \<Rightarrow> int \<Rightarrow> byte list \<Rightarrow> ('o, 'z) child_world_scheme \<Rightarrow> ('o, 'z) child_world_scheme res" where
  "forward S num bs w =
     ebind (the_client w) (\<lambda>c.
       let b = overlay (stored num bs) (sock_buff w);
           w1 = snd (IpcClient_Write S (take (nat num) b) c w)
       in ebind (zero_prefix num b) (\<lambda>b'. Inr (w1\<lparr>sock_buff := b'\<rparr>)))"

definition child_read_event :: "'o host_calls \<Rightarrow> int \<Rightarrow> int \<Rightarrow> ('o, 'z) child_world_scheme \<Rightarrow> ('o, 'z) child_world_scheme res" where
  "child_read_event S epfd f w =
     (case sys_read S f 512 w of ((num, bs, errno), w0) \<Rightarrow>
        let w1 = w0\<lparr>last_num := num\<rparr> in
        if num < 0 then
          Inr (if errno = ECONNRESET then delete_event S epfd f in_et (snd (sys_close S f w1)) else w1)
        else if num = 0 then conc_eof S f (delete_event S epfd f in_et w1)
        else forward S num bs w1)"

text \<open>\<open>write(tmpSockFd, buff, num)\<close> with the number of the last read, then a change of interest.\<close>

definition child_write_event :: "'o host_calls \<Rightarrow> int \<Rightarrow> int \<Rightarrow> int \<Rightarrow> ('o, 'z) child_world_scheme \<Rightarrow> ('o, 'z) child_world_scheme res" where
  "child_write_event S epfd ipf f w =
     ebind (zero_prefix (last_num w) (sock_buff w)) (\<lambda>b'.
       let w1 = (if f = ipf then w
                 else modify_event S epfd f in_et (snd (sys_write S f (take (nat (last_num w)) (sock_buff w)) w)))
       in Inr (w1\<lparr>sock_buff := b'\<rparr>))"

definition child_event :: "'o host_calls \<Rightarrow> int \<Rightarrow> int \<Rightarrow> int \<Rightarrow> 32 word \<times> nat \<Rightarrow>
    ('o, 'z) child_world_scheme \<Rightarrow> ('o, 'z) child_world_scheme res" where
  "child_event S epfd ifcFd ipf ev w =
     (let f = data_fd (snd ev) in
      if f = ts_socketFd (srv w) then dev_accept_event S epfd w
      else if f = ifcFd then ifc_accept_event S epfd w
      else if fst ev AND EPOLLIN \<noteq> 0 then
        (if f = ipf then ipc_command S w else child_read_event S epfd f w)
      else if fst ev AND EPOLLOUT \<noteq> 0 then child_write_event S epfd ipf f w
      else Inr w)"

section \<open>The process\<close>

fun child_loop :: "(('o, 'z) child_world_scheme \<Rightarrow> ('o, 'z) child_world_scheme res) \<Rightarrow> nat \<Rightarrow>
    ('o, 'z) child_world_scheme \<Rightarrow> ('o, 'z) child_world_scheme res option" where
  "child_loop body 0 w = (if isThreadRunning (srv w) then None else Some (Inr w))"
| "child_loop body (Suc n) w =
     (if isThreadRunning (srv w)
      then (case body w of Inl e \<Rightarrow> Some (Inl e) | Inr v \<Rightarrow> child_loop body n v) else Some (Inr w))"

text \<open>The set-up between the connection to the parent and the loop; \<open>num\<close> is -1.\<close>

definition child_setup :: "'o host_calls \<Rightarrow> ipc_client \<Rightarrow> ('o, 'z) child_world_scheme \<Rightarrow>
    (int \<times> int \<times> int \<times> ('o, 'z) child_world_scheme) res" where
  "child_setup S c w =
     ebind (conc_setup S w) (\<lambda>(epfd, ifcFd, w1).
       Inr (epfd, ifcFd, cl_socketFd c, add_event S epfd (cl_socketFd c) in_et w1))"

text \<open>The end of the child: only the interface's connections are closed before \<open>_exit(0)\<close>.\<close>

definition child_exit :: "'o host_calls \<Rightarrow> int \<Rightarrow> int \<Rightarrow> int \<Rightarrow> ('o, 'z) child_world_scheme \<Rightarrow> ('o, 'z) child_world_scheme res" where
  "child_exit S epfd ifcFd ipf w =
     (let w1 = delete_event S epfd (ts_socketFd (srv w)) in_et
                 (delete_event S epfd ifcFd in_et (delete_event S epfd ipf in_et w))
      in ebind (the_ifc w1) (\<lambda>i.
         ebind (ifc_CloseAllConnections S i w1) (\<lambda>(i1, w2).
         case ifc_Close S i1 w2 of (i2, w3) \<Rightarrow>
         ebind (the_client w3) (\<lambda>c.
         case TryDisconnect S c (set_ifc i2 w3) of (r, c1, w4) \<Rightarrow>
           Inr (ts_Close S (w4\<lparr>gIpcClientPtr := Some c1\<rparr>))))))"

text \<open>The child from its connection to the state in which it calls \<open>_exit(0)\<close>.\<close>

definition child_main :: "'o host_calls \<Rightarrow> nat \<Rightarrow> ipc_client \<Rightarrow> ('o, 'z) child_world_scheme \<Rightarrow> ('o, 'z) child_world_scheme res option" where
  "child_main S n c w =
     (case child_setup S c w of
        Inl e \<Rightarrow> Some (Inl e)
      | Inr (epfd, ifcFd, ipf, w1) \<Rightarrow>
          (case child_loop (poll_round S epfd (child_event S epfd ifcFd ipf)) n w1 of
             None \<Rightarrow> None
           | Some (Inl e) \<Rightarrow> Some (Inl e)
           | Some (Inr v) \<Rightarrow> Some (child_exit S epfd ifcFd ipf v)))"

definition ConcurrentProcess :: "'o host_calls \<Rightarrow> nat \<Rightarrow> int \<Rightarrow> ('o, 'z) child_world_scheme \<Rightarrow> ('o, 'z) child_world_scheme res option" where
  "ConcurrentProcess S n pid w =
     (if pid < 0 then Some (Inl (Process_exit (-1)))
      else if pid = 0 then
        (case gIpcClientPtr w of
           None \<Rightarrow> Some (Inr w)
         | Some c0 \<Rightarrow>
             (case TryConnect S c0 w of
                Inl e \<Rightarrow> Some (Inl e)
              | Inr (r, c, w1) \<Rightarrow>
                  if r = -1 then Some (Inr (w1\<lparr>gIpcClientPtr := Some c\<rparr>))
                  else (case child_main S n c (w1\<lparr>gIpcClientPtr := Some c\<rparr>) of
                          None \<Rightarrow> None
                        | Some (Inl e) \<Rightarrow> Some (Inl e)
                        | Some (Inr v) \<Rightarrow> Some (Inl (Process_exit 0)))))
      else Some (Inr w))"

section \<open>Messages of the host\<close>

text \<open>Both handlers only test the pointer; the rest of their bodies is compiled out.\<close>

definition ProcessDataFromHost :: "byte list option \<Rightarrow> int \<Rightarrow> int" where
  "ProcessDataFromHost buf len = (if buf = None then -1 else 0)"

definition ProcessAndSendingImageData :: "byte list option \<Rightarrow> int \<Rightarrow> int" where
  "ProcessAndSendingImageData buf len = (if buf = None then -1 else 0)"

end
