(* ===== verification/ServerProcessProps.thy ===== *)
theory ServerProcessProps
  imports ServerProcess
begin

text \<open>
  The properties of the server as a child process.  The invariant of the threads
  (\<open>ServerThreadInv\<close>) carries over event by event; beside it, the connection to the parent and
  the two arrays stay as they are while the loop runs.
\<close>

unbundle bit_operations_syntax

section \<open>Frame facts\<close>

text \<open>What the operations of the server leave alone: everything beyond the server's own state.\<close>

lemma more_log [simp]: "tcp_world.more (log_call e k w) = tcp_world.more w"
  by (simp add: log_call_def)

lemma more_upd_srv [simp]: "tcp_world.more (upd_srv f w) = tcp_world.more w"
  by (simp add: upd_srv_def)

lemma more_calls [simp]:
  "tcp_world.more (snd (sys_socket S w)) = tcp_world.more w"
  "tcp_world.more (snd (sys_epoll_create S w)) = tcp_world.more w"
  "tcp_world.more (snd (sys_setsockopt S f opt b w)) = tcp_world.more w"
  "tcp_world.more (snd (sys_bind S f a w)) = tcp_world.more w"
  "tcp_world.more (snd (sys_listen S f w)) = tcp_world.more w"
  "tcp_world.more (snd (sys_accept S f w)) = tcp_world.more w"
  "tcp_world.more (snd (sys_read S f n w)) = tcp_world.more w"
  "tcp_world.more (snd (sys_write S f bs w)) = tcp_world.more w"
  "tcp_world.more (snd (sys_shutdown S f h w)) = tcp_world.more w"
  "tcp_world.more (snd (sys_close S f w)) = tcp_world.more w"
  "tcp_world.more (snd (sys_epoll_ctl S ep c f ev d w)) = tcp_world.more w"
  "tcp_world.more (snd (sys_epoll_wait S ep n t w)) = tcp_world.more w"
  by (simp_all add: sys_eqs)

lemma more_ctl [simp]:
  "tcp_world.more (add_event S ep f ev w) = tcp_world.more w"
  "tcp_world.more (delete_event S ep f ev w) = tcp_world.more w"
  by (simp_all add: event_ctl_defs)

lemma more_reg [simp]:
  "tcp_world.more (set_dev m w) = tcp_world.more w" "tcp_world.more (set_ifc i w) = tcp_world.more w"
  "tcp_world.more (reset_connFd w) = tcp_world.more w" "tcp_world.more (w\<lparr>last_num := k\<rparr>) = tcp_world.more w"
  by (simp_all add: reg_access)

lemma ts_Accept_more: "ts_Accept S w = Inr (r, v) \<Longrightarrow> tcp_world.more v = tcp_world.more w"
  by (auto simp: ts_Accept_def ts_Close_fd_def Let_def case_prod_beta ebind_eq_Inr split: option.splits if_splits)

lemma ifc_Accept_more: "tcp_world.more (snd (snd (ifc_Accept S i w))) = tcp_world.more w"
  by (auto simp: ifc_Accept_def ifc_Close_fd_def Let_def case_prod_beta)

lemma dev_accept_event_more: "dev_accept_event S epfd w = Inr v \<Longrightarrow> tcp_world.more v = tcp_world.more w"
  by (auto simp: dev_accept_event_def Let_def ebind_eq_Inr dest: ts_Accept_more split: if_splits)

lemma ifc_accept_event_more:
  assumes "ifc_accept_event S epfd w = Inr v" shows "tcp_world.more v = tcp_world.more w"
  using assms ifc_Accept_more[of S _ w]
  by (auto simp: ifc_accept_event_def Let_def ebind_eq_Inr case_prod_beta split: if_splits)

lemma conc_eof_more: "conc_eof S f w = Inr v \<Longrightarrow> tcp_world.more v = tcp_world.more w"
  by (auto simp: conc_eof_def ts_CheckFd_def ifc_Close_fd_def Let_def ebind_eq_Inr case_prod_beta split: if_splits)

lemma conc_setup_more: 
  assumes "conc_setup S w = Inr (epfd, l, v)" shows "tcp_world.more v = tcp_world.more w"
  using assms
  by (auto simp: conc_setup_def SetUpTcpInterfaceSocket_def ifc_Open_def ts_Listen_def ts_Bind_def ts_SetSocketOpt_def
      ts_Open_def Let_def ebind_eq_Inr case_prod_beta split: if_splits)

section \<open>The invariant of the child\<close>

definition child_ok :: "ipc_client \<Rightarrow> ('o, 'z) child_world_scheme \<Rightarrow> bool" where
  "child_ok c w \<longleftrightarrow> pInterfaceSocket (srv w) \<noteq> None \<and> gIpcClientPtr w = Some c \<and>
     length (sock_buff w) = 1024 \<and> length (ipc_buff w) = 1024"

lemma child_fields:
  assumes "tcp_world.more v = tcp_world.more w"
  shows "gIpcClientPtr v = gIpcClientPtr w" "sock_buff v = sock_buff w" "ipc_buff v = ipc_buff w"
  using assms by (cases v; cases w; simp)+

lemma child_ok_frame:
  assumes "child_ok c w" "keeps w v" "tcp_world.more v = tcp_world.more w" shows "child_ok c v"
  using assms keeps_ifc[OF assms(2)] child_fields[OF assms(3)] by (simp add: child_ok_def)

text \<open>A \<open>read\<close> returns at most what was asked for.\<close>

definition bounded_reads :: "'o host_calls \<Rightarrow> bool" where
  "bounded_reads S \<longleftrightarrow> (\<forall>f n k. fst (fst (os_read S f n k)) \<le> int n)"

lemma bounded_read: "bounded_reads S \<Longrightarrow> sys_read S f n w = ((r, x), v) \<Longrightarrow> r \<le> int n"
  by (auto simp: bounded_reads_def sys_eqs Let_def) (metis fst_conv)

lemma length_stored: "r \<le> int n \<Longrightarrow> length (stored r bs) \<le> n"
  by (auto simp: stored_def)

lemma length_overlay: "length new \<le> length old \<Longrightarrow> length (overlay new old) = length old"
  by (simp add: overlay_def)

lemma zero_prefix_ok:
  assumes "0 \<le> n" "nat n \<le> length a" shows "\<exists>a'. zero_prefix n a = Inr a' \<and> length a' = length a"
  using assms by (simp add: zero_prefix_def length_overlay)

lemma forward_keeps:
  assumes "srv_inv w" "child_ok c w" "0 \<le> num" "num \<le> 512"
  shows "\<exists>v. forward S num bs w = Inr v \<and> keeps w v \<and> child_ok c v"
proof -
  let ?b = "overlay (stored num bs) (sock_buff w)"
  have l: "length (sock_buff w) = 1024" "gIpcClientPtr w = Some c" using assms(2) by (auto simp: child_ok_def)
  have "length (stored num bs) \<le> 512" using length_stored[of num 512 bs] assms(4) by simp
  then have b: "length ?b = 1024" using length_overlay[of "stored num bs" "sock_buff w"] l(1) by simp
  have num: "nat num \<le> 1024" using assms(4) by linarith
  obtain b' where b': "zero_prefix num ?b = Inr b'" "length b' = 1024"
    using zero_prefix_ok[of num ?b, OF assms(3)] num b by auto
  let ?u = "snd (IpcClient_Write S (take (nat num) ?b) c w)"
  have u: "tcp_world.more ?u = tcp_world.more w" "srv ?u = srv w" "open_fds (trace ?u) = open_fds (trace w)"
    by (auto simp: IpcClient_Write_def case_prod_beta sys_eqs)
  let ?v = "?u\<lparr>sock_buff := b'\<rparr>"
  have "keeps w ?v" by (rule keeps_quiet[OF assms(1)]) (simp_all add: u)
  moreover have "child_ok c ?v" using assms(2) child_fields[OF u(1)] b'(2) u(2) by (simp add: child_ok_def)
  ultimately show ?thesis using l(2) b'(1) by (simp add: forward_def the_client_def Let_def)
qed

lemma ipc_command_keeps:
  assumes "srv_inv w" "child_ok c w" "0 < cl_socketFd c" "bounded_reads S"
  shows "\<exists>v. ipc_command S w = Inr v \<and> keeps w v \<and> child_ok c v"
proof -
  obtain r bs e w1 where rd: "sys_read S (cl_socketFd c) 512 w = ((r, bs, e), w1)" by (metis prod.collapse)
  have "w1 = snd (sys_read S (cl_socketFd c) 512 w)" using rd by simp
  then have w1: "tcp_world.more w1 = tcp_world.more w" "srv w1 = srv w" "open_fds (trace w1) = open_fds (trace w)" by simp_all
  let ?b = "overlay (stored r bs) (ipc_buff w1)"
  have l: "length (ipc_buff w1) = 1024" "gIpcClientPtr w = Some c"
    using assms(2) child_fields[OF w1(1)] by (auto simp: child_ok_def)
  have "length (stored r bs) \<le> 512" using length_stored[of r 512 bs] bounded_read[OF assms(4) rd] by simp
  then have "length ?b = 1024" using length_overlay[of "stored r bs" "ipc_buff w1"] l(1) by simp
  then obtain b' where b': "zero_prefix 3 ?b = Inr b'" "length b' = 1024" using zero_prefix_ok[of 3 ?b] by auto
  let ?w2 = "w1\<lparr>ipc_buff := ?b, last_num := 3\<rparr>"
  let ?v = "(if take 3 ?b = [1, 2, 3] then upd_srv (\<lambda>t. t\<lparr>isThreadRunning := False\<rparr>) ?w2 else ?w2)\<lparr>ipc_buff := b'\<rparr>"
  have "keeps w ?v" by (rule keeps_quiet[OF assms(1)]) (simp_all add: w1)
  moreover have "child_ok c ?v"
    using assms(2) child_fields[OF w1(1)] w1(2) b'(2) by (simp add: child_ok_def upd_srv_def)
  ultimately show ?thesis
    using l(2) b'(1) rd assms(3) by (simp add: ipc_command_def the_client_def IpcClient_Read_def Let_def)
qed

lemma child_read_event_keeps:
  assumes "srv_inv w" "child_ok c w" "bounded_reads S"
  shows "\<exists>v. child_read_event S epfd f w = Inr v \<and> keeps w v \<and> child_ok c v"
proof -
  obtain num bs e w0 where r: "sys_read S f 512 w = ((num, bs, e), w0)" by (metis prod.collapse)
  note fr = sys_read_frame[OF r]
  have "w0 = snd (sys_read S f 512 w)" using r by simp
  then have m: "tcp_world.more w0 = tcp_world.more w" by simp
  let ?w1 = "w0\<lparr>last_num := num\<rparr>"
  have k1: "keeps w ?w1" by (rule keeps_quiet[OF assms(1)]) (simp_all add: fr)
  have kd: "keeps w (delete_event S epfd f in_et ?w1)" by (rule keeps_quiet[OF assms(1)]) (simp_all add: fr)
  have kc: "keeps w (delete_event S epfd f in_et (snd (sys_close S f ?w1)))"
    by (rule keeps_close[OF assms(1)]) (auto simp: fr)
  have ok: "child_ok c ?w1" "child_ok c (delete_event S epfd f in_et ?w1)"
    "child_ok c (delete_event S epfd f in_et (snd (sys_close S f ?w1)))"
    by (rule child_ok_frame[OF assms(2)]; use k1 kd kc m in simp)+
  consider (err) "num < 0" | (eof) "num = 0" | (data) "0 < num" by linarith
  then show ?thesis
  proof cases
    case err
    then show ?thesis using r k1 kc ok by (simp add: child_read_event_def Let_def)
  next
    case eof
    obtain i where "pInterfaceSocket (srv (delete_event S epfd f in_et ?w1)) = Some i"
      using ok(2) by (auto simp: child_ok_def)
    from conc_eof_keeps[OF keeps_inv[OF kd] this] obtain v where
      v: "conc_eof S f (delete_event S epfd f in_et ?w1) = Inr v" "keeps (delete_event S epfd f in_et ?w1) v" by blast
    have "child_ok c v" using child_ok_frame[OF ok(2) v(2) conc_eof_more[OF v(1)]] .
    then show ?thesis using r eof v keeps_trans[OF kd v(2)] by (simp add: child_read_event_def Let_def)
  next
    case data
    have "num \<le> 512" using bounded_read[OF assms(3) r] by simp
    then obtain v where "forward S num bs ?w1 = Inr v" "keeps ?w1 v" "child_ok c v"
      using forward_keeps[OF keeps_inv[OF k1] ok(1), of num S bs] data by auto
    then show ?thesis using r data keeps_trans[OF k1] by (auto simp: child_read_event_def Let_def)
  qed
qed

lemma child_event_keeps:
  assumes "srv_inv w" "child_ok c w" "0 < cl_socketFd c" "bounded_reads S" "fst ev AND EPOLLOUT = 0"
  shows "\<exists>v. child_event S epfd l ipf ev w = Inr v \<and> keeps w v \<and> child_ok c v"
proof -
  obtain i where i: "pInterfaceSocket (srv w) = Some i" using assms(2) by (auto simp: child_ok_def)
  obtain v1 where v1: "dev_accept_event S epfd w = Inr v1" "keeps w v1" using dev_accept_event_keeps[OF assms(1)] by blast
  have o1: "child_ok c v1" using child_ok_frame[OF assms(2) v1(2) dev_accept_event_more[OF v1(1)]] .
  obtain v2 where v2: "ifc_accept_event S epfd w = Inr v2" "keeps w v2" using ifc_accept_event_keeps[OF assms(1) i] by blast
  have o2: "child_ok c v2" using child_ok_frame[OF assms(2) v2(2) ifc_accept_event_more[OF v2(1)]] .
  show ?thesis
    using v1 o1 v2 o2 ipc_command_keeps[OF assms(1-4)] child_read_event_keeps[OF assms(1,2,4)] keeps_refl[OF assms(1)]
      assms(2,5)
    by (simp add: child_event_def Let_def)
qed

lemma child_round_keeps:
  assumes "srv_inv w" "child_ok c w" "0 < cl_socketFd c" "bounded_reads S" "no_write_events S"
  shows "\<exists>v. poll_round S epfd (child_event S epfd l ipf) w = Inr v \<and> keeps w v \<and> child_ok c v"
proof -
  obtain n evs w1 where e: "sys_epoll_wait S epfd MAX_EVENTS 500 w = ((n, evs), w1)" by (metis prod.collapse)
  have "w1 = snd (sys_epoll_wait S epfd MAX_EVENTS 500 w)" using e by simp
  then have w1: "tcp_world.more w1 = tcp_world.more w" "srv w1 = srv w" "open_fds (trace w1) = open_fds (trace w)" by simp_all
  then have k: "keeps w w1" by (intro keeps_quiet[OF assms(1)]) simp_all
  have "\<exists>v. foldE (child_event S epfd l ipf) (take (nat n) evs) w1 = Inr v \<and> (keeps w v \<and> child_ok c v)"
  proof (rule foldE_total)
    show "keeps w w1 \<and> child_ok c w1" using k child_ok_frame[OF assms(2) k w1(1)] by blast
  next
    fix ev u assume ev: "ev \<in> set (take (nat n) evs)" and u: "keeps w u \<and> child_ok c u"
    have "evs = snd (fst (os_epoll_wait S epfd MAX_EVENTS 500 (os w)))" using e by (auto simp: sys_eqs)
    then have "fst ev AND EPOLLOUT = 0" using assms(5) in_set_takeD[OF ev] by (auto simp: no_write_events_def)
    then show "\<exists>v. child_event S epfd l ipf ev u = Inr v \<and> (keeps w v \<and> child_ok c v)"
      using child_event_keeps[OF keeps_inv _ assms(3,4)] u keeps_trans by blast
  qed
  then show ?thesis by (simp add: poll_round_def e)
qed

lemma child_loop_keeps:
  assumes "srv_inv w" "child_ok c w" "0 < cl_socketFd c" "bounded_reads S" "no_write_events S"
    and "child_loop (poll_round S epfd (child_event S epfd l ipf)) n w = Some r"
  shows "\<exists>v. r = Inr v \<and> keeps w v \<and> child_ok c v"
  using assms(1,2,6)
proof (induction n arbitrary: w)
  case 0
  then show ?case by (auto simp: keeps_refl split: if_splits)
next
  case (Suc n)
  obtain v where v: "poll_round S epfd (child_event S epfd l ipf) w = Inr v" "keeps w v" "child_ok c v"
    using child_round_keeps[OF Suc.prems(1,2) assms(3-5)] by blast
  show ?case
  proof (cases "isThreadRunning (srv w)")
    case True
    then show ?thesis using Suc.IH[OF keeps_inv[OF v(2)] v(3)] Suc.prems(3) v keeps_trans by fastforce
  next
    case False
    then show ?thesis using Suc.prems by (auto simp: keeps_refl)
  qed
qed

section \<open>The end of the child\<close>

lemma fold_close_one_more [simp]: "tcp_world.more (fold (close_one S) fs w) = tcp_world.more w"
  by (induction fs arbitrary: w) (simp_all add: close_one_def)

lemma IpcClient_Close_frame:
  "srv (snd (IpcClient_Close S c w)) = srv w"
  "open_fds (trace (snd (IpcClient_Close S c w))) \<subseteq> open_fds (trace w)"
  "0 < cl_socketFd c \<Longrightarrow> cl_socketFd (fst (IpcClient_Close S c w)) = -1"
  by (auto simp: IpcClient_Close_def)

lemma ts_Close_srv: "pDevFdVec (srv (ts_Close S w)) = pDevFdVec (srv w)"
  "pInterfaceSocket (srv (ts_Close S w)) = pInterfaceSocket (srv w)" "tcp_world.more (ts_Close S w) = tcp_world.more w"
  by (simp_all add: ts_Close_def Let_def)

lemma child_exit_result:
  assumes "srv_inv w" "child_ok c w" "0 < cl_socketFd c" "limits (srv w) = (4, Some 2)"
  shows "\<exists>v. child_exit S epfd l ipf w = Inr v \<and> open_fds (trace v) \<subseteq> set (dev_list (srv v)) \<and>
    length (dev_list (srv v)) \<le> 4 \<and> ifc_list (srv v) = [] \<and> map_option cl_socketFd (gIpcClientPtr v) = Some (-1)"
proof -
  from assms(1,2) obtain m i where m: "pDevFdVec (srv w) = Some m" "reg_ok (maxConnections (srv w)) m"
    and i: "pInterfaceSocket (srv w) = Some i" "reg_ok (if_maxConnections i) (pIfcFdVec i)"
    and o: "open_fds (trace w) \<subseteq> set (fdVec m) \<union> set (fdVec (pIfcFdVec i))"
    by (auto simp: srv_inv_def server_ok_def tracked_def dev_list_def ifc_list_def ifc_ok_def child_ok_def)
  define d where "d = delete_event S epfd (ts_socketFd (srv w)) in_et (delete_event S epfd l in_et (delete_event S epfd ipf in_et w))"
  have d: "srv d = srv w" "open_fds (trace d) = open_fds (trace w)" "tcp_world.more d = tcp_world.more w"
    by (simp_all add: d_def)
  let ?i1 = "i\<lparr>pIfcFdVec := FdManager_ClearAll (pIfcFdVec i)\<rparr>"
  define u where "u = fold (close_one S) (fdVec (pIfcFdVec i)) d"
  have u: "srv u = srv w" "open_fds (trace u) \<subseteq> set (fdVec m)" "tcp_world.more u = tcp_world.more w"
    using d o by (auto simp: u_def fold_close_one)
  define x where "x = set_ifc (fst (ifc_Close S ?i1 u)) (snd (ifc_Close S ?i1 u))"
  have "tcp_world.more (snd (ifc_Close S ?i1 u)) = tcp_world.more w" using u(3) by (simp add: ifc_Close_def)
  then have xm: "gIpcClientPtr (snd (ifc_Close S ?i1 u)) = Some c"
    using child_fields(1) assms(2) by (metis child_ok_def)
  have x: "pDevFdVec (srv x) = Some m" "ifc_list (srv x) = []" "open_fds (trace x) \<subseteq> set (fdVec m)"
    using u ifc_Close_frame[of S ?i1 u] m(1)
    by (auto simp: x_def set_ifc_def ifc_list_def ifc_Close_def FdManager_ClearAll_def)
  let ?q = "IpcClient_Close S c x"
  let ?v = "ts_Close S ((snd ?q)\<lparr>gIpcClientPtr := Some (fst ?q)\<rparr>)"
  have srv_more: "srv (y\<lparr>gIpcClientPtr := z\<rparr>) = srv y" "trace (y\<lparr>gIpcClientPtr := z\<rparr>) = trace y" for y :: "('a, 'b) child_world_scheme" and z
    by simp_all
  have "child_exit S epfd l ipf w = Inr ?v"
    using i d(1) xm
    by (simp add: child_exit_def Let_def the_ifc_def ifc_CloseAllConnections_def close_entries_eq case_prod_beta
        d_def[symmetric] u_def[symmetric] x_def[symmetric] the_client_def TryDisconnect_def)
  moreover have "open_fds (trace ?v) \<subseteq> set (fdVec m)"
    using ts_Close_open(1)[of S "(snd ?q)\<lparr>gIpcClientPtr := Some (fst ?q)\<rparr>"] IpcClient_Close_frame(2)[of S c x] x(3)
    by (simp add: srv_more)
  moreover have "dev_list (srv ?v) = fdVec m" "ifc_list (srv ?v) = []"
    using x(1,2) IpcClient_Close_frame(1)[of S c x] by (simp_all add: dev_list_def ifc_list_def ts_Close_srv)
  moreover have "map_option cl_socketFd (gIpcClientPtr ?v) = Some (-1)"
    using child_fields(1)[OF ts_Close_srv(3)[of S "(snd ?q)\<lparr>gIpcClientPtr := Some (fst ?q)\<rparr>"]]
      IpcClient_Close_frame(3)[OF assms(3), of S x] by simp
  moreover have "length (fdVec m) \<le> 4" using m(2) assms(4) by (simp add: reg_ok_def limits_def)
  ultimately show ?thesis by simp
qed

lemma overlay_prefix:
  assumes "take 3 old = [0, 0, 0 :: byte]"
  shows "take 3 (overlay s old) = [1, 2, 3] \<longleftrightarrow> take 3 s = [1, 2, 3]"
proof -
  obtain rest where o: "old = 0 # 0 # 0 # rest" using assms by (metis append_Cons append_take_drop_id append_Nil)
  consider "s = []" | a where "s = [a]" | a b where "s = [a, b]" | a b d t where "s = a # b # d # t"
    by (metis neq_Nil_conv)
  then show ?thesis by cases (simp_all add: o overlay_def)
qed

lemma overlay_long: "3 \<le> length s \<Longrightarrow> take 3 (overlay s old) = take 3 s"
  by (simp add: overlay_def)

lemma ipc_command_outcome:
  assumes "gIpcClientPtr w = Some c" "0 < cl_socketFd c" "length (ipc_buff w) = 1024"
    and "fst (os_read S (cl_socketFd c) 512 (os w)) = (r, bs, e)" "r \<le> 512"
  shows "\<exists>v. ipc_command S w = Inr v \<and>
           (isThreadRunning (srv v) \<longleftrightarrow> isThreadRunning (srv w) \<and> take 3 (overlay (stored r bs) (ipc_buff w)) \<noteq> [1, 2, 3])"
proof -
  obtain w1 where rd: "sys_read S (cl_socketFd c) 512 w = ((r, bs, e), w1)" and w1: "w1 = snd (sys_read S (cl_socketFd c) 512 w)"
    using assms(4) by (simp add: sys_eqs Let_def)
  have "tcp_world.more w1 = tcp_world.more w" "srv w1 = srv w" using w1 by simp_all
  note w1' = child_fields(3)[OF this(1)] this(2)
  let ?s = "stored r bs"
  have ls: "length ?s \<le> 512" using length_stored[of r 512 bs] assms(5) by simp
  then have "length (overlay ?s (ipc_buff w1)) = 1024" using length_overlay[of ?s "ipc_buff w"] w1'(1) assms(3) by simp
  then have "zero_prefix 3 (overlay ?s (ipc_buff w1)) = Inr (overlay [0, 0, 0] (overlay ?s (ipc_buff w1)))"
    by (simp add: zero_prefix_def numeral_3_eq_3)
  then show ?thesis
    using rd assms(1,2) w1' by (simp add: ipc_command_def the_client_def IpcClient_Read_def Let_def upd_srv_def)
qed

text \<open>Every message leaves the first three bytes cleared, and nothing else writes to the array.\<close>

lemma zero_prefix_3: "zero_prefix 3 b = Inr b' \<Longrightarrow> take 3 b' = [0, 0, 0]"
  by (auto simp: zero_prefix_def overlay_def numeral_3_eq_3 split: if_splits)

lemma ipc_command_clears:
  assumes "ipc_command S w = Inr v" shows "take 3 (ipc_buff v) = [0, 0, 0]"
proof -
  obtain c where c: "the_client w = Inr c" using assms by (auto simp: ipc_command_def ebind_eq_Inr)
  obtain m w1 where m: "IpcClient_Read S 512 c w = (m, w1)" by (metis surj_pair)
  then obtain r bs where "m = Some (r, bs)" using assms c by (cases m) (auto simp: ipc_command_def)
  then show ?thesis
    using assms c m by (auto simp: ipc_command_def ebind_eq_Inr Let_def dest: zero_prefix_3)
qed

lemma forward_ipc_buff: "forward S num bs w = Inr v \<Longrightarrow> ipc_buff v = ipc_buff w"
proof -
  assume a: "forward S num bs w = Inr v"
  have "ipc_buff (snd (IpcClient_Write S x c w)) = ipc_buff w" for x c
    by (rule child_fields(3)) (auto simp: IpcClient_Write_def case_prod_beta sys_eqs)
  then show ?thesis using a by (auto simp: forward_def ebind_eq_Inr Let_def)
qed

lemma child_read_event_ipc_buff:
  assumes "child_read_event S epfd f w = Inr v" shows "ipc_buff v = ipc_buff w"
proof -
  obtain num bs e w0 where r: "sys_read S f 512 w = ((num, bs, e), w0)" by (metis prod.collapse)
  have "w0 = snd (sys_read S f 512 w)" using r by simp
  then have m: "tcp_world.more w0 = tcp_world.more w" by simp
  let ?w1 = "w0\<lparr>last_num := num\<rparr>"
  have w1: "ipc_buff ?w1 = ipc_buff w" "ipc_buff (delete_event S epfd f in_et ?w1) = ipc_buff w"
    "ipc_buff (delete_event S epfd f in_et (snd (sys_close S f ?w1))) = ipc_buff w"
    by (rule child_fields(3); use m in simp)+
  consider (err) "num < 0" | (eof) "num = 0" | (data) "0 < num" by linarith
  then show ?thesis
  proof cases
    case err
    then show ?thesis using assms r w1 by (auto simp: child_read_event_def Let_def split: if_splits)
  next
    case eof
    then have "conc_eof S f (delete_event S epfd f in_et ?w1) = Inr v" using assms r by (simp add: child_read_event_def Let_def)
    from child_fields(3)[OF conc_eof_more[OF this]] show ?thesis using w1 by simp
  next
    case data
    then have "forward S num bs ?w1 = Inr v" using assms r by (simp add: child_read_event_def Let_def)
    from forward_ipc_buff[OF this] show ?thesis using w1 by simp
  qed
qed

lemma child_write_event_ipc_buff:
  assumes "child_write_event S epfd ipf f w = Inr v" shows "ipc_buff v = ipc_buff w"
proof -
  have "ipc_buff (modify_event S epfd f ev (snd (sys_write S f bs w))) = ipc_buff w" for ev bs
    by (rule child_fields(3)) (simp add: event_ctl_defs)
  then show ?thesis using assms by (auto simp: child_write_event_def ebind_eq_Inr Let_def)
qed

lemma child_event_cleared:
  assumes "child_event S epfd l ipf ev w = Inr v" "take 3 (ipc_buff w) = [0, 0, 0]"
  shows "take 3 (ipc_buff v) = [0, 0, 0]"
proof -
  have "dev_accept_event S epfd w = Inr v \<Longrightarrow> ipc_buff v = ipc_buff w"
    "ifc_accept_event S epfd w = Inr v \<Longrightarrow> ipc_buff v = ipc_buff w"
    by (auto intro: child_fields(3) dev_accept_event_more ifc_accept_event_more)
  then show ?thesis
    using assms
    by (auto simp: child_event_def Let_def split: if_splits
        dest: ipc_command_clears child_read_event_ipc_buff child_write_event_ipc_buff)
qed

lemma child_events_cleared:
  assumes "foldE (child_event S epfd l ipf) evs w = Inr v" "take 3 (ipc_buff w) = [0, 0, 0]"
  shows "take 3 (ipc_buff v) = [0, 0, 0]"
  using foldE_invariant[OF assms(1), of "\<lambda>u. take 3 (ipc_buff u) = [0, 0, 0]"] assms(2) child_event_cleared by blast

lemma ipc_command_result:
  assumes "gIpcClientPtr w = Some c" "0 < cl_socketFd c" "length (ipc_buff w) = 1024" "take 3 (ipc_buff w) = [0, 0, 0]"
    and "fst (os_read S (cl_socketFd c) 512 (os w)) = (r, bs, e)" "r \<le> 512"
  shows "\<exists>v. ipc_command S w = Inr v \<and>
           (isThreadRunning (srv v) \<longleftrightarrow> isThreadRunning (srv w) \<and> take 3 (stored r bs) \<noteq> [1, 2, 3])"
  using ipc_command_outcome[OF assms(1-3,5,6)] overlay_prefix[OF assms(4)] by simp

text \<open>A concurrent server in the state in which \<open>Start\<close> calls \<open>ConcurrentProcess\<close>.\<close>

definition started_server :: "int \<Rightarrow> ('o, 'z) child_world_scheme \<Rightarrow> ('o, 'z) child_world_scheme" where
  "started_server port w =
     upd_srv (\<lambda>t. t\<lparr>isThreadRunning := True\<rparr>) (new_tcp_socket port TCP_SERVER_TYPE_CONCURRENT w)"

lemma started_server_facts:
  assumes "open_fds (trace w) = {}" "numOfConcurrentServer w \<le> 1"
  shows "srv_inv (started_server port w)" "limits (srv (started_server port w)) = (4, Some 2)"
    "tcp_world.more (started_server port w) = tcp_world.more w"
proof -
  note new = new_socket_inv[of w TCP_SERVER_TYPE_CONCURRENT port, OF assms(1) assms(2)]
  show "srv_inv (started_server port w)" "limits (srv (started_server port w)) = (4, Some 2)"
    using new by (simp_all add: started_server_def srv_inv_def server_ok_def tracked_def dev_list_def ifc_list_def limits_def)
  show "tcp_world.more (started_server port w) = tcp_world.more w"
    by (simp add: started_server_def new_tcp_socket_def Let_def)
qed

lemma child_setup_keeps:
  assumes "srv_inv w" "child_setup S c w = Inr (epfd, l, ipf, v)"
  shows "keeps w v" "pInterfaceSocket (srv v) \<noteq> None" "tcp_world.more v = tcp_world.more w"
proof -
  obtain u where u: "conc_setup S w = Inr (epfd, l, u)" "v = add_event S epfd (cl_socketFd c) in_et u"
    using assms(2) by (auto simp: child_setup_def ebind_eq_Inr)
  note k = conc_setup_keeps[OF assms(1) u(1)]
  have "keeps u v" by (rule keeps_quiet[OF keeps_inv[OF k(1)]]) (simp_all add: u(2))
  then show "keeps w v" using keeps_trans[OF k(1)] by blast
  show "pInterfaceSocket (srv v) \<noteq> None" using k(2) u(2) by simp
  show "tcp_world.more v = tcp_world.more w" using conc_setup_more[OF u(1)] u(2) by simp
qed

section \<open>Properties\<close>

text \<open>C21: The child process never faults: connected to its parent, it ends the process while it sets
  up its interface, or goes on serving, or leaves its loop by the parent's command; then every
  interface connection and the connection to the parent are closed, and what is still open is
  at most its four registered device connections, which it leaves to \<open>_exit\<close>.\<close>
theorem child_process_safe:
  assumes "open_fds (trace w) = {}" "numOfConcurrentServer w \<le> 1" "no_write_events S" "bounded_reads S"
    and "gIpcClientPtr w = Some c" "0 < cl_socketFd c" "length (sock_buff w) = 1024" "length (ipc_buff w) = 1024"
  shows "case child_main S n c (started_server port w) of
           None \<Rightarrow> True
         | Some (Inl e) \<Rightarrow> e = Process_exit (-1)
         | Some (Inr v) \<Rightarrow> open_fds (trace v) \<subseteq> set (dev_list (srv v)) \<and> length (dev_list (srv v)) \<le> 4 \<and>
             ifc_list (srv v) = [] \<and> map_option cl_socketFd (gIpcClientPtr v) = Some (-1)"
proof (cases "child_setup S c (started_server port w)")
  case (Inl e)
  then have "conc_setup S (started_server port w) = Inl e" by (auto simp: child_setup_def ebind_eq_Inl)
  moreover have "pInterfaceSocket (srv (started_server port w)) \<noteq> None"
    using started_server_facts(2)[OF assms(1,2), of port] by (auto simp: limits_def)
  ultimately show ?thesis using conc_setup_fault Inl by (fastforce simp: child_main_def)
next
  case (Inr t)
  obtain epfd l ipf u where t: "t = (epfd, l, ipf, u)" by (metis prod.collapse)
  note st = started_server_facts[OF assms(1,2), of port]
  note k = child_setup_keeps[OF st(1) Inr[unfolded t]]
  have "child_ok c u"
    using child_fields[of u w] k(2,3) st(3) assms(5,7,8) by (simp add: child_ok_def)
  note loop = child_loop_keeps[OF keeps_inv[OF k(1)] this assms(6,4,3)]
  show ?thesis
  proof (cases "child_loop (poll_round S epfd (child_event S epfd l ipf)) n u")
    case None
    then show ?thesis using Inr t by (simp add: child_main_def)
  next
    case (Some r)
    obtain v where v: "r = Inr v" "keeps u v" "child_ok c v" using loop[OF Some] by blast
    have "limits (srv v) = (4, Some 2)" using v(2) k(1) st(2) by (simp add: keeps_def)
    from child_exit_result[OF keeps_inv[OF v(2)] v(3) assms(6) this, of S epfd l ipf] show ?thesis
      using Inr t Some v(1) by (auto simp: child_main_def)
  qed
qed

text \<open>A parent that sends the command at once: the connection to it is descriptor 9.\<close>

definition child_kernel :: "nat host_calls" where
  "child_kernel = (host_kernel (\<lambda>k. [(1, 9)]) (0, EINTR))\<lparr>os_read := (\<lambda>_ n k. ((min 3 (int n), [1, 2, 3], EINTR), k))\<rparr>"

definition parent_link :: ipc_client where
  "parent_link = \<lparr>cl_socketFd = 9, cl_path = [], cl_sun_path = []\<rparr>"

definition child_process :: "nat child_world" where
  "child_process = \<lparr>os = 0, trace = [], srv = blank_socket 0 TCP_SERVER_TYPE_CONCURRENT,
     numOfConcurrentServer = 0, live_configs = {}, last_num = -1,
     gIpcClientPtr = Some parent_link, sock_buff = replicate 1024 0, ipc_buff = replicate 1024 0\<rparr>"

lemma child_kernel_ok: "no_write_events child_kernel" "bounded_reads child_kernel"
  by (simp_all add: no_write_events_def bounded_reads_def child_kernel_def host_kernel_def EPOLLOUT_def)

lemma child_set_up:
  "\<exists>u. child_setup child_kernel parent_link (started_server 55296 child_process) = Inr (5, 3, 9, u) \<and>
     isThreadRunning (srv u) \<and> ts_socketFd (srv u) = 3"
  by (simp add: child_setup_def parent_link_def conc_setup_def started_server_def new_tcp_socket_def child_process_def
      blank_socket_def ts_Listen_def ts_Bind_def ts_SetSocketOpt_def ts_Open_def upd_srv_def the_ifc_def set_ifc_def
      ifc_Open_def new_ifc_def SetUpTcpInterfaceSocket_def child_kernel_def host_kernel_def sys_eqs case_prod_beta
      event_ctl_defs)

lemma child_process_ends:
  "\<exists>v. child_main child_kernel 1 parent_link (started_server 55296 child_process) = Some (Inr v)"
proof -
  let ?K = child_kernel and ?w = "started_server 55296 child_process"
  have p: "open_fds (trace child_process) = {}" "numOfConcurrentServer child_process \<le> 1" "0 < cl_socketFd parent_link"
    by (simp_all add: child_process_def parent_link_def)
  note st = started_server_facts[OF p(1,2), of 55296]
  obtain u where u: "child_setup ?K parent_link ?w = Inr (5, 3, 9, u)" "isThreadRunning (srv u)" "ts_socketFd (srv u) = 3"
    using child_set_up by blast
  note k = child_setup_keeps[OF st(1) u(1)]
  let ?w1 = "snd (sys_epoll_wait ?K 5 MAX_EVENTS 500 u)"
  have "tcp_world.more ?w1 = tcp_world.more child_process" using k(3) st(3) by simp
  note f = child_fields[OF this]
  have ok: "child_ok parent_link ?w1" using f k(2) by (simp add: child_ok_def child_process_def)
  have kw: "keeps u ?w1" by (rule keeps_quiet[OF keeps_inv[OF k(1)]]) simp_all
  have "fst (os_read ?K (cl_socketFd parent_link) 512 (os ?w1)) = (3, [1, 2, 3], EINTR)" by (simp add: child_kernel_def)
  from ipc_command_result[OF _ p(3) _ _ this] obtain v where v: "ipc_command ?K ?w1 = Inr v" "\<not> isThreadRunning (srv v)"
    using f by (auto simp: child_process_def stored_def numeral_3_eq_3)
  have kv: "keeps ?w1 v" "child_ok parent_link v"
    using ipc_command_keeps[OF keeps_inv[OF kw] ok p(3) child_kernel_ok(2)] v(1) by auto
  have "poll_round ?K 5 (child_event ?K 5 3 9) u = Inr v"
    using v(1) u(3)
    by (simp add: poll_round_def child_kernel_def host_kernel_def sys_epoll_wait_eq child_event_def data_fd_def
        size_to_int_def EPOLLIN_def)
  then have "child_loop (poll_round ?K 5 (child_event ?K 5 3 9)) 1 u = Some (Inr v)" using u(2) v(2) by simp
  moreover have "limits (srv v) = (4, Some 2)" using kv(1) kw k(1) st(2) by (simp add: keeps_def)
  ultimately show ?thesis
    using child_exit_result[OF keeps_inv[OF kv(1)] kv(2) p(3), of ?K 5 3 9] u(1) by (auto simp: child_main_def)
qed

lemma child_process_safe_witness:
  "\<exists>v. child_main child_kernel 1 parent_link (started_server 55296 child_process) = Some (Inr v) \<and>
     open_fds (trace v) \<subseteq> set (dev_list (srv v)) \<and> ifc_list (srv v) = []"
proof -
  obtain v where "child_main child_kernel 1 parent_link (started_server 55296 child_process) = Some (Inr v)"
    using child_process_ends by blast
  with child_process_safe[of child_process child_kernel parent_link 1 55296] child_kernel_ok show ?thesis
    by (simp add: child_process_def parent_link_def)
qed

text \<open>C23: What ends the child's loop is a message of the parent after which the array \<open>IPCbuff\<close> starts with
  01 02 03, whatever its length: the test of the length assigns instead of comparing.  A
  message of three bytes or more is judged by its own first three bytes, so a longer one that
  starts with the command is obeyed.  A shorter one is completed by what the array held:
  \<open>IPCbuff\<close> is not initialised, so that a first message of less than three bytes can end the
  child; but each message clears the first three bytes and no other event writes to them, so
  from the second message on exactly the reads that deliver 01 02 03 first end the loop, and a
  command split over two reads is lost.\<close>
theorem command_in_one_read:
  assumes "gIpcClientPtr w = Some c" "0 < cl_socketFd c" "length (ipc_buff w) = 1024"
    and "fst (os_read S (cl_socketFd c) 512 (os w)) = (r, bs, e)" "r \<le> 512"
  shows "\<exists>v. ipc_command S w = Inr v \<and>
     (isThreadRunning (srv v) \<longleftrightarrow> isThreadRunning (srv w) \<and> take 3 (overlay (stored r bs) (ipc_buff w)) \<noteq> [1, 2, 3]) \<and>
     (3 \<le> length (stored r bs) \<or> take 3 (ipc_buff w) = [0, 0, 0] \<longrightarrow>
        (isThreadRunning (srv v) \<longleftrightarrow> isThreadRunning (srv w) \<and> take 3 (stored r bs) \<noteq> [1, 2, 3])) \<and>
     (\<forall>epfd l ipf evs u. foldE (child_event S epfd l ipf) evs v = Inr u \<longrightarrow> take 3 (ipc_buff u) = [0, 0, 0])"
proof -
  obtain v where v: "ipc_command S w = Inr v"
    "isThreadRunning (srv v) \<longleftrightarrow> isThreadRunning (srv w) \<and> take 3 (overlay (stored r bs) (ipc_buff w)) \<noteq> [1, 2, 3]"
    using ipc_command_outcome[OF assms] by blast
  have "take 3 (overlay (stored r bs) (ipc_buff w)) = [1, 2, 3] \<longleftrightarrow> take 3 (stored r bs) = [1, 2, 3]"
    if "3 \<le> length (stored r bs) \<or> take 3 (ipc_buff w) = [0, 0, 0]"
    using that overlay_long overlay_prefix by metis
  with v child_events_cleared[OF _ ipc_command_clears[OF v(1)]] show ?thesis by blast
qed

lemma command_in_one_read_witness:
  "\<exists>v. ipc_command child_kernel child_process = Inr v \<and> \<not> isThreadRunning (srv v) \<and> take 3 (ipc_buff v) = [0, 0, 0]"
proof -
  have "fst (os_read child_kernel (cl_socketFd parent_link) 512 (os child_process)) = (3, [1, 2, 3], EINTR)"
    by (simp add: child_kernel_def)
  with command_in_one_read[of child_process parent_link child_kernel 3 "[1, 2, 3]" EINTR]
  have "\<exists>v. ipc_command child_kernel child_process = Inr v \<and>
      (isThreadRunning (srv v) \<longleftrightarrow> isThreadRunning (srv child_process) \<and>
        take 3 (overlay (stored 3 [1, 2, 3]) (ipc_buff child_process)) \<noteq> [1, 2, 3]) \<and>
      (\<forall>epfd l ipf evs u. foldE (child_event child_kernel epfd l ipf) evs v = Inr u \<longrightarrow> take 3 (ipc_buff u) = [0, 0, 0])"
    by (simp add: child_process_def parent_link_def) blast
  then obtain v where v: "ipc_command child_kernel child_process = Inr v"
      "isThreadRunning (srv v) \<longleftrightarrow> isThreadRunning (srv child_process) \<and>
        take 3 (overlay (stored 3 [1, 2, 3]) (ipc_buff child_process)) \<noteq> [1, 2, 3]"
      "\<forall>epfd l ipf evs u. foldE (child_event child_kernel epfd l ipf) evs v = Inr u \<longrightarrow> take 3 (ipc_buff u) = [0, 0, 0]"
    by blast
  have "take 3 (ipc_buff v) = [0, 0, 0]" using v(3)[rule_format, of _ _ _ "[]"] by simp
  with v(1,2) show ?thesis by (auto simp: stored_def overlay_def)
qed

text \<open>With the array as the stack left it, a single byte of the parent can end the child.\<close>

lemma command_from_garbage:
  assumes "gIpcClientPtr w = Some c" "0 < cl_socketFd c" "length (ipc_buff w) = 1024" "take 3 (ipc_buff w) = [x, 2, 3]"
    and "fst (os_read S (cl_socketFd c) 512 (os w)) = (1, [1], e)"
  shows "\<exists>v. ipc_command S w = Inr v \<and> \<not> isThreadRunning (srv v)"
proof -
  obtain rest where "ipc_buff w = x # 2 # 3 # rest" using assms(4) by (metis append_Cons append_take_drop_id append_Nil)
  then have "take 3 (overlay (stored 1 [1]) (ipc_buff w)) = [1, 2, 3]" by (simp add: stored_def overlay_def)
  then show ?thesis using ipc_command_outcome[OF assms(1-3,5)] by auto
qed

end
