(* ===== verification/DataParser.thy ===== *)
theory DataParser
  imports Prelude
begin

text \<open>
  The parser of setting messages (DataParser.h, DataParser.cpp; an earlier copy of one function
  is in test.cpp).  It works on the class \<open>HSTRING\<close> and on the decoder's functions, whose
  sources are not in the repository: both are parameters.  \<open>hs_calls\<close> has one function per
  member of \<open>HSTRING\<close> the code uses; an argument passed by address is given with its old value
  and returned with its new one.  What the code asks of the decoder and of the reader's menu is
  recorded in order, as values of \<open>setting\<close>.
\<close>

section \<open>Parameters and state\<close>

record 'h hs_calls =
  hs_command :: "byte list \<Rightarrow> int \<Rightarrow> 'h"
  hs_buffer :: "byte list \<Rightarrow> int \<Rightarrow> 'h"
  hs_text :: "string \<Rightarrow> 'h"
  hs_FindString :: "'h \<Rightarrow> string \<Rightarrow> int \<Rightarrow> int \<Rightarrow> int"
  hs_FindCharacterForward :: "'h \<Rightarrow> char \<Rightarrow> int \<Rightarrow> int \<Rightarrow> int"
  hs_Size :: "'h \<Rightarrow> int"
  hs_HexRange :: "'h \<Rightarrow> int \<Rightarrow> int \<Rightarrow> int \<Rightarrow> int \<times> int"
  hs_Hex :: "'h \<Rightarrow> int \<Rightarrow> int \<Rightarrow> int \<times> int"
  hs_Number :: "'h \<Rightarrow> int \<Rightarrow> int \<Rightarrow> int \<times> int"
  MENU_TYPE_INT :: int

datatype 'h setting = DecodeSet int int | DecodeGet int | Menu 'h

definition HEADER_SIZE :: int where "HEADER_SIZE = 6"

text \<open>An \<open>int\<close> sum that must not overflow.\<close>

definition add_int :: "int \<Rightarrow> int \<Rightarrow> int res" where
  "add_int a b = (if - (2 ^ 31) \<le> a + b \<and> a + b < 2 ^ 31 then Inr (a + b) else Inl Signed_overflow)"

text \<open>Both parsers look for the header, skip it, and look for the colon.\<close>

definition command_start :: "'h hs_calls \<Rightarrow> 'h \<Rightarrow> string \<Rightarrow> int \<Rightarrow> int res" where
  "command_start H cs header sz = add_int (hs_FindString H cs header sz 0) HEADER_SIZE"

definition colon :: "'h hs_calls \<Rightarrow> 'h \<Rightarrow> int" where
  "colon H cs = hs_FindCharacterForward H cs (CHR '':'') 0 0"

section \<open>The parsers\<close>

text \<open>A tag of fewer than eight digits stands for an integer setting of the menu.\<close>

definition full_tag :: "'h hs_calls \<Rightarrow> int \<times> int \<Rightarrow> int res" where
  "full_tag H r = (case r of (tag, numUsed) \<Rightarrow> if numUsed < 8 then add_int tag (MENU_TYPE_INT H) else Inr tag)"

definition ParseDecoder :: "'h hs_calls \<Rightarrow> bool \<Rightarrow> byte list option \<Rightarrow> int \<Rightarrow> (int \<times> 'h setting list) res" where
  "ParseDecoder H has_config data sz =
     (case data of
        None \<Rightarrow> Inr (0, [])
      | Some bytes \<Rightarrow>
          if sz = 0 \<or> \<not> has_config then Inr (0, [])
          else (let cs = hs_command H bytes sz; posOfSemi = colon H cs in
            ebind (command_start H cs ''DECSET'' sz) (\<lambda>posOfStart.
              if posOfSemi \<noteq> hs_Size H cs then
                (let r = hs_HexRange H cs posOfStart posOfSemi 0
                 in ebind (full_tag H r) (\<lambda>tag. ebind (add_int posOfSemi 1) (\<lambda>p.
                      case hs_Number H cs p (snd r) of
                        (val, used) \<Rightarrow> Inr (1, if used \<noteq> 0 then [DecodeSet tag val] else []))))
              else ebind (full_tag H (hs_Hex H cs posOfStart 0)) (\<lambda>tag. Inr (1, [DecodeGet tag])))))"

text \<open>
  The copy of \<open>ParseDecoder\<close> in test.cpp builds the \<open>HSTRING\<close> before it tests its arguments; \<open>mk\<close> is
  the constructor on any pointer.  The last component says whether the object is deleted again.
\<close>

definition test_ParseDecoder :: "'h hs_calls \<Rightarrow> (byte list option \<Rightarrow> int \<Rightarrow> 'h) \<Rightarrow> byte list option \<Rightarrow> int \<Rightarrow>
    (bool \<times> 'h setting list \<times> bool) res" where
  "test_ParseDecoder H mk data sz =
     (let cs = mk data sz in
      if sz = 0 \<or> data = None then Inr (False, [], False)
      else ebind (command_start H cs ''DECSET'' sz) (\<lambda>posOfStart.
        let posOfSemi = colon H cs in
        if posOfSemi \<noteq> hs_Size H cs then
          (let r = hs_HexRange H cs posOfStart posOfSemi 0
           in ebind (full_tag H r) (\<lambda>tag. ebind (add_int posOfSemi 1) (\<lambda>p.
                case hs_Number H cs p (snd r) of
                  (val, used) \<Rightarrow> Inr (True, if used \<noteq> 0 then [DecodeSet tag val] else [], True))))
        else ebind (full_tag H (hs_Hex H cs posOfStart 0)) (\<lambda>tag. Inr (True, [DecodeGet tag], True))))"

text \<open>\<open>sprintf(buf, "PDCFEX%d.", data)\<close> into 100 bytes.\<close>

definition menu_text :: "string \<Rightarrow> int \<Rightarrow> string res" where
  "menu_text prefix val =
     (let s = prefix @ dec_int val @ ''.'' in if 100 \<le> length s then Inl Out_of_bounds else Inr s)"

definition sensor_setting :: "'h hs_calls \<Rightarrow> int \<Rightarrow> int \<Rightarrow> 'h setting list res" where
  "sensor_setting H tag val =
     (let send = (\<lambda>prefix. ebind (menu_text prefix val) (\<lambda>s. Inr [Menu (hs_buffer H (map of_char s) (int (length s)))])) in
      if tag = 0x0ffff001 then
        Inr (if val = 0 then [Menu (hs_text H ''ALLENA0!'')] else if val = 1 then [Menu (hs_text H ''ALLENA1!'')] else [])
      else if tag = 0x0ffff002 then send ''PDCFEX''
      else if tag = 0x0ffff003 then send ''PDCFGX''
      else Inr [])"

definition ParseSensorSettingData :: "'h hs_calls \<Rightarrow> bool \<Rightarrow> byte list option \<Rightarrow> int \<Rightarrow> (int \<times> 'h setting list) res" where
  "ParseSensorSettingData H has_config buffer sz =
     (case buffer of
        None \<Rightarrow> Inr (0, [])
      | Some bytes \<Rightarrow>
          if sz = 0 \<or> \<not> has_config then Inr (0, [])
          else (let cs = hs_command H bytes sz; posOfSemi = colon H cs in
            ebind (command_start H cs ''USRCMD'' sz) (\<lambda>posOfStart.
              if posOfSemi \<noteq> hs_Size H cs then
                (let r = hs_HexRange H cs posOfStart posOfSemi 0
                 in ebind (add_int posOfSemi 1) (\<lambda>p.
                      case hs_Number H cs p (snd r) of
                        (val, used) \<Rightarrow>
                          if used \<noteq> 0 then ebind (sensor_setting H (fst r) val) (\<lambda>es. Inr (1, es)) else Inr (1, [])))
              else Inr (1, []))))"

text \<open>
  \<open>ProcessData\<close> chooses by the first two characters; reading past the message or through a null
  pointer is a fault.  The results of the parsers are not used.
\<close>

definition char_at :: "byte list option \<Rightarrow> nat \<Rightarrow> byte res" where
  "char_at buf i =
     (case buf of None \<Rightarrow> Inl Null_dereference
      | Some bs \<Rightarrow> if i < length bs then Inr (bs ! i) else Inl Out_of_bounds)"

definition starts_with :: "byte list option \<Rightarrow> char \<Rightarrow> char \<Rightarrow> bool res" where
  "starts_with buf c d =
     ebind (char_at buf 0) (\<lambda>x. if x = of_char c then ebind (char_at buf 1) (\<lambda>y. Inr (y = of_char d)) else Inr False)"

definition ProcessData :: "'h hs_calls \<Rightarrow> bool \<Rightarrow> byte list option \<Rightarrow> int \<Rightarrow> (int \<times> 'h setting list) res" where
  "ProcessData H has_config buf len =
     (if \<not> has_config then Inr (-1, [])
      else ebind (starts_with buf (CHR ''D'') (CHR ''E'')) (\<lambda>de.
        if de then ebind (ParseDecoder H has_config buf len) (\<lambda>(r, es). Inr (1, es))
        else ebind (starts_with buf (CHR ''U'') (CHR ''S'')) (\<lambda>us.
          if us then ebind (ParseSensorSettingData H has_config buf len) (\<lambda>(r, es). Inr (1, es))
          else Inr (1, [Menu (hs_buffer H (case buf of None \<Rightarrow> [] | Some bs \<Rightarrow> bs) len)]))))"

definition ProcessData_hstring :: "bool \<Rightarrow> ('h \<Rightarrow> int) \<Rightarrow> 'h \<Rightarrow> int \<times> 'h setting list" where
  "ProcessData_hstring has_config menu str = (if \<not> has_config then (-1, []) else (menu str, [Menu str]))"

section \<open>Lemmas\<close>

text \<open>Both copies ask the same of the decoder; they differ in the configuration test and in the leak.\<close>

lemma test_ParseDecoder_agrees:
  assumes "mk (Some bytes) sz = hs_command H bytes sz"
  shows "test_ParseDecoder H mk (Some bytes) sz =
         ebind (ParseDecoder H True (Some bytes) sz) (\<lambda>(r, es). Inr (r \<noteq> 0, es, r \<noteq> 0))"
  using assms
  by (auto simp: test_ParseDecoder_def ParseDecoder_def Let_def ebind_assoc case_prod_beta
      intro!: arg_cong[where f = "ebind _"])

text \<open>The menu texts always fit: an \<open>int\<close> has at most ten digits and a sign.\<close>

lemma menu_text_fits:
  assumes "- (2 ^ 31) \<le> val" "val < 2 ^ 31" "length prefix \<le> 80"
  shows "menu_text prefix val = Inr (prefix @ dec_int val @ ''.'')"
proof -
  have "length (dec n) \<le> 10" if "n \<le> 2 ^ 31" for n
    by (rule length_dec_bound) (rule le_less_trans[OF that], simp_all)
  then have "length (dec (nat (- val))) \<le> 10" "length (dec (nat val)) \<le> 10" using assms(1,2) by simp_all
  then have "length (dec_int val) \<le> 11" by (simp add: dec_int_def)
  then show ?thesis using assms(3) by (simp add: menu_text_def Let_def)
qed

text \<open>
  A sensor message asks at most one thing of the menu, and never changes the decoder; a decoder
  message asks exactly one thing of the decoder or nothing, and never uses the menu.
\<close>

lemma sensor_uses_menu:
  assumes "ParseSensorSettingData H c buf sz = Inr (r, es)"
  shows "length es \<le> 1 \<and> (\<forall>e \<in> set es. \<exists>h. e = Menu h)"
  using assms
  by (auto simp: ParseSensorSettingData_def sensor_setting_def Let_def ebind_eq_Inr case_prod_beta
      split: option.splits if_splits)

lemma decoder_not_menu:
  assumes "ParseDecoder H c buf sz = Inr (r, es)"
  shows "length es \<le> 1 \<and> (\<forall>h. Menu h \<notin> set es)"
  using assms
  by (auto simp: ParseDecoder_def Let_def ebind_eq_Inr case_prod_beta split: option.splits if_splits)

section \<open>Properties\<close>

text \<open>C40: A message changes at most one setting, and of the kind its first two letters name: a
  decoder message (DE) asks only for the decoder's settings and never uses the reader's menu,
  any other message uses only the menu; the result is 1 even when nothing was found to set.\<close>
theorem message_sets_one_kind:
  assumes "ProcessData H True (Some bs) len = Inr (r, es)"
  shows "r = 1 \<and> length es \<le> 1 \<and>
    (if take 2 bs = [0x44, 0x45] then \<forall>h. Menu h \<notin> set es else \<forall>e \<in> set es. \<exists>h. e = Menu h)"
proof -
  have de: "take 2 bs = [0x44, 0x45] \<longleftrightarrow> d" if "starts_with (Some bs) (CHR ''D'') (CHR ''E'') = Inr d" for d
    using that by (cases bs; cases "tl bs") (auto simp: starts_with_def char_at_def split: if_splits)
  obtain d where d: "starts_with (Some bs) (CHR ''D'') (CHR ''E'') = Inr d"
    using assms by (auto simp: ProcessData_def ebind_eq_Inr)
  show ?thesis
  proof (cases d)
    case True
    then obtain q where "ParseDecoder H True (Some bs) len = Inr (q, es)" "r = 1"
      using assms d by (auto simp: ProcessData_def ebind_eq_Inr)
    then show ?thesis using decoder_not_menu[of H True "Some bs" len q es] de[OF d] True by simp
  next
    case False
    then consider (us) q where "ParseSensorSettingData H True (Some bs) len = Inr (q, es)" "r = 1"
      | (menu) h where "es = [Menu h]" "r = 1"
      using assms d by (auto simp: ProcessData_def ebind_eq_Inr split: if_splits)
    then show ?thesis
    proof cases
      case us
      then show ?thesis using sensor_uses_menu[OF us(1)] de[OF d] False by simp
    next
      case menu
      then show ?thesis using de[OF d] False by simp
    qed
  qed
qed

text \<open>The message \<open>DECSET1a013001:1;\<close> with string functions that return what it contains.\<close>

definition demo_strings :: "byte list hs_calls" where
  "demo_strings = \<lparr>hs_command = (\<lambda>bs n. bs), hs_buffer = (\<lambda>bs n. bs), hs_text = (\<lambda>s. map of_char s),
     hs_FindString = (\<lambda>_ _ _ _. 0), hs_FindCharacterForward = (\<lambda>_ _ _ _. 14), hs_Size = (\<lambda>_. 17),
     hs_HexRange = (\<lambda>_ _ _ _. (0x1a013001, 8)), hs_Hex = (\<lambda>_ _ _. (0x1a013001, 8)),
     hs_Number = (\<lambda>_ _ _. (1, 1)), MENU_TYPE_INT = 0\<rparr>"

definition demo_message :: "byte list" where
  "demo_message = map of_char ''DECSET1a013001:1;''"

lemma message_sets_one_kind_witness:
  "ProcessData demo_strings True (Some demo_message) 17 = Inr (1, [DecodeSet 0x1a013001 1]) \<and>
   (\<forall>h. Menu h \<notin> set [DecodeSet 0x1a013001 1 :: byte list setting])"
proof -
  have p: "ProcessData demo_strings True (Some demo_message) 17 = Inr (1, [DecodeSet 0x1a013001 1])"
    by (simp add: ProcessData_def starts_with_def char_at_def ParseDecoder_def colon_def command_start_def full_tag_def
        add_int_def HEADER_SIZE_def demo_strings_def demo_message_def)
  have "take 2 demo_message = [0x44, 0x45]" by (simp add: demo_message_def)
  then show ?thesis using message_sets_one_kind[OF p] p by simp
qed

end
