(* ===== verification/ClientSockets.thy ===== *)
theory ClientSockets
  imports TcpServerSocket
begin

text \<open>
  The two remaining socket classes: \<open>UdpSocket\<close> (UdpSocket.h, UdpSocket.cpp), a server that
  answers datagrams, and \<open>TcpClientSocket\<close> (TcpClientSocket.h, TcpClientSocket.cpp).  The host
  is little endian, as for \<open>TcpServerSocket\<close>.  A function that returns a value on some paths only
  has an optional result; using a missing value is the fault \<open>Indeterminate\<close>.
\<close>

section \<open>UdpSocket\<close>

record udp_socket =
  udp_socketFd :: int
  udp_socketAddr :: sockaddr_in
  udpPort :: int
  udp_remote :: sockaddr_in

definition UdpSocket_new :: "'o host_calls \<Rightarrow> int \<Rightarrow> ('o, 'z) process_scheme \<Rightarrow> udp_socket \<times> ('o, 'z) process_scheme" where
  "UdpSocket_new S port w =
     (case sys_socket S w of (r, w1) \<Rightarrow>
        (\<lparr>udp_socketFd = r, udp_socketAddr = any_addr port, udpPort = port, udp_remote = any_addr 0\<rparr>, w1))"

definition UdpSocket_Close :: "'o host_calls \<Rightarrow> udp_socket \<Rightarrow> ('o, 'z) process_scheme \<Rightarrow> ('o, 'z) process_scheme" where
  "UdpSocket_Close S u w = snd (sys_close S (udp_socketFd u) w)"

definition UdpSocket_Shutdown :: "'o host_calls \<Rightarrow> int \<Rightarrow> udp_socket \<Rightarrow> ('o, 'z) process_scheme \<Rightarrow> ('o, 'z) process_scheme" where
  "UdpSocket_Shutdown S mode u w = snd (sys_shutdown S (udp_socketFd u) (shut_mode mode) w)"

text \<open>The option is switched off (\<open>opt\<close> is 0).\<close>

definition UdpSocket_SetSocketOpt :: "'o host_calls \<Rightarrow> udp_socket \<Rightarrow> ('o, 'z) process_scheme \<Rightarrow> int option \<times> ('o, 'z) process_scheme" where
  "UdpSocket_SetSocketOpt S u w =
     (case sys_setsockopt S (udp_socketFd u) ''SO_BROADCAST'' False w of (r, w1) \<Rightarrow> (if r = -1 then Some (-1) else None, w1))"

definition UdpSocket_Bind :: "'o host_calls \<Rightarrow> udp_socket \<Rightarrow> ('o, 'z) process_scheme \<Rightarrow> int \<times> ('o, 'z) process_scheme" where
  "UdpSocket_Bind S u w =
     (case sys_bind S (udp_socketFd u) (udp_socketAddr u) w of (r, w1) \<Rightarrow> (if r = -1 then -1 else 0, w1))"

definition sock_ntop :: "sockaddr_in \<Rightarrow> nat \<Rightarrow> string" where
  "sock_ntop sa salen =
     (if sin_family sa = AF_INET then
        inet_ntop False (s_addr sa) @
        (let p = networkToHost16 False (sin_port sa) in if p \<noteq> 0 then '':'' @ dec (unat p) else [])
      else ''sock_ntop: unknown AF_xxx: '' @ dec (unat (sin_family sa)) @ '', len '' @ dec salen)"

text \<open>The address families \<open>sock_ntop\<close> prints as \<open>unknown\<close> also give a string, so the null test never fires.\<close>

definition Sock_ntop :: "sockaddr_in \<Rightarrow> nat \<Rightarrow> string" where
  "Sock_ntop sa salen = sock_ntop sa salen"

definition UDP_BUF_LEN :: nat where "UDP_BUF_LEN = 1024"

definition hello :: "byte list" where
  "hello = map of_char ''hello world''"

text \<open>
  One datagram.  The terminating zero is stored at \<open>socket_buf[num]\<close> for every \<open>num\<close> other
  than 0.  Only an empty datagram makes the function return a value.
\<close>

definition PollTest :: "'o host_calls \<Rightarrow> udp_socket \<Rightarrow> ('o, 'z) process_scheme \<Rightarrow>
    (int option \<times> udp_socket \<times> ('o, 'z) process_scheme) res" where
  "PollTest S u w =
     (case sys_select S (udp_socketFd u) w of ((ret, isset), w1) \<Rightarrow>
        if ret = 0 \<or> ret = -1 \<or> \<not> isset then Inr (None, u, w1)
        else (case sys_recvfrom S (udp_socketFd u) UDP_BUF_LEN w1 of ((num, bs, peer), w2) \<Rightarrow>
          let u1 = (if num < 0 then u else u\<lparr>udp_remote := peer\<rparr>) in
          if num \<noteq> 0 then
            (if num < 0 \<or> int UDP_BUF_LEN \<le> num then Inl Out_of_bounds
             else Inr (None, u1, snd (sys_sendto S (udp_socketFd u1) hello (udp_remote u1) w2)))
          else Inr (Some (-1), u1, w2)))"

text \<open>\<open>Run\<close> compares what \<open>PollTest\<close> returned; the loop may go on forever, so it has fuel.\<close>

fun udp_loop :: "'o host_calls \<Rightarrow> nat \<Rightarrow> udp_socket \<Rightarrow> ('o, 'z) process_scheme \<Rightarrow> (udp_socket \<times> ('o, 'z) process_scheme) res option" where
  "udp_loop S 0 u w = None"
| "udp_loop S (Suc n) u w =
     (case PollTest S u w of
        Inl e \<Rightarrow> Some (Inl e)
      | Inr (None, u1, w1) \<Rightarrow> Some (Inl Indeterminate)
      | Inr (Some r, u1, w1) \<Rightarrow> if r = -1 then Some (Inr (u1, w1)) else udp_loop S n u1 w1)"

definition UdpSocket_Run :: "'o host_calls \<Rightarrow> nat \<Rightarrow> udp_socket \<Rightarrow> ('o, 'z) process_scheme \<Rightarrow> (udp_socket \<times> ('o, 'z) process_scheme) res option" where
  "UdpSocket_Run S n u w = udp_loop S n u (snd (UdpSocket_Bind S u (snd (UdpSocket_SetSocketOpt S u w))))"

text \<open>
  \<open>Run\<close> is decided by the first round: it returns only if the first datagram is empty, having
  answered nothing, and otherwise uses a missing return value or, for a datagram that fills
  the buffer or a failing \<open>recvfrom\<close>, writes outside of it.
\<close>

lemma PollTest_cases:
  "(\<exists>e. PollTest S u w = Inl e \<and> e = Out_of_bounds) \<or> (\<exists>u1 w1. PollTest S u w = Inr (None, u1, w1)) \<or>
   (\<exists>u1 w1 r bs. PollTest S u w = Inr (Some (-1), u1, w1) \<and>
      trace w1 = trace w @ [Sys_select (udp_socketFd u) r, Sys_recvfrom (udp_socketFd u) UDP_BUF_LEN 0 bs])"
  by (simp add: PollTest_def case_prod_beta host_defs Let_def)

lemma udp_run_first_datagram:
  "\<exists>r. UdpSocket_Run S (Suc n) u w = Some r \<and>
     (case r of Inl e \<Rightarrow> e = Indeterminate \<or> e = Out_of_bounds
      | Inr (u1, v) \<Rightarrow> \<exists>es r bs. trace v = trace w @ es @ [Sys_select (udp_socketFd u) r, Sys_recvfrom (udp_socketFd u) UDP_BUF_LEN 0 bs])"
proof -
  let ?x = "snd (UdpSocket_Bind S u (snd (UdpSocket_SetSocketOpt S u w)))"
  have "\<exists>es. trace ?x = trace w @ es"
    by (simp add: UdpSocket_Bind_def UdpSocket_SetSocketOpt_def case_prod_beta sys_eqs Let_def)
  then show ?thesis using PollTest_cases[of S u ?x] by (auto simp: UdpSocket_Run_def)
qed

section \<open>TcpClientSocket\<close>

text \<open>
  The constructor marks the socket as valid whether or not it got one.  The address it parses
  from the uninitialised \<open>ipTab\<close> is overwritten at once, so that only the port remains.
\<close>

record tcp_client =
  tc_socketFd :: int
  tc_port :: int
  tcpSocketIsValid :: bool
  tc_remote :: sockaddr_in

definition TcpClientSocket_new :: "'o host_calls \<Rightarrow> int \<Rightarrow> ('o, 'z) process_scheme \<Rightarrow> tcp_client \<times> ('o, 'z) process_scheme" where
  "TcpClientSocket_new S port w =
     (case sys_socket S w of (r, w1) \<Rightarrow>
        (\<lparr>tc_socketFd = r, tc_port = port, tcpSocketIsValid = True, tc_remote = any_addr port\<rparr>, w1))"

definition TcpClientSocket_delete :: "'o host_calls \<Rightarrow> tcp_client \<Rightarrow> ('o, 'z) process_scheme \<Rightarrow> ('o, 'z) process_scheme" where
  "TcpClientSocket_delete S c w = (if tcpSocketIsValid c then snd (sys_close S (tc_socketFd c) w) else w)"

definition TcpClientSocket_Close :: "'o host_calls \<Rightarrow> tcp_client \<Rightarrow> ('o, 'z) process_scheme \<Rightarrow> ('o, 'z) process_scheme" where
  "TcpClientSocket_Close S c w = snd (sys_close S (tc_socketFd c) w)"

definition TcpClientSocket_Shutdown :: "'o host_calls \<Rightarrow> int \<Rightarrow> tcp_client \<Rightarrow> ('o, 'z) process_scheme \<Rightarrow> ('o, 'z) process_scheme" where
  "TcpClientSocket_Shutdown S mode c w = snd (sys_shutdown S (tc_socketFd c) (shut_mode mode) w)"

definition TcpClientSocket_SetSocketOpt :: "'o host_calls \<Rightarrow> tcp_client \<Rightarrow> ('o, 'z) process_scheme \<Rightarrow> int \<times> ('o, 'z) process_scheme" where
  "TcpClientSocket_SetSocketOpt S c w =
     (0, snd (sys_setsockopt S (tc_socketFd c) ''SO_REUSEPORT'' True
           (snd (sys_setsockopt S (tc_socketFd c) ''SO_REUSEADDR'' True w))))"

text \<open>\<open>Connect\<close> returns 0 in either case.\<close>

definition Connect :: "'o host_calls \<Rightarrow> tcp_client \<Rightarrow> ('o, 'z) process_scheme \<Rightarrow> int \<times> ('o, 'z) process_scheme" where
  "Connect S c w = (case sys_connect S (tc_socketFd c) (tc_remote c) w of (r, w1) \<Rightarrow> (0, w1))"

definition TcpClientSocket_Read :: "'o host_calls \<Rightarrow> nat \<Rightarrow> tcp_client \<Rightarrow> ('o, 'z) process_scheme \<Rightarrow>
    (int \<times> byte list) \<times> ('o, 'z) process_scheme" where
  "TcpClientSocket_Read S len c w =
     (if tcpSocketIsValid c
      then (case sys_read S (tc_socketFd c) len w of ((r, bs, e), w1) \<Rightarrow> ((r, bs), w1)) else ((-1, []), w))"

definition TcpClientSocket_Write :: "'o host_calls \<Rightarrow> byte list \<Rightarrow> tcp_client \<Rightarrow> ('o, 'z) process_scheme \<Rightarrow>
    int option \<times> ('o, 'z) process_scheme" where
  "TcpClientSocket_Write S buff c w =
     (if tcpSocketIsValid c
      then (case sys_send S (tc_socketFd c) buff w of (r, w1) \<Rightarrow> (if r = -1 then Some (-1) else None, w1))
      else (Some (-1), w))"

section \<open>TcpClient\<close>

text \<open>A \<open>TcpClient\<close> (TcpClien.h, TcpClient.cpp) owns a client socket for port 0; its \<open>Run\<close> is empty.\<close>

definition TcpClient_new :: "'o host_calls \<Rightarrow> ('o, 'z) process_scheme \<Rightarrow> tcp_client \<times> ('o, 'z) process_scheme" where
  "TcpClient_new S w = TcpClientSocket_new S 0 w"

definition TcpClient_delete :: "'o host_calls \<Rightarrow> tcp_client \<Rightarrow> ('o, 'z) process_scheme \<Rightarrow> ('o, 'z) process_scheme" where
  "TcpClient_delete S c w = TcpClientSocket_delete S c w"

definition TcpClient_Run :: "tcp_client \<Rightarrow> tcp_client" where
  "TcpClient_Run c = c"

end
