(* ===== verification/NetworkConfig.thy ===== *)
theory NetworkConfig
  imports Ipc
begin

text \<open>
  The addresses of a network interface (NetworkConfig.h, NetworkConfig.cpp) and the timer
  device (timer.h, timer.cpp), both read by \<open>ioctl\<close>.  The requests are further calls of the
  kernel; their results are what it stores in the \<open>ifreq\<close> structure, or the count of the
  device.  The host is little endian.
\<close>

section \<open>Calls\<close>

record 'o ioctl_calls =
  io_addr :: "int \<Rightarrow> string \<Rightarrow> 'o \<Rightarrow> (int \<times> 32 word) \<times> 'o"
  io_hwaddr :: "int \<Rightarrow> string \<Rightarrow> 'o \<Rightarrow> (int \<times> byte list) \<times> 'o"
  io_count :: "int \<Rightarrow> 'o \<Rightarrow> int \<times> 'o"
  io_open :: "string \<Rightarrow> 'o \<Rightarrow> int \<times> 'o"
  io_system :: "string \<Rightarrow> 'o \<Rightarrow> int \<times> 'o"

definition sys_ioctl_addr :: "'o ioctl_calls \<Rightarrow> int \<Rightarrow> string \<Rightarrow> ('o, 'z) process_scheme \<Rightarrow> (int \<times> 32 word) \<times> ('o, 'z) process_scheme" where
  "sys_ioctl_addr K f nm w = (case io_addr K f nm (os w) of ((r, a), k) \<Rightarrow> ((r, a), log_call (Sys_ioctl f ''SIOCGIFADDR'' r) k w))"

definition sys_ioctl_hwaddr :: "'o ioctl_calls \<Rightarrow> int \<Rightarrow> string \<Rightarrow> ('o, 'z) process_scheme \<Rightarrow> (int \<times> byte list) \<times> ('o, 'z) process_scheme" where
  "sys_ioctl_hwaddr K f nm w = (case io_hwaddr K f nm (os w) of ((r, m), k) \<Rightarrow> ((r, m), log_call (Sys_ioctl f ''SIOCGIFHWADDR'' r) k w))"

definition sys_ioctl_count :: "'o ioctl_calls \<Rightarrow> int \<Rightarrow> ('o, 'z) process_scheme \<Rightarrow> int \<times> ('o, 'z) process_scheme" where
  "sys_ioctl_count K f w = (case io_count K f (os w) of (r, k) \<Rightarrow> (r, log_call (Sys_ioctl f ''TMR_IOCTL_GET_CNT'' r) k w))"

definition sys_open :: "'o ioctl_calls \<Rightarrow> string \<Rightarrow> ('o, 'z) process_scheme \<Rightarrow> int \<times> ('o, 'z) process_scheme" where
  "sys_open K path w = (case io_open K path (os w) of (r, k) \<Rightarrow> (r, log_call (Sys_open path r) k w))"

definition sys_system :: "'o ioctl_calls \<Rightarrow> string \<Rightarrow> ('o, 'z) process_scheme \<Rightarrow> int \<times> ('o, 'z) process_scheme" where
  "sys_system K cmd w = (case io_system K cmd (os w) of (r, k) \<Rightarrow> (r, log_call (Sys_system cmd r) k w))"

section \<open>NetworkConfig\<close>

text \<open>
  \<open>ifcName\<close> has 10 bytes, whose contents before the constructor are \<open>mem\<close>; the name is copied
  without a terminating zero.  The members \<open>ip_\<close> and \<open>mac_\<close> hold a string once one was read.
\<close>

record network_config =
  ifcName :: string
  nc_ip :: "string option"
  nc_mac :: "string option"
  nc_mode :: int

definition Nw_Server_Master :: int where "Nw_Server_Master = 0"

definition NetworkConfig_new :: "string \<Rightarrow> string option \<Rightarrow> network_config res" where
  "NetworkConfig_new mem pName =
     ebind (case pName of None \<Rightarrow> Inr mem | Some p \<Rightarrow> copy_path mem p) (\<lambda>m.
       Inr \<lparr>ifcName = m, nc_ip = None, nc_mac = None, nc_mode = Nw_Server_Master\<rparr>)"

text \<open>
  \<open>ipBuf\<close> is the caller's array.  \<open>strncpy\<close> takes at most 15 (\<open>IFNAMSIZ - 1\<close>) characters of the
  name, which has at most 9.  The address is copied without a terminating zero.
\<close>

definition GetIpAddr :: "'o host_calls \<Rightarrow> 'o ioctl_calls \<Rightarrow> string option \<Rightarrow> network_config \<Rightarrow> ('o, 'z) process_scheme \<Rightarrow>
    (int \<times> string option \<times> network_config \<times> ('o, 'z) process_scheme) res" where
  "GetIpAddr S K ipBuf nc w =
     (case ipBuf of
        None \<Rightarrow> Inr (-1, None, nc, w)
      | Some buf \<Rightarrow>
          (case sys_socket S w of (f, w1) \<Rightarrow>
             if f = -1 then Inr (-1, Some buf, nc, w1)
             else ebind (c_string (ifcName nc)) (\<lambda>nm.
               case sys_ioctl_addr K f nm w1 of ((r, a), w2) \<Rightarrow>
                 if r < 0 then Inr (-1, Some buf, nc, snd (sys_close S f w2))
                 else (let ip = take 15 (inet_ntop False a)
                       in ebind (blit 0 ip buf) (\<lambda>buf1. Inr (0, Some buf1, nc\<lparr>nc_ip := Some ip\<rparr>, snd (sys_close S f w2)))))))"

definition hex2 :: "byte \<Rightarrow> string" where
  "hex2 b = (let d = (\<lambda>n. if n < 10 then char_of (48 + n) else char_of (87 + n :: nat)) in [d (unat b div 16), d (unat b mod 16)])"

definition mac_string :: "byte list \<Rightarrow> string" where
  "mac_string m = concat (map (\<lambda>i. (if i = 0 then [] else '':'') @ hex2 (m ! i)) [0..<6])"

definition GetMAC :: "'o host_calls \<Rightarrow> 'o ioctl_calls \<Rightarrow> string option \<Rightarrow> network_config \<Rightarrow> ('o, 'z) process_scheme \<Rightarrow>
    (int \<times> string option \<times> network_config \<times> ('o, 'z) process_scheme) res" where
  "GetMAC S K macBuf nc w =
     (case macBuf of
        None \<Rightarrow> Inr (-1, None, nc, w)
      | Some buf \<Rightarrow>
          (case sys_socket S w of (f, w1) \<Rightarrow>
             if f < 0 then Inr (-1, Some buf, nc, w1)
             else ebind (c_string (ifcName nc)) (\<lambda>nm.
               case sys_ioctl_hwaddr K f nm w1 of ((r, m), w2) \<Rightarrow>
                 if r < 0 then Inr (-1, Some buf, nc, snd (sys_close S f w2))
                 else ebind (blit 0 (mac_string m) buf) (\<lambda>buf1.
                        Inr (0, Some buf1, nc\<lparr>nc_mac := Some (mac_string m)\<rparr>, snd (sys_close S f w2))))))"

section \<open>The timer device\<close>

text \<open>The static pointer: null, to a timer, or to a deleted one.\<close>

record epit_timer =
  isTimerValid :: bool
  timerFd :: int

datatype timer_ptr = No_timer | Live_timer epit_timer | Dangling_timer

definition Timer_new :: "'o ioctl_calls \<Rightarrow> ('o, 'z) process_scheme \<Rightarrow> epit_timer \<times> ('o, 'z) process_scheme" where
  "Timer_new K w =
     (case sys_open K ''/dev/epit'' w of (r, w1) \<Rightarrow> (\<lparr>isTimerValid = (0 \<le> r), timerFd = r\<rparr>, w1))"

definition Timer_delete :: "'o host_calls \<Rightarrow> epit_timer \<Rightarrow> ('o, 'z) process_scheme \<Rightarrow> ('o, 'z) process_scheme" where
  "Timer_delete S t w = (if 0 < timerFd t then snd (sys_close S (timerFd t) w) else w)"

text \<open>A failing \<open>modprobe\<close> is only reported.\<close>

definition InstallTimerModule :: "'o ioctl_calls \<Rightarrow> ('o, 'z) process_scheme \<Rightarrow> ('o, 'z) process_scheme" where
  "InstallTimerModule K w = snd (sys_system K ''modprobe epit'' w)"

text \<open>\<open>Start\<close> and \<open>Stop\<close> of the timer print a line.\<close>

definition Timer_Start :: "epit_timer \<Rightarrow> epit_timer" where
  "Timer_Start t = t"
definition Timer_Stop :: "epit_timer \<Rightarrow> epit_timer" where
  "Timer_Stop t = t"

definition GetCount :: "'o ioctl_calls \<Rightarrow> epit_timer \<Rightarrow> ('o, 'z) process_scheme \<Rightarrow> int \<times> ('o, 'z) process_scheme" where
  "GetCount K t w = (if isTimerValid t then sys_ioctl_count K (timerFd t) w else (-1, w))"

definition EpitTimerInit :: "'o ioctl_calls \<Rightarrow> timer_ptr \<Rightarrow> ('o, 'z) process_scheme \<Rightarrow> timer_ptr \<times> ('o, 'z) process_scheme" where
  "EpitTimerInit K p w =
     (case p of No_timer \<Rightarrow> (case Timer_new K w of (t, w1) \<Rightarrow> (Live_timer t, w1)) | _ \<Rightarrow> (p, w))"

definition EpitTimerDeInit :: "'o host_calls \<Rightarrow> timer_ptr \<Rightarrow> ('o, 'z) process_scheme \<Rightarrow> (timer_ptr \<times> ('o, 'z) process_scheme) res" where
  "EpitTimerDeInit S p w =
     (case p of
        No_timer \<Rightarrow> Inr (p, w)
      | Live_timer t \<Rightarrow> Inr (Dangling_timer, Timer_delete S t w)
      | Dangling_timer \<Rightarrow> Inl Use_after_free)"

definition GetEpitTimerCount :: "'o ioctl_calls \<Rightarrow> timer_ptr \<Rightarrow> ('o, 'z) process_scheme \<Rightarrow> (int \<times> ('o, 'z) process_scheme) res" where
  "GetEpitTimerCount K p w =
     (case p of
        No_timer \<Rightarrow> Inl Null_dereference
      | Live_timer t \<Rightarrow> Inr (GetCount K t w)
      | Dangling_timer \<Rightarrow> Inl Use_after_free)"

end
