(* ===== verification/NetworkApp.thy ===== *)
theory NetworkApp
  imports ServerThreads NetworkConfig
begin

text \<open>
  The class \<open>Network\<close> (Network.h, Network.cpp), which owns the servers of the older layer, the
  functions that start and stop it, and the command loop of main.cpp.

  The four server pointers are the values of \<open>servers\<close>; only the first two are ever set.  A
  member function runs on one of them through \<open>on_server\<close>, which makes it the current object
  \<open>srv\<close> of the process.  \<open>pUdpSocket\<close> stays null.
\<close>

section \<open>The class\<close>

datatype slot = TcpSocket | TcpSocketConfig | TcpSocketImage | TcpDecoderData

record network =
  servers :: "slot \<Rightarrow> tcp_socket option"
  TcpServerPort :: int
  UdpPort :: int
  nw_running :: bool
  listener :: bool
  pNwCong :: network_config

type_synonym ('o, 'z) net_world = "network \<times> ('o, 'z) tcp_world_scheme"

definition on_server :: "slot \<Rightarrow> (('o, 'z) tcp_world_scheme \<Rightarrow> ('o, 'z) tcp_world_scheme res) \<Rightarrow>
    ('o, 'z) net_world \<Rightarrow> ('o, 'z) net_world res" where
  "on_server s f nw =
     (case nw of (net, w) \<Rightarrow>
        case servers net s of
          None \<Rightarrow> Inr (net, w)
        | Some t \<Rightarrow> ebind (f (w\<lparr>srv := t\<rparr>)) (\<lambda>v. Inr (net\<lparr>servers := (servers net)(s \<mapsto> srv v)\<rparr>, v)))"

definition on_servers :: "slot list \<Rightarrow> (slot \<Rightarrow> ('o, 'z) tcp_world_scheme \<Rightarrow> ('o, 'z) tcp_world_scheme res) \<Rightarrow>
    ('o, 'z) net_world \<Rightarrow> ('o, 'z) net_world res" where
  "on_servers ss f nw = foldE (\<lambda>s. on_server s (f s)) ss nw"

definition all_slots :: "slot list" where
  "all_slots = [TcpSocket, TcpSocketConfig, TcpSocketImage, TcpDecoderData]"

text \<open>
  The constructor: both servers, then the interface \<open>eth0\<close>, whose addresses it reads into an
  array of 18 zeros and logs.  \<open>tcp_port + 30\<close> is an \<open>int\<close> addition.
\<close>

definition Network_new :: "'o host_calls \<Rightarrow> 'o ioctl_calls \<Rightarrow> string \<Rightarrow> int \<Rightarrow> ('o, 'z) tcp_world_scheme \<Rightarrow> ('o, 'z) net_world res" where
  "Network_new S K mem port w =
     (if 2 ^ 31 \<le> port + 30 then Inl Signed_overflow
      else (let w1 = new_tcp_socket (port + 30) TCP_SERVER_TYPE_CONCURRENT w; t1 = srv w1;
                w2 = new_tcp_socket port TCP_SERVER_TYPE_NONE_CONCURRENT w1; t2 = srv w2;
                tmp = replicate 18 (CHR 0x00)
            in ebind (NetworkConfig_new mem (Some ''eth0'')) (\<lambda>nc.
               ebind (GetIpAddr S K (Some tmp) nc w2) (\<lambda>(r, tmp1, nc1, w3).
               ebind (GetMAC S K tmp1 nc1 w3) (\<lambda>(r', tmp2, nc2, w4).
                 Inr (\<lparr>servers = [TcpSocket \<mapsto> t1, TcpSocketConfig \<mapsto> t2], TcpServerPort = port, UdpPort = port,
                       nw_running = False, listener = False, pNwCong = nc2\<rparr>, w4))))))"

text \<open>\<open>finish s\<close> is what the thread of a server still does when it is joined.\<close>

definition Network_delete :: "'o host_calls \<Rightarrow> (slot \<Rightarrow> ('o, 'z) tcp_world_scheme \<Rightarrow> ('o, 'z) tcp_world_scheme res) \<Rightarrow>
    ('o, 'z) net_world \<Rightarrow> ('o, 'z) net_world res" where
  "Network_delete S finish nw =
     ebind (on_servers all_slots (\<lambda>s. destroy_tcp_socket S (finish s)) nw) (\<lambda>(net, w).
       if listener net then Inl Terminate_called else Inr (net\<lparr>servers := Map.empty\<rparr>, w))"

definition Network_Start :: "'o host_calls \<Rightarrow> ('o, 'z) net_world \<Rightarrow> ('o, 'z) net_world res" where
  "Network_Start S nw = on_servers all_slots (\<lambda>_ w. Inr (ts_Start S w)) nw"

definition Network_Stop :: "'o host_calls \<Rightarrow> (slot \<Rightarrow> ('o, 'z) tcp_world_scheme \<Rightarrow> ('o, 'z) tcp_world_scheme res) \<Rightarrow>
    ('o, 'z) net_world \<Rightarrow> ('o, 'z) net_world res" where
  "Network_Stop S finish nw = on_servers all_slots (\<lambda>s. ts_Stop S (finish s)) nw"

definition GetServerPort :: "network \<Rightarrow> int" where
  "GetServerPort net = TcpServerPort net"

definition SetServerPort :: "int \<Rightarrow> network \<Rightarrow> network" where
  "SetServerPort port net = net\<lparr>TcpServerPort := port\<rparr>"

definition Network_RegisterScanDriver :: "nat option \<Rightarrow> nat option \<Rightarrow> ('o, 'z) net_world \<Rightarrow> ('o, 'z) net_world res" where
  "Network_RegisterScanDriver scan_driver event_manager nw =
     on_servers all_slots (\<lambda>_ w. Inr (upd_srv (RegisterScanDriver scan_driver event_manager) w)) nw"

definition Network_UnRegisterScanDriver :: "('o, 'z) net_world \<Rightarrow> ('o, 'z) net_world res" where
  "Network_UnRegisterScanDriver nw = on_servers all_slots (\<lambda>_ w. Inr (upd_srv UnRegisterScanDriver w)) nw"

definition config_slots :: "slot list" where
  "config_slots = [TcpSocket, TcpSocketConfig, TcpDecoderData]"

definition Network_RegisterConfiguration :: "nat option \<Rightarrow> ('o, 'z) net_world \<Rightarrow> ('o, 'z) net_world res" where
  "Network_RegisterConfiguration pRc nw =
     on_servers config_slots (\<lambda>_ w. Inr (upd_srv (\<lambda>t. snd (RegisterConfiguration pRc t)) w)) nw"

definition Network_UnRegisterConfiguration :: "('o, 'z) net_world \<Rightarrow> ('o, 'z) net_world res" where
  "Network_UnRegisterConfiguration nw = on_servers config_slots (\<lambda>_ w. ebind (UnRegisterConfiguration w) (\<lambda>(r, v). Inr v)) nw"

text \<open>
  The listener thread only counts its waits; \<open>listener\<close> is whether a thread is attached to
  \<open>listenerT\<close>.  The count is an \<open>int\<close>.
\<close>

definition StarThread :: "network \<Rightarrow> network res" where
  "StarThread net =
     (if nw_running net then Inr net
      else if listener net then Inl Terminate_called else Inr (net\<lparr>nw_running := True, listener := True\<rparr>))"

definition Network_StopThread :: "network \<Rightarrow> network res" where
  "Network_StopThread net =
     (if nw_running net
      then (if listener net then Inr (net\<lparr>nw_running := False, listener := False\<rparr>) else Inl System_error)
      else Inr net)"

fun NetworkListenerThread :: "nat \<Rightarrow> int \<Rightarrow> int res" where
  "NetworkListenerThread 0 count = Inr count"
| "NetworkListenerThread (Suc n) count =
     (if count + 1 = 2 ^ 31 then Inl Signed_overflow else NetworkListenerThread n (count + 1))"

section \<open>The process\<close>

text \<open>
  The global pointers.  In this build (\<open>USE_IPC_CLASS\<close> is not defined and the creation of the
  \<open>Network\<close> is commented out) \<open>InitNetworkServer\<close> leaves all three null; see \<open>boot\<close> in
  \<open>ServerRuns\<close> for what it does.
\<close>

record ('o, 'z) app =
  app_world :: "('o, 'z) tcp_world_scheme"
  gNetworkPtr :: "network option"
  gIpcServer :: "ipc_server option"
  gIpcClient :: "ipc_client option"
  app_thread :: stream

definition on_network :: "(('o, 'z) net_world \<Rightarrow> ('o, 'z) net_world res) \<Rightarrow> ('o, 'z) app \<Rightarrow> ('o, 'z) app res" where
  "on_network f a =
     (case gNetworkPtr a of
        None \<Rightarrow> Inr a
      | Some net \<Rightarrow> ebind (f (net, app_world a)) (\<lambda>(net1, w). Inr (a\<lparr>gNetworkPtr := Some net1, app_world := w\<rparr>)))"

definition StartNetworkServer :: "'o host_calls \<Rightarrow> ('o, 'z) app \<Rightarrow> ('o, 'z) app res" where
  "StartNetworkServer S =
     on_network (\<lambda>nw. ebind (Network_Start S nw) (\<lambda>(net, w). ebind (StarThread net) (\<lambda>net1. Inr (net1, w))))"

definition StopNetworkServer :: "'o host_calls \<Rightarrow> (slot \<Rightarrow> ('o, 'z) tcp_world_scheme \<Rightarrow> ('o, 'z) tcp_world_scheme res) \<Rightarrow>
    ('o, 'z) app \<Rightarrow> ('o, 'z) app res" where
  "StopNetworkServer S finish =
     on_network (\<lambda>nw. case nw of (net, w) \<Rightarrow> ebind (Network_StopThread net) (\<lambda>net1. Network_Stop S finish (net1, w)))"

text \<open>A call through a pointer to an \<open>IpcClient\<close> or \<open>IPC\<close>; both read a member of the object.\<close>

definition app_client :: "(ipc_client \<Rightarrow> ('o, 'z) tcp_world_scheme \<Rightarrow> (ipc_client \<times> ('o, 'z) tcp_world_scheme) res) \<Rightarrow>
    ('o, 'z) app \<Rightarrow> ('o, 'z) app res" where
  "app_client f a =
     (case gIpcClient a of
        None \<Rightarrow> Inl Null_dereference
      | Some c \<Rightarrow> ebind (f c (app_world a)) (\<lambda>(c1, w). Inr (a\<lparr>gIpcClient := Some c1, app_world := w\<rparr>)))"

definition app_write :: "'o host_calls \<Rightarrow> byte list \<Rightarrow> ('o, 'z) app \<Rightarrow> ('o, 'z) app res" where
  "app_write S bs a =
     (case gIpcServer a of
        None \<Rightarrow> Inl Null_dereference
      | Some s \<Rightarrow>
          (let w = app_world a;
               v = snd (IpcWrite S bs \<lparr>os = os w, trace = trace w, ipc = s, ipc_thread = app_thread a\<rparr>)
           in Inr (a\<lparr>app_world := w\<lparr>os := os v, trace := trace v\<rparr>\<rparr>)))"

definition command :: "'o host_calls \<Rightarrow> (slot \<Rightarrow> ('o, 'z) tcp_world_scheme \<Rightarrow> ('o, 'z) tcp_world_scheme res) \<Rightarrow>
    char \<Rightarrow> ('o, 'z) app \<Rightarrow> ('o, 'z) app res" where
  "command S finish c a =
     (if c = CHR ''0'' then app_client (\<lambda>cl w. Inr (snd (TryDisconnect S cl w))) a
      else if c = CHR ''1'' then app_client (\<lambda>cl w. ebind (TryConnect S cl w) (\<lambda>(r, x). Inr x)) a
      else if c = CHR ''2'' then app_write S (map of_char (''hello world!'' @ [CHR 0x00])) a
      else if c = CHR ''3'' then StartNetworkServer S a
      else if c = CHR ''4'' then StopNetworkServer S finish a
      else Inr a)"

text \<open>
  The loop over the input.  The character is stored in a (signed) \<open>char\<close> before it is compared
  with \<open>EOF\<close>, so that the byte 0xff ends the loop like the end of the input.
\<close>

fun main_loop :: "'o host_calls \<Rightarrow> (slot \<Rightarrow> ('o, 'z) tcp_world_scheme \<Rightarrow> ('o, 'z) tcp_world_scheme res) \<Rightarrow>
    string \<Rightarrow> ('o, 'z) app \<Rightarrow> ('o, 'z) app res" where
  "main_loop S finish [] a = Inr a"
| "main_loop S finish (c # cs) a =
     (if c = CHR 0xFF then Inr a else ebind (command S finish c a) (main_loop S finish cs))"

definition started_app :: "('o, 'z) tcp_world_scheme \<Rightarrow> ('o, 'z) app" where
  "started_app w = \<lparr>app_world = w, gNetworkPtr = None, gIpcServer = None, gIpcClient = None,
     app_thread = \<lparr>joinable = False, stream_exit = False\<rparr>\<rparr>"

section \<open>Properties\<close>

lemma command_null:
  "command S finish c (started_app w) =
     (if c \<in> {CHR ''0'', CHR ''1'', CHR ''2''} then Inl Null_dereference else Inr (started_app w))"
  by (simp add: command_def started_app_def app_client_def app_write_def StartNetworkServer_def StopNetworkServer_def
      on_network_def)

text \<open>C35: After start-up the commands 0, 1 and 2 of the menu dereference a null pointer: the loop
  ends the program normally exactly if none of them occurs before the end of the input, which
  the byte 0xff marks as well; the commands 3 and 4 then do nothing at all.\<close>
theorem menu_faults:
  "main_loop S finish cs (started_app w) =
     (if set (takeWhile (\<lambda>c. c \<noteq> CHR 0xFF) cs) \<inter> {CHR ''0'', CHR ''1'', CHR ''2''} = {}
      then Inr (started_app w) else Inl Null_dereference)"
proof (induction cs)
  case (Cons c cs)
  then show ?case by (simp add: command_null)
qed simp

text \<open>A configuration registered with the class is shared by its servers, and unregistering it
  deletes it once for each of them: with both servers present the second deletion hits a dead
  object.\<close>
lemma shared_configuration_deleted_twice:
  assumes "servers net TcpSocket = Some t1" "servers net TcpSocketConfig = Some t2"
    and "pReaderConfig t1 = None" "pReaderConfig t2 = None" "p \<in> live_configs w"
  shows "ebind (Network_RegisterConfiguration (Some p) (net, w)) Network_UnRegisterConfiguration = Inl Use_after_free"
  using assms
  by (cases "servers net TcpDecoderData")
    (simp_all add: Network_RegisterConfiguration_def Network_UnRegisterConfiguration_def on_servers_def on_server_def
      config_slots_def RegisterConfiguration_def UnRegisterConfiguration_def upd_srv_def)

text \<open>The two servers of the class, with a live configuration 7.\<close>

definition two_servers :: network where
  "two_servers = \<lparr>servers = [TcpSocket \<mapsto> blank_socket 55296 TCP_SERVER_TYPE_CONCURRENT,
       TcpSocketConfig \<mapsto> blank_socket 55266 TCP_SERVER_TYPE_NONE_CONCURRENT],
     TcpServerPort = 55266, UdpPort = 55266, nw_running = False, listener = False,
     pNwCong = \<lparr>ifcName = [], nc_ip = None, nc_mac = None, nc_mode = Nw_Server_Master\<rparr>\<rparr>"

definition config_process :: "nat tcp_world" where
  "config_process = \<lparr>os = 0, trace = [], srv = blank_socket 0 TCP_SERVER_TYPE_CONCURRENT,
     numOfConcurrentServer = 1, live_configs = {7}, last_num = -1\<rparr>"

lemma shared_configuration_deleted_twice_witness:
  "ebind (Network_RegisterConfiguration (Some 7) (two_servers, config_process)) Network_UnRegisterConfiguration = Inl Use_after_free"
  by (rule shared_configuration_deleted_twice[where ?t1.0 = "blank_socket 55296 TCP_SERVER_TYPE_CONCURRENT"
        and ?t2.0 = "blank_socket 55266 TCP_SERVER_TYPE_NONE_CONCURRENT"])
    (simp_all add: two_servers_def config_process_def blank_socket_def)

end
