(* ===== verification/FifoIpc.thy ===== *)
theory FifoIpc
  imports NetworkConfig
begin

text \<open>
  The older \<open>IPC\<close> of Tools (Tools/include/Ipc.h, Tools/src/Ipc.cpp): a named pipe, opened for
  reading and writing, and a static thread that prints what arrives.  \<open>access\<close>, \<open>mkfifo\<close>,
  \<open>open\<close> and \<open>poll\<close> are parameters, and so is a \<open>read\<close> into a null pointer, which the kernel
  refuses when there is data.  The constructor allocates the buffer only where it
  creates the pipe; \<open>fifo_buf\<close> is \<open>None\<close> for the null pointer.
\<close>

unbundle bit_operations_syntax

section \<open>Calls\<close>

record 'o fifo_calls = "'o host_calls" +
  os_mkfifo :: "string \<Rightarrow> 'o \<Rightarrow> int \<times> 'o"
  os_open :: "string \<Rightarrow> 'o \<Rightarrow> int \<times> 'o"
  os_poll :: "int \<Rightarrow> 'o \<Rightarrow> (int \<times> bool) \<times> 'o"
  os_read_null :: "int \<Rightarrow> nat \<Rightarrow> 'o \<Rightarrow> int \<times> 'o"

definition sys_fifo_access :: "'o fifo_calls \<Rightarrow> string \<Rightarrow> ('o, 'z) process_scheme \<Rightarrow> int \<times> ('o, 'z) process_scheme" where
  "sys_fifo_access S path w = (case os_access S path (os w) of (r, k) \<Rightarrow> (r, log_call (Sys_access path r) k w))"

definition sys_fifo_unlink :: "'o fifo_calls \<Rightarrow> string \<Rightarrow> ('o, 'z) process_scheme \<Rightarrow> int \<times> ('o, 'z) process_scheme" where
  "sys_fifo_unlink S path w = (case os_unlink S path (os w) of (r, k) \<Rightarrow> (r, log_call (Sys_unlink path r) k w))"

definition sys_mkfifo :: "'o fifo_calls \<Rightarrow> string \<Rightarrow> ('o, 'z) process_scheme \<Rightarrow> int \<times> ('o, 'z) process_scheme" where
  "sys_mkfifo S path w = (case os_mkfifo S path (os w) of (r, k) \<Rightarrow> (r, log_call (Sys_mkfifo path r) k w))"

definition sys_fifo_open :: "'o fifo_calls \<Rightarrow> string \<Rightarrow> ('o, 'z) process_scheme \<Rightarrow> int \<times> ('o, 'z) process_scheme" where
  "sys_fifo_open S path w = (case os_open S path (os w) of (r, k) \<Rightarrow> (r, log_call (Sys_open path r) k w))"

text \<open>\<open>poll\<close> on one descriptor without a timeout; the flag is \<open>POLLIN\<close> in \<open>revents\<close>.\<close>

definition sys_poll :: "'o fifo_calls \<Rightarrow> int \<Rightarrow> ('o, 'z) process_scheme \<Rightarrow> (int \<times> bool) \<times> ('o, 'z) process_scheme" where
  "sys_poll S f w = (case os_poll S f (os w) of ((r, b), k) \<Rightarrow> ((r, b), log_call (Sys_poll f r) k w))"

definition sys_read_null :: "'o fifo_calls \<Rightarrow> int \<Rightarrow> nat \<Rightarrow> ('o, 'z) process_scheme \<Rightarrow> int \<times> ('o, 'z) process_scheme" where
  "sys_read_null S f n w = (case os_read_null S f n (os w) of (r, k) \<Rightarrow> (r, log_call (Sys_read f n r []) k w))"

lemmas fifo_call_defs = sys_fifo_access_def sys_fifo_unlink_def sys_mkfifo_def sys_fifo_open_def sys_poll_def
  sys_read_null_def

section \<open>State\<close>

text \<open>\<open>printed\<close> are the strings the thread has printed.\<close>

record 'o fifo_world = "'o process" +
  fifo_buf :: "byte list option"
  pipeFd :: int
  bufLen :: int
  fifo_thread :: stream
  printed :: "byte list list"

definition IPC_NAME :: string where "IPC_NAME = ''/tmp/hf800_fifo''"

section \<open>Operations\<close>

text \<open>A failing \<open>mkfifo\<close> leaves the object without a descriptor; \<open>new\<close> with a negative length throws.\<close>

definition Fifo_new :: "'o fifo_calls \<Rightarrow> int \<Rightarrow> ('o, 'z) fifo_world_scheme \<Rightarrow> ('o, 'z) fifo_world_scheme res" where
  "Fifo_new S len w0 =
     (let w = w0\<lparr>fifo_buf := None, pipeFd := -1, bufLen := len\<rparr>;
          open_pipe = (\<lambda>u. case sys_fifo_open S IPC_NAME u of (r, v) \<Rightarrow> Inr (v\<lparr>pipeFd := r\<rparr>))
      in case sys_fifo_access S IPC_NAME w of (a, w1) \<Rightarrow>
           if a = -1 then
             (case sys_mkfifo S IPC_NAME w1 of (r, w2) \<Rightarrow>
                if r \<noteq> 0 then Inr w2
                else if len < 0 then Inl Terminate_called
                else open_pipe (w2\<lparr>fifo_buf := Some (replicate (nat len) 0)\<rparr>))
           else open_pipe w1)"

definition Fifo_delete :: "'o fifo_calls \<Rightarrow> ('o, 'z) fifo_world_scheme \<Rightarrow> ('o, 'z) fifo_world_scheme" where
  "Fifo_delete S w =
     (let w1 = (if 0 < pipeFd w then snd (sys_close S (pipeFd w) w) else w)
      in snd (sys_fifo_unlink S IPC_NAME (w1\<lparr>fifo_buf := None\<rparr>)))"

definition Fifo_IpcWrite :: "'o fifo_calls \<Rightarrow> byte list \<Rightarrow> ('o, 'z) fifo_world_scheme \<Rightarrow> int \<times> ('o, 'z) fifo_world_scheme" where
  "Fifo_IpcWrite S buf w = (case sys_write S (pipeFd w) buf w of ((r, e), w1) \<Rightarrow> (r, w1))"

text \<open>\<open>Starthread\<close> and \<open>StopThread\<close> call the static functions, which return nothing.\<close>

definition StartIpcThread :: "('o, 'z) fifo_world_scheme \<Rightarrow> ('o, 'z) fifo_world_scheme res" where
  "StartIpcThread w = ebind (start_thread (fifo_thread w)) (\<lambda>t. Inr (w\<lparr>fifo_thread := t\<rparr>))"

definition StopIpcThread :: "('o, 'z) fifo_world_scheme \<Rightarrow> ('o, 'z) fifo_world_scheme res" where
  "StopIpcThread w = ebind (stop_thread (fifo_thread w)) (\<lambda>t. Inr (w\<lparr>fifo_thread := t\<rparr>))"

definition Fifo_Starthread :: "('o, 'z) fifo_world_scheme \<Rightarrow> ('o, 'z) fifo_world_scheme res" where
  "Fifo_Starthread w = StartIpcThread w"
definition Fifo_StopThread :: "('o, 'z) fifo_world_scheme \<Rightarrow> ('o, 'z) fifo_world_scheme res" where
  "Fifo_StopThread w = StopIpcThread w"
definition Fifo_GetFd :: "('o, 'z) fifo_world_scheme \<Rightarrow> int" where
  "Fifo_GetFd w = pipeFd w"
definition Fifo_GetBUff :: "('o, 'z) fifo_world_scheme \<Rightarrow> byte list option" where
  "Fifo_GetBUff w = fifo_buf w"

section \<open>The thread\<close>

text \<open>\<open>printf("%s")\<close> prints up to the first zero; reading on past the buffer is a fault.\<close>

definition print_string :: "byte list \<Rightarrow> ('o, 'z) fifo_world_scheme \<Rightarrow> ('o, 'z) fifo_world_scheme res" where
  "print_string b w =
     (if 0 \<in> set b then Inr (w\<lparr>printed := printed w @ [takeWhile (\<lambda>x. x \<noteq> 0) b]\<rparr>) else Inl Out_of_bounds)"

text \<open>
  One \<open>read\<close> of up to 512 bytes into the buffer, and \<open>memset(buf, 0, len + 1)\<close>.  Through the null
  pointer the call of \<open>read\<close> can only fail, and a \<open>memset\<close> of no bytes does nothing.
\<close>

definition fifo_receive :: "'o fifo_calls \<Rightarrow> int \<Rightarrow> ('o, 'z) fifo_world_scheme \<Rightarrow> ('o, 'z) fifo_world_scheme res" where
  "fifo_receive S f w =
     (case fifo_buf w of
        None \<Rightarrow> (case sys_read_null S f 512 w of (len, w1) \<Rightarrow> if 0 \<le> len then Inl Null_dereference else Inr w1)
      | Some b \<Rightarrow>
          (case sys_read S f 512 w of ((len, bs, e), w1) \<Rightarrow>
             ebind (blit 0 (take (nat len) bs) b) (\<lambda>b1.
             ebind (if 0 < len then print_string b1 w1 else Inr w1) (\<lambda>w2.
             ebind (blit 0 (replicate (nat (len + 1)) 0) b1) (\<lambda>b2. Inr (w2\<lparr>fifo_buf := Some b2\<rparr>))))))"

definition fifo_round :: "'o fifo_calls \<Rightarrow> int \<Rightarrow> ('o, 'z) fifo_world_scheme \<Rightarrow> ('o, 'z) fifo_world_scheme res" where
  "fifo_round S f w =
     (case sys_poll S f w of ((r, pollin), w1) \<Rightarrow> if 0 < r \<and> pollin then fifo_receive S f w1 else Inr w1)"

definition FifoThread :: "'o fifo_calls \<Rightarrow> nat \<Rightarrow> ('o, 'z) fifo_world_scheme \<Rightarrow> ('o, 'z) fifo_world_scheme res" where
  "FifoThread S n w = rounds (fifo_round S (Fifo_GetFd w)) n w"

section \<open>What the thread prints\<close>

text \<open>The documented result of \<open>read\<close> of 512 bytes: as many bytes as it says, at most 512.\<close>

definition fifo_reads_ok :: "'o fifo_calls \<Rightarrow> bool" where
  "fifo_reads_ok S \<longleftrightarrow> (\<forall>f k. let r = fst (os_read S f 512 k) in
     fst r \<le> 512 \<and> (0 < fst r \<longrightarrow> length (fst (snd r)) = nat (fst r)))"

text \<open>The data that reads delivered, in order.\<close>

fun deliveries :: "sysev list \<Rightarrow> byte list list" where
  "deliveries [] = []"
| "deliveries (Sys_read f n r bs # es) = (if 0 < r then [bs] else []) @ deliveries es"
| "deliveries (_ # es) = deliveries es"

lemma deliveries_append: "deliveries (es @ fs) = deliveries es @ deliveries fs"
  by (induction es rule: deliveries.induct) auto

definition until_zero :: "byte list \<Rightarrow> byte list" where
  "until_zero bs = takeWhile (\<lambda>x. x \<noteq> 0) bs"

lemma until_zero_padded: "until_zero (bs @ replicate n 0) = until_zero bs"
  unfolding until_zero_def by (induction bs) (cases n, auto)

lemma fifo_frame [simp]:
  "fifo_buf (log_call e k w) = fifo_buf w" "printed (log_call e k w) = printed w"
  by (simp_all add: log_call_def)

text \<open>A message is read over zeros, printed up to its first zero, and erased again.\<close>

lemma fifo_receive_clear:
  assumes S: "fifo_reads_ok S" and b: "fifo_buf w = Some (replicate L 0)" and L: "513 \<le> L"
  shows "\<exists>v r bs. fifo_receive S f w = Inr v \<and> fifo_buf v = Some (replicate L 0) \<and>
           trace v = trace w @ [Sys_read f 512 r bs] \<and>
           printed v = printed w @ map until_zero (deliveries [Sys_read f 512 r bs])"
proof -
  obtain r bs e k where rd: "os_read S f 512 (os w) = ((r, bs, e), k)" by (metis surj_pair)
  let ?w1 = "log_call (Sys_read f 512 r bs) k w" let ?d = "take (nat r) bs"
  have sr: "sys_read S f 512 w = ((r, bs, e), ?w1)" by (simp add: sys_read_def rd)
  have r: "r \<le> 512" "0 < r \<Longrightarrow> length bs = nat r"
    using S rd by (auto simp: fifo_reads_ok_def Let_def dest!: spec[of _ f] spec[of _ "os w"])
  have d: "length ?d = nat r"
  proof (cases "0 < r")
    case False
    then show ?thesis by simp
  qed (use r in simp)
  let ?b1 = "?d @ replicate (L - nat r) 0"
  have fit: "nat r < L" using r(1) L by simp
  have b1: "blit 0 ?d (replicate L 0) = Inr ?b1" using d fit by (simp add: blit_def)
  let ?w2 = "if 0 < r then ?w1\<lparr>printed := printed w @ [until_zero bs]\<rparr> else ?w1"
  have "until_zero ?b1 = until_zero bs" if "0 < r" using r(2)[OF that] by (simp add: until_zero_padded)
  then have p: "(if 0 < r then print_string ?b1 ?w1 else Inr ?w1) = Inr ?w2"
    using fit by (auto simp: print_string_def until_zero_def)
  have n: "nat (r + 1) \<le> L" using r(1) L by linarith
  have "blit 0 (replicate (nat (r + 1)) 0) ?b1 = Inr (replicate (nat (r + 1)) 0 @ drop (nat (r + 1)) ?b1)"
    using n d fit by (simp add: blit_def)
  moreover have "drop (nat (r + 1)) ?b1 = replicate (L - nat (r + 1)) 0"
  proof -
    have "nat r \<le> nat (r + 1)" by simp
    then show ?thesis using d n by (simp add: drop_append)
  qed
  ultimately have b2: "blit 0 (replicate (nat (r + 1)) 0) ?b1 = Inr (replicate L 0)"
    using n by (simp add: replicate_add[symmetric])
  have "fifo_receive S f w = Inr (?w2\<lparr>fifo_buf := Some (replicate L 0)\<rparr>)"
    using b1 p b2 by (simp add: fifo_receive_def b sr)
  then show ?thesis by auto
qed

lemma fifo_rounds_clear:
  assumes S: "fifo_reads_ok S" and L: "513 \<le> L" and b: "fifo_buf w = Some (replicate L 0)"
  shows "\<exists>v es. rounds (fifo_round S f) n w = Inr v \<and> fifo_buf v = Some (replicate L 0) \<and>
           trace v = trace w @ es \<and> printed v = printed w @ map until_zero (deliveries es)"
  using b
proof (induction n arbitrary: w)
  case 0
  then show ?case by (auto intro!: exI[of _ "[]"])
next
  case (Suc n)
  obtain r p k where poll: "os_poll S f (os w) = ((r, p), k)" by (metis surj_pair)
  let ?w1 = "log_call (Sys_poll f r) k w"
  have sp: "sys_poll S f w = ((r, p), ?w1)" by (simp add: sys_poll_def poll)
  obtain u es where u: "fifo_round S f w = Inr u" "fifo_buf u = Some (replicate L 0)"
    "trace u = trace w @ es" "printed u = printed w @ map until_zero (deliveries es)"
  proof (cases "0 < r \<and> p")
    case True
    have "fifo_buf ?w1 = Some (replicate L 0)" using Suc.prems by simp
    from fifo_receive_clear[OF S this L, of f] True show ?thesis
      using that[of _ "[Sys_poll f r, _]"] by (auto simp: fifo_round_def sp)
  next
    case False
    then show ?thesis using that[of ?w1 "[Sys_poll f r]"] Suc.prems by (auto simp: fifo_round_def sp)
  qed
  from Suc.IH[OF u(2)] u show ?case by (auto simp: deliveries_append intro!: exI[of _ "es @ _"])
qed

text \<open>Without a buffer nothing is read, and so nothing is printed.\<close>

lemma fifo_rounds_mute:
  assumes S: "\<And>f k. fst (os_read_null S f 512 k) < 0" and b: "fifo_buf w = None"
  shows "\<exists>v es. rounds (fifo_round S f) n w = Inr v \<and> trace v = trace w @ es \<and> printed v = printed w \<and>
           deliveries es = []"
  using b
proof (induction n arbitrary: w)
  case 0
  then show ?case by (auto intro!: exI[of _ "[]"])
next
  case (Suc n)
  obtain r p k where poll: "os_poll S f (os w) = ((r, p), k)" by (metis surj_pair)
  let ?w1 = "log_call (Sys_poll f r) k w"
  obtain u es where u: "fifo_round S f w = Inr u" "fifo_buf u = None" "trace u = trace w @ es"
    "printed u = printed w" "deliveries es = []"
  proof (cases "0 < r \<and> p")
    case True
    obtain x k' where x: "os_read_null S f 512 k = (x, k')" by (metis surj_pair)
    moreover have "x < 0" using S[of f k] x by simp
    ultimately show ?thesis
      using that[of "log_call (Sys_read f 512 x []) k' ?w1" "[Sys_poll f r, Sys_read f 512 x []]"] True Suc.prems
      by (simp add: fifo_round_def fifo_receive_def fifo_call_defs poll)
  next
    case False
    then show ?thesis using that[of ?w1 "[Sys_poll f r]"] Suc.prems by (auto simp: fifo_round_def fifo_call_defs poll)
  qed
  from Suc.IH[OF u(2)] u show ?case by (auto simp: deliveries_append intro!: exI[of _ "es @ _"])
qed

lemma Fifo_new_buffer:
  assumes "Fifo_new S len w0 = Inr w"
  shows "fifo_buf w = None \<or> fst (os_access S IPC_NAME (os w0)) = -1 \<and> fifo_buf w = Some (replicate (nat len) 0)"
  using assms by (auto simp: Fifo_new_def fifo_call_defs case_prod_beta Let_def split: if_splits)

text \<open>C20: The pipe's thread prints every message that \<open>read\<close> delivers, in order, up to its first zero byte,
  with nothing left over from an earlier one, provided that its buffer has more than 512 bytes.
  But a constructor that finds the pipe already there allocates no buffer, and then nothing is
  ever read.\<close>
theorem fifo_prints_received:
  assumes "fifo_reads_ok S" and "\<And>f k. fst (os_read_null S f 512 k) < 0"
    and "Fifo_new S len w0 = Inr w" and "513 \<le> len"
  shows "\<exists>v es. FifoThread S n w = Inr v \<and> trace v = trace w @ es \<and>
           printed v = printed w @ map until_zero (deliveries es) \<and>
           (fst (os_access S IPC_NAME (os w0)) = -1 \<or> deliveries es = [])"
proof (cases "fifo_buf w = None")
  case True
  from fifo_rounds_mute[OF assms(2) True, where f = "Fifo_GetFd w" and n = n] show ?thesis
    by (auto simp: FifoThread_def)
next
  case False
  then have a: "fst (os_access S IPC_NAME (os w0)) = -1" and b: "fifo_buf w = Some (replicate (nat len) 0)"
    using Fifo_new_buffer[OF assms(3)] by auto
  have "513 \<le> nat len" using assms(4) by simp
  from fifo_rounds_clear[OF assms(1) this b, where f = "Fifo_GetFd w" and n = n] a show ?thesis
    unfolding FifoThread_def by auto
qed

text \<open>A kernel on which the pipe does not exist yet and two messages arrive.\<close>

definition fifo_kernel :: "nat fifo_calls" where
  "fifo_kernel =
     \<lparr>os_socket = (\<lambda>k. (3, k)), os_eventfd = (\<lambda>k. (4, k)), os_epoll_create = (\<lambda>k. (5, k)),
      os_setsockopt = (\<lambda>_ _ _ k. (0, k)), os_bind = (\<lambda>_ _ k. (0, k)), os_listen = (\<lambda>_ k. (0, k)),
      os_accept = (\<lambda>_ k. ((7, zero_addr), k)), os_getsockname = (\<lambda>_ k. ((0, zero_addr), k)),
      os_read = (\<lambda>_ _ k. ((2, [72, of_nat k], EINTR), Suc k)), os_write = (\<lambda>_ bs k. ((int (length bs), EINTR), k)),
      os_shutdown = (\<lambda>_ _ k. (0, k)), os_close = (\<lambda>_ k. (0, k)), os_epoll_ctl = (\<lambda>_ _ _ _ _ k. (0, k)),
      os_epoll_wait = (\<lambda>_ _ _ k. ((0, []), k)),
      os_send = (\<lambda>_ bs k. (int (length bs), k)), os_connect = (\<lambda>_ _ k. (0, k)),
      os_recvfrom = (\<lambda>_ _ k. ((0, [], zero_addr), k)), os_sendto = (\<lambda>_ bs _ k. (int (length bs), k)),
      os_select = (\<lambda>_ k. ((1, True), k)), os_bind_un = (\<lambda>_ _ k. (0, k)), os_connect_un = (\<lambda>_ _ k. (0, k)),
      os_access = (\<lambda>_ k. (-1, k)), os_unlink = (\<lambda>_ k. (0, k)),
      os_mkfifo = (\<lambda>_ k. (0, k)), os_open = (\<lambda>_ k. (8, k)), os_poll = (\<lambda>_ k. ((1, True), k)),
      os_read_null = (\<lambda>_ _ k. (-1, k))\<rparr>"

definition fifo_start :: "nat fifo_world" where
  "fifo_start = \<lparr>os = 0, trace = [], fifo_buf = None, pipeFd = -1, bufLen = -1,
     fifo_thread = \<lparr>joinable = False, stream_exit = False\<rparr>, printed = []\<rparr>"

lemma fifo_prints_received_witness:
  "\<exists>w v es. Fifo_new fifo_kernel 1024 fifo_start = Inr w \<and> fifo_buf w \<noteq> None \<and>
     FifoThread fifo_kernel 2 w = Inr v \<and> printed v = map until_zero (deliveries es)"
proof -
  have "\<exists>w. Fifo_new fifo_kernel 1024 fifo_start = Inr w \<and> fifo_buf w \<noteq> None \<and> printed w = []"
    by (simp add: Fifo_new_def fifo_call_defs fifo_kernel_def fifo_start_def log_call_def)
  then obtain w where w: "Fifo_new fifo_kernel 1024 fifo_start = Inr w" "fifo_buf w \<noteq> None" "printed w = []" by blast
  have "fifo_reads_ok fifo_kernel" "fst (os_read_null fifo_kernel f 512 k) < 0" for f k
    by (simp_all add: fifo_reads_ok_def fifo_kernel_def)
  from fifo_prints_received[OF this w(1), where n = 2] w show ?thesis by fastforce
qed

end
