(* ===== verification/Timeout.thy ===== *)
theory Timeout
  imports Prelude
begin

text \<open>
  The time-outs of timeout.h: \<open>CTimeout\<close>, set in microseconds, and \<open>CTimeoutmS\<close>, set in
  milliseconds.  Both keep a start and a duration in nanoseconds as 64-bit unsigned integers.
  The clock is a parameter: each function that reads it takes its value \<open>now\<close>, which
  \<open>GetTimeNs\<close> computes from the \<open>timespec\<close> of \<open>clock_gettime\<close>.
\<close>

section \<open>The two classes\<close>

record timespec =
  tv_sec :: int
  tv_nsec :: int

definition GetTimeNs :: "timespec \<Rightarrow> 64 word" where
  "GetTimeNs spec = word_of_int (tv_sec spec * 1000000000 + tv_nsec spec)"

record ctimeout =
  start_ns :: "64 word"
  duration_ns :: "64 word"

definition new_timeout :: ctimeout where
  "new_timeout = \<lparr>start_ns = 0, duration_ns = 0\<rparr>"

definition Reset :: "64 word \<Rightarrow> ctimeout \<Rightarrow> ctimeout" where
  "Reset now t = t\<lparr>start_ns := now\<rparr>"

text \<open>\<open>uSec*1000\<close> is a product of 32-bit integers and is widened afterwards.\<close>

definition SetExpiration :: "64 word \<Rightarrow> 32 word \<Rightarrow> ctimeout \<Rightarrow> ctimeout" where
  "SetExpiration now uSec t = t\<lparr>start_ns := now, duration_ns := ucast (uSec * 1000)\<rparr>"

definition new_timeout_us :: "64 word \<Rightarrow> 32 word \<Rightarrow> ctimeout" where
  "new_timeout_us now uSec = SetExpiration now uSec new_timeout"

definition set_ms :: "64 word \<Rightarrow> 32 word \<Rightarrow> ctimeout \<Rightarrow> ctimeout" where
  "set_ms now mSec t = SetExpiration now (mSec * 1000) t"

definition set_us :: "64 word \<Rightarrow> 32 word \<Rightarrow> ctimeout \<Rightarrow> ctimeout" where
  "set_us now uSec t = SetExpiration now uSec t"

definition GetExpiration :: "ctimeout \<Rightarrow> 32 word" where
  "GetExpiration t = ucast (duration_ns t div 1000)"

definition HasExpired :: "64 word \<Rightarrow> ctimeout \<Rightarrow> bool" where
  "HasExpired now t = (let nDiff = now - start_ns t in duration_ns t \<le> nDiff)"

definition NotExpired :: "64 word \<Rightarrow> ctimeout \<Rightarrow> bool" where
  "NotExpired now t = (\<not> HasExpired now t)"

text \<open>
  \<open>GetRestTime\<close> computes in signed 64-bit integers, where an overflow is undefined; \<open>unit\<close> is
  1000 in \<open>CTimeout\<close> and 1000000 in \<open>CTimeoutmS\<close>.
\<close>

definition in_int64 :: "int \<Rightarrow> bool" where
  "in_int64 i \<longleftrightarrow> - (2 ^ 63) \<le> i \<and> i < 2 ^ 63"

definition rest_time :: "int \<Rightarrow> 64 word \<Rightarrow> ctimeout \<Rightarrow> 32 word res" where
  "rest_time scale now t =
     (let stop = sint (start_ns t) + sint (duration_ns t); temp = stop - sint now
      in if \<not> in_int64 stop \<or> \<not> in_int64 temp then Inl Signed_overflow
         else Inr (if temp < 0 then 0 else word_of_int (temp div scale)))"

definition GetRestTime :: "64 word \<Rightarrow> ctimeout \<Rightarrow> 32 word res" where
  "GetRestTime now t = rest_time 1000 now t"

text \<open>The class \<open>CTimeoutmS\<close>: its duration is computed in 64 bits.\<close>

definition GetTimeNs_mS :: "timespec \<Rightarrow> 64 word" where
  "GetTimeNs_mS spec = word_of_int (tv_sec spec * 1000000000 + tv_nsec spec)"

definition new_timeout_mS0 :: ctimeout where
  "new_timeout_mS0 = \<lparr>start_ns = 0, duration_ns = 0\<rparr>"

definition SetExpiration_mS :: "64 word \<Rightarrow> 32 word \<Rightarrow> ctimeout \<Rightarrow> ctimeout" where
  "SetExpiration_mS now mSec t = t\<lparr>start_ns := now, duration_ns := ucast mSec * 1000000\<rparr>"

definition new_timeout_mS :: "64 word \<Rightarrow> 32 word \<Rightarrow> ctimeout" where
  "new_timeout_mS now mSec = SetExpiration_mS now mSec new_timeout"

definition Reset_mS :: "64 word \<Rightarrow> ctimeout \<Rightarrow> ctimeout" where
  "Reset_mS now t = t\<lparr>start_ns := now\<rparr>"

definition HasExpired_mS :: "64 word \<Rightarrow> ctimeout \<Rightarrow> bool" where
  "HasExpired_mS now t = (let nDiff = now - start_ns t in duration_ns t \<le> nDiff)"

definition GetExpiration_mS :: "ctimeout \<Rightarrow> 32 word" where
  "GetExpiration_mS t = ucast (duration_ns t div 1000000)"

definition GetRestTime_mS :: "64 word \<Rightarrow> ctimeout \<Rightarrow> 32 word res" where
  "GetRestTime_mS now t = rest_time 1000000 now t"

definition GetElapsed :: "64 word \<Rightarrow> ctimeout \<Rightarrow> 32 word" where
  "GetElapsed now t = ucast (now - start_ns t)"

lemmas timeout_defs = SetExpiration_def SetExpiration_mS_def set_ms_def set_us_def GetExpiration_def
  GetExpiration_mS_def HasExpired_def HasExpired_mS_def GetElapsed_def Let_def

section \<open>Lemmas\<close>

lemma unat_less_64: "unat (x :: 64 word) < 2 ^ 64"
  using unsigned_less[of x] by simp

lemma unat_less_32: "unat (x :: 32 word) < 2 ^ 32"
  using unsigned_less[of x] by simp

lemma unat_ucast_up: "unat (ucast (x :: 32 word) :: 64 word) = unat x"
proof -
  have "unat (ucast x :: 64 word) = take_bit 64 (unat x)" by (simp only: unsigned_ucast_eq) simp
  also have "\<dots> = unat x" using unat_less_32[of x] by (intro take_bit_nat_eq_self) simp
  finally show ?thesis .
qed

lemma unat_ucast_down: "unat (ucast (x :: 64 word) :: 32 word) = unat x mod 2 ^ 32"
  by (simp only: unsigned_ucast_eq take_bit_eq_mod) simp

lemma unat_mult_32: "unat (x * y :: 32 word) = unat x * unat y mod 2 ^ 32"
  by (simp add: unat_word_ariths)

lemma unat_mult_64: "unat (x * y :: 64 word) = unat x * unat y mod 2 ^ 64"
  by (simp add: unat_word_ariths)

lemma elapsed_wraps:
  assumes "e < 2 ^ 64" shows "unat (word_of_nat (unat s + e) - s :: 64 word) = e"
proof -
  have "(word_of_nat (unat s + e) :: 64 word) = s + word_of_nat e" by simp
  then have "word_of_nat (unat s + e) - s = (word_of_nat e :: 64 word)" by simp
  then show ?thesis using assms by (simp only: unat_of_nat) simp
qed

lemma expired_iff:
  assumes "e < 2 ^ 64"
  shows "HasExpired (word_of_nat (unat (start_ns t) + e)) t \<longleftrightarrow> unat (duration_ns t) \<le> e"
  by (simp add: HasExpired_def word_le_nat_alt elapsed_wraps[OF assms] del: of_nat_add)

lemma sint_small: 
  assumes "unat (x :: 64 word) < 2 ^ 63" shows "sint x = int (unat x)"
proof -
  have "int (unat x) < 2 ^ 63" using of_nat_less_iff[where 'a = int, THEN iffD2, OF assms] by simp
  then have "signed_take_bit 63 (int (unat x)) = int (unat x)" using uint_ge_0[of x] by (intro signed_take_bit_int_eq_self) (simp_all add: order_trans[of _ 0])
  moreover have "sint x = signed_take_bit 63 (int (unat x))" by (simp only: sint_uint uint_nat) simp
  ultimately show ?thesis by simp
qed

lemma in_int64_nat:
  assumes "a + b < 2 ^ 63" "c < 2 ^ 63"
  shows "in_int64 (int a + int b) \<and> in_int64 (int a + int b - int c)"
  using assms by (auto simp: in_int64_def)

lemma rest_time_eq:
  assumes "unat (start_ns t) + unat (duration_ns t) < 2 ^ 63" "unat now < 2 ^ 63" "0 < scale"
  shows "rest_time scale now t =
    Inr (word_of_int (max 0 (int (unat (start_ns t) + unat (duration_ns t)) - int (unat now)) div scale))"
proof -
  let ?s = "unat (start_ns t)" and ?d = "unat (duration_ns t)"
  have "?s < 2 ^ 63" "?d < 2 ^ 63" using assms by linarith+
  then have "sint (start_ns t) = int ?s" "sint (duration_ns t) = int ?d" "sint now = int (unat now)"
    using assms(2) sint_small by blast+
  moreover have "in_int64 (int ?s + int ?d)" "in_int64 (int ?s + int ?d - int (unat now))"
    using in_int64_nat[OF assms(1,2)] by auto
  ultimately show ?thesis by (simp only: rest_time_def Let_def) (simp only: of_nat_add, simp add: max_def)
qed

section \<open>Properties\<close>

text \<open>C36: \<open>HasExpired\<close> is right across a wrap-around of the clock: whatever the start value, after
  \<open>e\<close> nanoseconds of a counter modulo \<open>2^64\<close> it answers whether the duration is at most \<open>e\<close>.  In
  both classes a set time-out therefore expires exactly when its duration has passed.\<close>
theorem expiry_exact:
  assumes "e < 2 ^ 64"
  shows "(HasExpired (word_of_nat (unat now + e)) (SetExpiration now u t) \<longleftrightarrow> unat u * 1000 mod 2 ^ 32 \<le> e) \<and>
         (HasExpired_mS (word_of_nat (unat now + e)) (SetExpiration_mS now u t) \<longleftrightarrow> unat u * 1000000 \<le> e)"
proof -
  have "unat (duration_ns (SetExpiration now u t)) = unat u * 1000 mod 2 ^ 32"
    by (simp add: SetExpiration_def unat_ucast_up unat_mult_32)
  moreover have "unat u * 1000000 mod 2 ^ 64 = unat u * 1000000" using unat_less_32[of u] by (intro mod_less) simp
  then have "unat (duration_ns (SetExpiration_mS now u t)) = unat u * 1000000"
    by (simp add: SetExpiration_mS_def unat_mult_64 unat_ucast_up)
  ultimately show ?thesis
    using expired_iff[OF assms, of "SetExpiration now u t"] expired_iff[OF assms, of "SetExpiration_mS now u t"]
    by (simp add: HasExpired_mS_def HasExpired_def SetExpiration_def SetExpiration_mS_def del: of_nat_add)
qed

lemma expiry_exact_witness:
  "HasExpired (word_of_nat (unat (0xFFFFFFFFFFFFFFFF :: 64 word) + 7000)) (SetExpiration 0xFFFFFFFFFFFFFFFF 7 new_timeout)"
  using expiry_exact[of 7000 "0xFFFFFFFFFFFFFFFF" 7 new_timeout] by simp

text \<open>C37: A \<open>CTimeout\<close> is shortened when its duration does not fit 32 bits of nanoseconds, about 4.29
  seconds: up to that bound \<open>GetExpiration\<close> returns what was set, and a time-out of 5000 ms set
  by \<open>ms\<close> has expired after 706 ms.  \<open>CTimeoutmS\<close> returns what was set for every argument.\<close>
theorem long_timeouts_shortened:
  "(GetExpiration (SetExpiration now u t) = u \<longleftrightarrow> unat u * 1000 < 2 ^ 32) \<and>
   GetExpiration_mS (SetExpiration_mS now u t) = u \<and>
   HasExpired (now + 706000000) (set_ms now 5000 t)"
proof -
  have e: "unat (GetExpiration (SetExpiration now u t)) = unat u * 1000 mod 2 ^ 32 div 1000"
  proof -
    have "unat u * 1000 mod 2 ^ 32 div 1000 < 2 ^ 32"
      by (rule le_less_trans[OF div_le_dividend]) simp
    then show ?thesis
      by (simp add: GetExpiration_def SetExpiration_def unat_ucast_down unat_div unat_ucast_up unat_mult_32)
  qed
  have "GetExpiration (SetExpiration now u t) = u \<longleftrightarrow> unat u * 1000 < 2 ^ 32"
  proof
    assume "GetExpiration (SetExpiration now u t) = u"
    then have "unat u = unat u * 1000 mod 2 ^ 32 div 1000" using e by simp
    moreover have "unat u * 1000 mod 2 ^ 32 div 1000 \<le> (2 ^ 32 - 1) div 1000"
      by (rule div_le_mono) simp
    ultimately show "unat u * 1000 < 2 ^ 32" by simp
  next
    assume "unat u * 1000 < 2 ^ 32"
    then show "GetExpiration (SetExpiration now u t) = u" using e by (simp add: word_unat_eq_iff)
  qed
  moreover have "GetExpiration_mS (SetExpiration_mS now u t) = u"
  proof -
    have "unat u * 1000000 mod 2 ^ 64 = unat u * 1000000" using unat_less_32[of u] by (intro mod_less) simp
    then show ?thesis using unat_less_32[of u]
      by (simp add: word_unat_eq_iff GetExpiration_mS_def SetExpiration_mS_def unat_ucast_down unat_div
          unat_mult_64 unat_ucast_up)
  qed
  moreover have "HasExpired (now + 706000000) (set_ms now 5000 t)"
    by (simp add: HasExpired_def set_ms_def SetExpiration_def)
  ultimately show ?thesis by blast
qed

text \<open>\<open>GetRestTime\<close> agrees with \<open>HasExpired\<close>: as long as the clock and the end of the time-out
  are below \<open>2^63\<close> it never overflows, an expired time-out has no rest, and before that the rest is
  the missing time in whole units.\<close>
lemma rest_time_agrees:
  assumes "unat (start_ns t) \<le> unat now" "unat now < 2 ^ 63"
    and "unat (start_ns t) + unat (duration_ns t) < 2 ^ 63"
  shows "GetRestTime now t = Inr (if HasExpired now t then 0
           else word_of_nat ((unat (start_ns t) + unat (duration_ns t) - unat now) div 1000))"
proof -
  have "unat (now - start_ns t) = unat now - unat (start_ns t)"
    using assms(1) by (simp add: unat_sub word_le_nat_alt)
  then have ex: "HasExpired now t \<longleftrightarrow> unat (start_ns t) + unat (duration_ns t) \<le> unat now"
    using assms(1) by (auto simp: HasExpired_def word_le_nat_alt)
  show ?thesis
  proof (cases "HasExpired now t")
    case True
    then have "max 0 (int (unat (start_ns t) + unat (duration_ns t)) - int (unat now)) = 0" using ex by linarith
    then show ?thesis using True rest_time_eq[OF assms(3,2), of 1000] by (simp add: GetRestTime_def del: of_nat_add)
  next
    case False
    then have "max 0 (int (unat (start_ns t) + unat (duration_ns t)) - int (unat now)) =
        int (unat (start_ns t) + unat (duration_ns t) - unat now)" using ex by linarith
    then have "GetRestTime now t = Inr (word_of_int (int (unat (start_ns t) + unat (duration_ns t) - unat now) div int 1000))"
      using rest_time_eq[OF assms(3,2), of 1000] by (simp only: GetRestTime_def) simp
    then show ?thesis using False by (simp only: flip: zdiv_int) simp
  qed
qed

lemma rest_time_agrees_witness:
  "GetRestTime 3000 \<lparr>start_ns = 1000, duration_ns = 7000\<rparr> = Inr 5"
  using rest_time_agrees[of "\<lparr>start_ns = 1000, duration_ns = 7000\<rparr>" 3000] by (simp add: HasExpired_def)

end
