(* ===== verification/TimerCallback.thy ===== *)
theory TimerCallback
  imports Prelude
begin

text \<open>
  The class \<open>TimerCallback\<close> of timeout.h: each \<open>Start\<close> cancels the previous timer, allocates a
  flag and starts a detached thread that sleeps, runs the task if its flag is still set,
  deletes the flag and counts itself out.  \<open>Start\<close> and \<open>Stop\<close> are called by one thread.  Every
  access to a shared variable is a step of its own: the test and the call in
  \<open>if(*enable) task()\<close> are two steps of the timer thread, and the test of the count and the
  write to the flag two steps of \<open>Stop\<close>; between them any other thread may run.  Only the tail
  of \<open>Start\<close> is one step: nobody else reads \<open>lastEnable\<close> or the count, and no thread has the new
  flag before it is started.

  A flag is an address in \<open>flags\<close>; a deleted one is \<open>None\<close>.  The timer threads are numbered by
  the address of their flag.
\<close>

section \<open>State and steps\<close>

text \<open>A timer thread sleeps, has found its flag set, is past the task, or has deleted the flag.\<close>

datatype phase = Sleeping | Passed | Ran | Freed

text \<open>The caller is outside the class, in \<open>Stop\<close> before the write to the flag, or in \<open>Start\<close> after \<open>Stop\<close>.\<close>

datatype call = Stop_call | Start_call
datatype caller = Outside | Clearing call nat | Launching

record timer_cb =
  flags :: "nat \<Rightarrow> bool option"
  next_flag :: nat
  lastEnable :: "nat option"
  nThread :: int
  timers :: "nat \<Rightarrow> phase option"
  tasks_run :: "nat list"
  pc :: caller

definition new_timer :: timer_cb where
  "new_timer = \<lparr>flags = Map.empty, next_flag = 0, lastEnable = None, nThread = 0,
     timers = Map.empty, tasks_run = [], pc = Outside\<rparr>"

text \<open>The condition of \<open>Stop\<close> and its assignment; writing through a pointer to a deleted flag is a fault.\<close>

definition timer_check :: "timer_cb \<Rightarrow> nat option" where
  "timer_check t =
     (case lastEnable t of None \<Rightarrow> None | Some p \<Rightarrow> if 0 < nThread t then Some p else None)"

definition timer_clear :: "nat \<Rightarrow> timer_cb \<Rightarrow> timer_cb res" where
  "timer_clear p t =
     (if flags t p = None then Inl Use_after_free else Inr (t\<lparr>flags := (flags t)(p \<mapsto> False)\<rparr>))"

text \<open>The rest of \<open>Start\<close>: the new flag, the count and the thread.\<close>

definition timer_launch :: "timer_cb \<Rightarrow> timer_cb" where
  "timer_launch t =
     (let p = next_flag t
      in t\<lparr>flags := (flags t)(p \<mapsto> True), next_flag := Suc p, lastEnable := Some p,
           nThread := nThread t + 1, timers := (timers t)(p \<mapsto> Sleeping)\<rparr>)"

text \<open>\<open>Stop\<close> and \<open>Start\<close> when no other thread interferes.\<close>

definition timer_Stop :: "timer_cb \<Rightarrow> timer_cb res" where
  "timer_Stop t = (case timer_check t of None \<Rightarrow> Inr t | Some p \<Rightarrow> timer_clear p t)"

definition timer_Start :: "timer_cb \<Rightarrow> timer_cb res" where
  "timer_Start t = ebind (timer_Stop t) (\<lambda>u. Inr (timer_launch u))"

text \<open>What a timer thread does: \<open>if(*enable)\<close>, \<open>task()\<close>, \<open>delete enable\<close>, \<open>(*thread)--\<close>.\<close>

definition timer_test :: "nat \<Rightarrow> timer_cb \<Rightarrow> timer_cb" where
  "timer_test p t = t\<lparr>timers := (timers t)(p \<mapsto> (if flags t p = Some True then Passed else Ran))\<rparr>"

definition timer_task :: "nat \<Rightarrow> timer_cb \<Rightarrow> timer_cb" where
  "timer_task p t = t\<lparr>tasks_run := tasks_run t @ [p], timers := (timers t)(p \<mapsto> Ran)\<rparr>"

definition timer_delete :: "nat \<Rightarrow> timer_cb \<Rightarrow> timer_cb" where
  "timer_delete p t = t\<lparr>flags := (flags t)(p := None), timers := (timers t)(p \<mapsto> Freed)\<rparr>"

definition timer_leave :: "nat \<Rightarrow> timer_cb \<Rightarrow> timer_cb" where
  "timer_leave p t = t\<lparr>nThread := nThread t - 1, timers := (timers t)(p := None)\<rparr>"

lemmas timer_defs = timer_test_def timer_task_def timer_delete_def timer_leave_def

text \<open>Where the caller is after \<open>Stop\<close>, which \<open>Start\<close> calls first.\<close>

fun after_stop :: "call \<Rightarrow> caller" where
  "after_stop Stop_call = Outside"
| "after_stop Start_call = Launching"

definition timer_begin :: "call \<Rightarrow> timer_cb \<Rightarrow> timer_cb" where
  "timer_begin c t = t\<lparr>pc := (case timer_check t of None \<Rightarrow> after_stop c | Some p \<Rightarrow> Clearing c p)\<rparr>"

inductive timer_step :: "timer_cb \<Rightarrow> timer_cb \<Rightarrow> bool" where
  enter: "pc t = Outside \<Longrightarrow> timer_step t (timer_begin c t)"
| clear: "pc t = Clearing c p \<Longrightarrow> timer_clear p t = Inr u \<Longrightarrow> timer_step t (u\<lparr>pc := after_stop c\<rparr>)"
| launch: "pc t = Launching \<Longrightarrow> timer_step t ((timer_launch t)\<lparr>pc := Outside\<rparr>)"
| test: "timers t p = Some Sleeping \<Longrightarrow> timer_step t (timer_test p t)"
| task: "timers t p = Some Passed \<Longrightarrow> timer_step t (timer_task p t)"
| delete: "timers t p = Some Ran \<Longrightarrow> timer_step t (timer_delete p t)"
| leave: "timers t p = Some Freed \<Longrightarrow> timer_step t (timer_leave p t)"

inductive_cases timer_stepE: "timer_step t u"

text \<open>The step with which a call of \<open>Stop\<close> returns: its test fails, or it has written to the flag.\<close>

definition stop_returns :: "timer_cb \<Rightarrow> timer_cb \<Rightarrow> bool" where
  "stop_returns t u \<longleftrightarrow> pc t = Outside \<and> timer_check t = None \<and> u = timer_begin Stop_call t \<or>
     (\<exists>p x. pc t = Clearing Stop_call p \<and> timer_clear p t = Inr x \<and> u = x\<lparr>pc := Outside\<rparr>)"

section \<open>The invariant\<close>

text \<open>
  Numbers are fresh; the count is that of the threads; a thread's flag lives until the thread
  deletes it; only the flag of the last start can still be set, and none is between \<open>Stop\<close> and
  the new flag; and a thread runs its task at most once.
\<close>

definition timer_inv :: "timer_cb \<Rightarrow> bool" where
  "timer_inv t \<longleftrightarrow>
     (\<forall>p. next_flag t \<le> p \<longrightarrow> timers t p = None \<and> flags t p = None) \<and>
     finite (dom (timers t)) \<and> nThread t = int (card (dom (timers t))) \<and>
     (\<forall>p. flags t p = None \<longleftrightarrow> timers t p = None \<or> timers t p = Some Freed) \<and>
     (\<forall>p. flags t p = Some True \<longrightarrow> lastEnable t = Some p) \<and>
     (\<forall>p. lastEnable t = Some p \<longrightarrow> p < next_flag t) \<and>
     (\<forall>c p. pc t = Clearing c p \<longrightarrow> lastEnable t = Some p) \<and>
     (pc t = Launching \<longrightarrow> (\<forall>p. flags t p \<noteq> Some True)) \<and>
     distinct (tasks_run t) \<and>
     (\<forall>p \<in> set (tasks_run t). p < next_flag t \<and> timers t p \<noteq> Some Sleeping \<and> timers t p \<noteq> Some Passed)"

lemma timer_invD:
  assumes "timer_inv t"
  shows "next_flag t \<le> p \<Longrightarrow> timers t p = None" "next_flag t \<le> p \<Longrightarrow> flags t p = None"
    "finite (dom (timers t))" "nThread t = int (card (dom (timers t)))"
    "flags t p = None \<longleftrightarrow> timers t p = None \<or> timers t p = Some Freed"
    "flags t p = Some True \<Longrightarrow> lastEnable t = Some p"
    "lastEnable t = Some p \<Longrightarrow> p < next_flag t"
    "pc t = Clearing c p \<Longrightarrow> lastEnable t = Some p"
    "pc t = Launching \<Longrightarrow> flags t p \<noteq> Some True"
    "distinct (tasks_run t)"
    "p \<in> set (tasks_run t) \<Longrightarrow> p < next_flag t \<and> timers t p \<noteq> Some Sleeping \<and> timers t p \<noteq> Some Passed"
  using assms unfolding timer_inv_def by blast+

lemma timer_inv_new: "timer_inv new_timer"
  by (simp add: timer_inv_def new_timer_def)

text \<open>\<open>Stop\<close> is passed over only when no flag is set.\<close>

lemma timer_check_None:
  assumes "timer_inv t" "timer_check t = None" shows "flags t p \<noteq> Some True"
proof
  assume f: "flags t p = Some True"
  then have "timers t p \<noteq> None" using timer_invD(5)[OF assms(1), of p] by auto
  then have "p \<in> dom (timers t)" by auto
  then have "0 < card (dom (timers t))" using timer_invD(3)[OF assms(1)] by (auto simp: card_gt_0_iff)
  then have "0 < nThread t" using timer_invD(4)[OF assms(1)] by simp
  moreover have "lastEnable t = Some p" using timer_invD(6)[OF assms(1)] f .
  ultimately show False using assms(2) by (simp add: timer_check_def)
qed

lemma timer_begin_inv: "timer_inv t \<Longrightarrow> timer_inv (timer_begin c t)"
proof -
  assume t: "timer_inv t"
  have "timer_inv (t\<lparr>pc := x\<rparr>)"
    if "\<And>d p. x = Clearing d p \<Longrightarrow> lastEnable t = Some p" "x = Launching \<Longrightarrow> (\<forall>p. flags t p \<noteq> Some True)" for x
    using t that by (simp add: timer_inv_def)
  note inv = this
  show "timer_inv (timer_begin c t)"
  proof (cases "timer_check t")
    case None
    have "after_stop c \<noteq> Clearing d p" for d p by (cases c) simp_all
    then show ?thesis unfolding timer_begin_def None option.case using timer_check_None[OF t None] by (intro inv) auto
  next
    case (Some p)
    then have "lastEnable t = Some p" by (auto simp: timer_check_def split: option.splits if_splits)
    then show ?thesis unfolding timer_begin_def Some option.case by (intro inv) auto
  qed
qed

text \<open>After the write no flag is set: the one written to was the last.\<close>

lemma timer_clear_flags:
  assumes "timer_inv t" "pc t = Clearing c p" "timer_clear p t = Inr u"
  shows "u = t\<lparr>flags := (flags t)(p \<mapsto> False)\<rparr>" "flags t p \<noteq> None" "flags u q \<noteq> Some True"
proof -
  show u: "u = t\<lparr>flags := (flags t)(p \<mapsto> False)\<rparr>" "flags t p \<noteq> None"
    using assms(3) by (auto simp: timer_clear_def split: if_splits)
  have "lastEnable t = Some p" using timer_invD(8)[OF assms(1,2)] .
  then show "flags u q \<noteq> Some True" using timer_invD(6)[OF assms(1), of q] u by auto
qed

lemma timer_clear_inv:
  assumes "timer_inv t" "pc t = Clearing c p" "timer_clear p t = Inr u"
  shows "timer_inv (u\<lparr>pc := after_stop c\<rparr>)"
proof -
  note f = timer_clear_flags[OF assms]
  have "p < next_flag t" using timer_invD(7,8)[OF assms(1)] assms(2) by blast
  moreover have "flags u q \<noteq> Some True" for q using f(3) .
  moreover have "after_stop c \<noteq> Clearing d q" for d q by (cases c) simp_all
  ultimately show ?thesis using assms(1) f(1,2) unfolding timer_inv_def by auto
qed

lemma timer_launch_inv:
  assumes "timer_inv t" "pc t = Launching" shows "timer_inv ((timer_launch t)\<lparr>pc := Outside\<rparr>)"
proof -
  let ?n = "next_flag t"
  have new: "timers t ?n = None" "?n \<notin> dom (timers t)" using timer_invD(1)[OF assms(1), of ?n] by auto
  have "?n \<notin> set (tasks_run t)" using timer_invD(11)[OF assms(1), of ?n] by auto
  then show ?thesis
    using assms new timer_invD(9)[OF assms(1,2)] unfolding timer_inv_def timer_launch_def Let_def
    by (auto simp: less_Suc_eq)
qed

lemma timer_thread_inv:
  assumes "timer_inv t"
  shows "timers t p = Some Sleeping \<Longrightarrow> timer_inv (timer_test p t)"
    and "timers t p = Some Passed \<Longrightarrow> timer_inv (timer_task p t)"
    and "timers t p = Some Ran \<Longrightarrow> timer_inv (timer_delete p t)"
    and "timers t p = Some Freed \<Longrightarrow> timer_inv (timer_leave p t)"
proof -
  have dom: "dom ((timers t)(p \<mapsto> q)) = dom (timers t)" if "timers t p \<noteq> None" for q using that by auto
  have small: "p < next_flag t" if "timers t p \<noteq> None" using timer_invD(1)[OF assms, of p] that by (meson not_le)
  show "timer_inv (timer_test p t)" if p: "timers t p = Some Sleeping"
  proof -
    have "flags t p \<noteq> None" using timer_invD(5)[OF assms, of p] p by simp
    then show ?thesis using assms p dom[of Passed] dom[of Ran] small by (auto simp: timer_inv_def timer_test_def)
  qed
  show "timer_inv (timer_task p t)" if p: "timers t p = Some Passed"
  proof -
    have "flags t p \<noteq> None" "p \<notin> set (tasks_run t)" using timer_invD(5,11)[OF assms, of p] p by auto
    then show ?thesis using assms p dom[of Ran] small by (auto simp: timer_inv_def timer_task_def)
  qed
  show "timer_inv (timer_delete p t)" if p: "timers t p = Some Ran"
    using assms p dom[of Freed] small by (auto simp: timer_inv_def timer_delete_def)
  show "timer_inv (timer_leave p t)" if p: "timers t p = Some Freed"
  proof -
    have "finite (dom (timers t))" "p \<in> dom (timers t)" using assms p by (auto simp: timer_inv_def)
    moreover then have "0 < card (dom (timers t))" by (auto simp: card_gt_0_iff)
    ultimately have "int (card (dom (timers t) - {p})) = int (card (dom (timers t))) - 1"
      by (simp add: card_Diff_singleton of_nat_diff)
    then show ?thesis using assms p by (auto simp: timer_inv_def timer_leave_def)
  qed
qed

lemma timer_step_inv: "timer_step t u \<Longrightarrow> timer_inv t \<Longrightarrow> timer_inv u"
  by (erule timer_stepE) (auto intro: timer_thread_inv timer_begin_inv timer_clear_inv timer_launch_inv)

lemma timer_run_inv: "timer_step\<^sup>*\<^sup>* t u \<Longrightarrow> timer_inv t \<Longrightarrow> timer_inv u"
  by (induction rule: rtranclp_induct) (auto intro: timer_step_inv)

section \<open>Cancelled timers\<close>

text \<open>
  \<open>cancelled N P ts v\<close>: the timers below \<open>N\<close> are disarmed except those in \<open>P\<close>, which have passed their
  test; since \<open>ts\<close> only those and later timers have run.
\<close>

definition cancelled :: "nat \<Rightarrow> nat set \<Rightarrow> nat list \<Rightarrow> timer_cb \<Rightarrow> bool" where
  "cancelled N P ts v \<longleftrightarrow> N \<le> next_flag v \<and> (\<forall>p < N. flags v p \<noteq> Some True) \<and>
     (\<forall>p < N. timers v p = Some Passed \<longrightarrow> p \<in> P) \<and>
     (\<exists>xs. tasks_run v = ts @ xs \<and> (\<forall>p \<in> set xs. N \<le> p \<or> p \<in> P))"

lemma cancelled_step:
  assumes "timer_step t u" "timer_inv t" "cancelled N P ts t" shows "cancelled N P ts u"
  using assms(1)
proof cases
  case (enter c)
  then show ?thesis using assms(3) by (simp add: cancelled_def timer_begin_def)
next
  case (clear c p x)
  note f = timer_clear_flags[OF assms(2) clear(2,3)]
  have "flags u q \<noteq> Some True" for q using f(3) clear(1) by simp
  then show ?thesis using assms(3) clear(1) f(1) by (auto simp: cancelled_def)
next
  case launch
  then show ?thesis using assms(3) by (auto simp: cancelled_def timer_launch_def Let_def)
next
  case (test p)
  then show ?thesis using assms(3) by (auto simp: cancelled_def timer_test_def)
next
  case (task p)
  have "N \<le> p \<or> p \<in> P" using assms(3) task(2) unfolding cancelled_def by (meson not_le)
  then show ?thesis using assms(3) task(1) by (auto simp: cancelled_def timer_task_def)
qed (use assms(3) in \<open>auto simp: cancelled_def timer_delete_def timer_leave_def\<close>)

lemma cancelled_run:
  assumes "timer_step\<^sup>*\<^sup>* t u" "timer_inv t" "cancelled N P ts t" shows "cancelled N P ts u"
  using assms(1)
proof (induction rule: rtranclp_induct)
  case (step u v)
  show ?case using cancelled_step[OF step(2) timer_run_inv[OF step(1) assms(2)] step.IH] .
qed (rule assms(3))

lemma stop_returns_step: "stop_returns t u \<Longrightarrow> timer_step t u"
  using timer_step.clear[of t Stop_call] by (auto simp: stop_returns_def intro: timer_step.enter)

lemma stop_returns_flags:
  assumes "timer_inv t" "stop_returns t u" shows "flags u p \<noteq> Some True"
  using assms(2) timer_check_None[OF assms(1)] timer_clear_flags(3)[OF assms(1)]
  by (auto simp: stop_returns_def timer_begin_def)

section \<open>Properties\<close>

text \<open>C33: What \<open>Stop\<close> cancels.  From the moment a call of \<open>Stop\<close> returns, of the timers started before it
  only those can still run their task that had already found their flag set: every thread
  still asleep then stays silent, however the timer threads and later calls interleave.  No
  timer ever runs its task twice, and at no time is more than one timer armed.\<close>
theorem stop_cancels:
  assumes "timer_step\<^sup>*\<^sup>* new_timer t" and "stop_returns t u" and "timer_step\<^sup>*\<^sup>* u v"
  shows "(\<exists>xs. tasks_run v = tasks_run u @ xs \<and> (\<forall>p \<in> set xs. next_flag u \<le> p \<or> timers u p = Some Passed)) \<and>
         distinct (tasks_run v) \<and>
         (\<forall>p q. flags v p = Some True \<longrightarrow> flags v q = Some True \<longrightarrow> p = q)"
proof -
  have it: "timer_inv t" using timer_run_inv[OF assms(1) timer_inv_new] .
  have iu: "timer_inv u" using timer_step_inv[OF stop_returns_step[OF assms(2)] it] .
  have iv: "timer_inv v" using timer_run_inv[OF assms(3) iu] .
  have "cancelled (next_flag u) {p. timers u p = Some Passed} (tasks_run u) u"
    using stop_returns_flags[OF it assms(2)] by (simp add: cancelled_def)
  from cancelled_run[OF assms(3) iu this]
  have "\<exists>xs. tasks_run v = tasks_run u @ xs \<and> (\<forall>p \<in> set xs. next_flag u \<le> p \<or> timers u p = Some Passed)"
    by (simp add: cancelled_def)
  moreover have "p = q" if "flags v p = Some True" "flags v q = Some True" for p q
    using timer_invD(6)[OF iv that(1)] timer_invD(6)[OF iv that(2)] by simp
  ultimately show ?thesis using timer_invD(10)[OF iv] by blast
qed

text \<open>The states after one start, and when a stop that follows it is about to write to the flag.\<close>

definition armed :: timer_cb where
  "armed = \<lparr>flags = [0 \<mapsto> True], next_flag = 1, lastEnable = Some 0, nThread = 1, timers = [0 \<mapsto> Sleeping],
     tasks_run = [], pc = Outside\<rparr>"

abbreviation stopping :: "timer_cb \<Rightarrow> timer_cb" where
  "stopping t \<equiv> t\<lparr>pc := Clearing Stop_call 0\<rparr>"

lemma armed_reached: "timer_step\<^sup>*\<^sup>* new_timer armed"
proof -
  have "timer_step new_timer (new_timer\<lparr>pc := Launching\<rparr>)"
    using timer_step.enter[of new_timer Start_call] by (simp add: new_timer_def timer_begin_def timer_check_def)
  moreover have "timer_step (new_timer\<lparr>pc := Launching\<rparr>) armed"
    using timer_step.launch[of "new_timer\<lparr>pc := Launching\<rparr>"] by (simp add: new_timer_def timer_launch_def armed_def)
  ultimately show ?thesis by (meson r_into_rtranclp rtranclp.rtrancl_into_rtrancl)
qed

lemma stopping_reached: "timer_step\<^sup>*\<^sup>* new_timer (stopping armed)"
proof -
  have "timer_step armed (stopping armed)"
    using timer_step.enter[of armed Stop_call] by (simp add: armed_def timer_begin_def timer_check_def)
  with armed_reached show ?thesis by (rule rtranclp.rtrancl_into_rtrancl)
qed

lemma stop_cancels_witness:
  "\<exists>u. stop_returns (stopping armed) u \<and> timers u 0 = Some Sleeping \<and>
     (\<exists>xs. tasks_run (timer_test 0 u) = [] @ xs \<and> (\<forall>p \<in> set xs. 1 \<le> p))"
proof -
  let ?u = "armed\<lparr>flags := [0 \<mapsto> False]\<rparr>"
  have s: "stop_returns (stopping armed) ?u" "timers ?u 0 = Some Sleeping"
    by (simp_all add: stop_returns_def timer_clear_def armed_def)
  have "timer_step\<^sup>*\<^sup>* ?u (timer_test 0 ?u)" using timer_step.test[OF s(2)] by blast
  from stop_cancels[OF stopping_reached s(1) this]
  have "\<exists>xs. tasks_run (timer_test 0 ?u) = [] @ xs \<and> (\<forall>p \<in> set xs. 1 \<le> p)"
    by (simp add: armed_def split: if_splits) fastforce
  with s show ?thesis by blast
qed

text \<open>
  \<open>Stop\<close> does not wait.  A task can begin after the \<open>Stop\<close> that cancelled it has returned, when the
  thread had tested its flag before; and a thread that deletes its flag between the test and
  the assignment of \<open>Stop\<close> makes it write to freed memory, with a single timer.
\<close>

lemma task_after_stop:
  "\<exists>t u v. timer_step\<^sup>*\<^sup>* new_timer t \<and> stop_returns t u \<and> next_flag u = 1 \<and> tasks_run u = [] \<and>
     timer_step\<^sup>*\<^sup>* u v \<and> tasks_run v = [0]"
proof (intro exI conjI)
  let ?t = "timer_test 0 (stopping armed)" let ?u = "?t\<lparr>flags := [0 \<mapsto> False], pc := Outside\<rparr>"
  have "timer_step (stopping armed) ?t" by (rule timer_step.test) (simp add: armed_def)
  with stopping_reached show "timer_step\<^sup>*\<^sup>* new_timer ?t" by (rule rtranclp.rtrancl_into_rtrancl)
  show "stop_returns ?t ?u" by (simp add: stop_returns_def timer_clear_def timer_test_def armed_def)
  have "timer_step ?u (timer_task 0 ?u)" by (rule timer_step.task) (simp add: timer_test_def armed_def)
  then show "timer_step\<^sup>*\<^sup>* ?u (timer_task 0 ?u)" by blast
qed (simp_all add: timer_defs armed_def)

lemma stop_races_with_end:
  "\<exists>t. timer_step\<^sup>*\<^sup>* new_timer t \<and> next_flag t = 1 \<and> pc t = Clearing Stop_call 0 \<and> timer_clear 0 t = Inl Use_after_free"
proof (intro exI conjI)
  let ?a = "timer_test 0 (stopping armed)" let ?b = "timer_task 0 ?a" let ?t = "timer_delete 0 ?b"
  have "timer_step (stopping armed) ?a" by (rule timer_step.test) (simp add: armed_def)
  moreover have "timer_step ?a ?b" by (rule timer_step.task) (simp add: timer_test_def armed_def)
  moreover have "timer_step ?b ?t" by (rule timer_step.delete) (simp add: timer_task_def)
  ultimately show "timer_step\<^sup>*\<^sup>* new_timer ?t"
    using stopping_reached by (meson rtranclp.rtrancl_into_rtrancl)
qed (simp_all add: timer_defs timer_clear_def armed_def)

text \<open>C34: \<open>Stop\<close> can write to freed memory.  When a timer is replaced by a shorter one, the shorter
  one fires, deletes its flag and leaves; the replaced thread is still asleep, so that the
  count is positive, and the next \<open>Stop\<close> or \<open>Start\<close> writes through the dangling pointer.\<close>
theorem stop_after_free:
  "\<exists>t. timer_step\<^sup>*\<^sup>* new_timer t \<and> tasks_run t = [1] \<and> timers t 1 = None \<and>
     timer_Stop t = Inl Use_after_free \<and> timer_Start t = Inl Use_after_free"
proof -
  let ?a = "\<lparr>flags = [0 \<mapsto> False, 1 \<mapsto> True], next_flag = 2, lastEnable = Some 1, nThread = 2,
    timers = [0 \<mapsto> Sleeping, 1 \<mapsto> Sleeping], tasks_run = [], pc = Outside\<rparr>"
  let ?b = "armed\<lparr>pc := Clearing Start_call 0\<rparr>" let ?c = "armed\<lparr>flags := [0 \<mapsto> False], pc := Launching\<rparr>"
  let ?t = "timer_leave 1 (timer_delete 1 (timer_task 1 (timer_test 1 ?a)))"
  have "timer_step armed ?b"
    using timer_step.enter[of armed Start_call] by (simp add: armed_def timer_begin_def timer_check_def)
  moreover have "timer_step ?b ?c"
    using timer_step.clear[of ?b Start_call 0] by (simp add: armed_def timer_clear_def)
  moreover have "timer_step ?c ?a"
    using timer_step.launch[of ?c] by (simp add: armed_def timer_launch_def fun_upd_twist numeral_2_eq_2)
  moreover have "timer_step ?a (timer_test 1 ?a)" by (rule timer_step.test) simp
  moreover have "timer_step (timer_test 1 ?a) (timer_task 1 (timer_test 1 ?a))"
    by (rule timer_step.task) (simp add: timer_test_def)
  moreover have "timer_step (timer_task 1 (timer_test 1 ?a)) (timer_delete 1 (timer_task 1 (timer_test 1 ?a)))"
    by (rule timer_step.delete) (simp add: timer_task_def)
  moreover have "timer_step (timer_delete 1 (timer_task 1 (timer_test 1 ?a))) ?t"
    by (rule timer_step.leave) (simp add: timer_delete_def)
  ultimately have run: "timer_step\<^sup>*\<^sup>* new_timer ?t"
    using armed_reached by (meson rtranclp.rtrancl_into_rtrancl)
  have t: "tasks_run ?t = [1]" "timers ?t 1 = None" "timer_Stop ?t = Inl Use_after_free"
    by (simp_all add: timer_defs timer_Stop_def timer_check_def timer_clear_def)
  then have "timer_Start ?t = Inl Use_after_free" by (simp add: timer_Start_def)
  with run t show ?thesis by blast
qed

end
