(* ===== verification/Bitmap.thy ===== *)
theory Bitmap
  imports ByteOrder "HOL-Library.Signed_Division"
begin

text \<open>
  The bitmap reader and writer of bmp.cpp.  \<open>DWORD\<close> is \<open>unsigned long\<close>, whose size depends on
  the target: \<open>dw\<close> is 4 or 8 bytes, and every function that goes through a \<open>DWORD\<close> takes it.
  The structures are packed and the target is little endian.  Files are a parameter, a map
  from paths to contents; reading them has no other errors.  Memory that was never written is
  \<open>Indeterminate\<close> when read.
\<close>

unbundle bit_operations_syntax

section \<open>Headers\<close>

record bmp_file_header =
  bfType :: nat
  bfSize :: nat
  bfReserved1 :: nat
  bfReserved2 :: nat
  bfOffBits :: nat

record bmp_info_header =
  biSize :: nat
  biWidth :: nat
  biHeight :: nat
  biPlanes :: nat
  biBitCount :: nat
  biCompression :: nat
  biSizeImage :: nat
  biXPelsPerMeter :: nat
  biYPelsPerMeter :: nat
  biClrUsed :: nat
  biClrImportant :: nat

definition FILEHEADSIZE :: nat where "FILEHEADSIZE = 14"
definition INFOHEADSIZE :: nat where "INFOHEADSIZE = 40"
definition clr_table_size :: nat where "clr_table_size = 1024"

text \<open>An \<open>int\<close> converted to \<open>DWORD\<close>, and an \<open>int\<close> product or sum that must not overflow.\<close>

definition to_dword :: "nat \<Rightarrow> int \<Rightarrow> nat" where
  "to_dword dw i = nat (i mod 256 ^ dw)"

definition dword_to_int :: "nat \<Rightarrow> int" where
  "dword_to_int n = (int n + 2 ^ 31) mod 2 ^ 32 - 2 ^ 31"

definition checked :: "int \<Rightarrow> int res" where
  "checked i = (if - (2 ^ 31) \<le> i \<and> i < 2 ^ 31 then Inr i else Inl Signed_overflow)"

text \<open>The bytes of a packed structure: each field in its width.\<close>

definition fields :: "(nat \<times> nat) list \<Rightarrow> byte list" where
  "fields fs = concat (map (\<lambda>(n, x). le_bytes n x) fs)"

definition file_header_image :: "nat \<Rightarrow> bmp_file_header \<Rightarrow> byte list" where
  "file_header_image dw h =
     fields [(2, bfType h), (dw, bfSize h), (2, bfReserved1 h), (2, bfReserved2 h), (dw, bfOffBits h)]"

definition info_header_image :: "nat \<Rightarrow> bmp_info_header \<Rightarrow> byte list" where
  "info_header_image dw h =
     fields [(dw, biSize h), (dw, biWidth h), (dw, biHeight h), (2, biPlanes h), (2, biBitCount h),
       (dw, biCompression h), (dw, biSizeImage h), (dw, biXPelsPerMeter h), (dw, biYPelsPerMeter h),
       (dw, biClrUsed h), (dw, biClrImportant h)]"

definition WriteFileHeader :: "nat \<Rightarrow> int \<Rightarrow> int \<Rightarrow> bmp_file_header res" where
  "WriteFileHeader dw width height =
     ebind (checked (width * height)) (\<lambda>image_size.
     ebind (checked (int (FILEHEADSIZE + INFOHEADSIZE + clr_table_size) + image_size)) (\<lambda>total.
       Inr \<lparr>bfType = 0x4D42, bfSize = to_dword dw total, bfReserved1 = 0, bfReserved2 = 0,
            bfOffBits = FILEHEADSIZE + INFOHEADSIZE + clr_table_size\<rparr>))"

definition WriteInfoHeader :: "nat \<Rightarrow> int \<Rightarrow> int \<Rightarrow> bmp_info_header" where
  "WriteInfoHeader dw width height =
     \<lparr>biSize = INFOHEADSIZE, biWidth = to_dword dw width, biHeight = to_dword dw height,
      biPlanes = 1, biBitCount = 8, biCompression = 0, biSizeImage = 0, biXPelsPerMeter = 0,
      biYPelsPerMeter = 0, biClrUsed = 0, biClrImportant = 0\<rparr>"

definition clr_table :: "byte list" where
  "clr_table = concat (map (\<lambda>i. [word_of_nat i, word_of_nat i, word_of_nat i, 0]) [0..<256])"

section \<open>Writing\<close>

fun mapE :: "('a \<Rightarrow> 'b res) \<Rightarrow> 'a list \<Rightarrow> 'b list res" where
  "mapE f [] = Inr []"
| "mapE f (x # xs) = ebind (f x) (\<lambda>y. ebind (mapE f xs) (\<lambda>ys. Inr (y # ys)))"

definition read_at :: "byte list \<Rightarrow> int \<Rightarrow> byte res" where
  "read_at xs i = (if 0 \<le> i \<and> nat i < length xs then Inr (xs ! nat i) else Inl Out_of_bounds)"

text \<open>The loop over the rows, from the last to the first, and over the pixels of a row.\<close>

definition bottom_up :: "byte list \<Rightarrow> int \<Rightarrow> int \<Rightarrow> byte list res" where
  "bottom_up buff width height =
     ebind (mapE (\<lambda>i. mapE (\<lambda>j. read_at buff (i * width + j)) (map int [0..<nat width]))
             (rev (map int [0..<nat height])))
       (\<lambda>rows. Inr (concat rows))"

text \<open>What both writers store: 14 and 40 bytes of the headers, the palette, the pixels.\<close>

definition bmp_bytes :: "nat \<Rightarrow> bmp_file_header \<Rightarrow> bmp_info_header \<Rightarrow> byte list \<Rightarrow> byte list" where
  "bmp_bytes dw bmfh bmih pixels =
     take FILEHEADSIZE (file_header_image dw bmfh) @ take INFOHEADSIZE (info_header_image dw bmih) @
     clr_table @ pixels"

definition RawToBmp :: "nat \<Rightarrow> byte list option \<Rightarrow> byte list option \<Rightarrow> int \<Rightarrow> int \<Rightarrow> (int \<times> byte list option) res" where
  "RawToBmp dw pIn pOut width height =
     (if pIn = None \<and> pOut = None then Inr (-1, pOut)
      else ebind (WriteFileHeader dw width height) (\<lambda>bmfh.
        let bmih = WriteInfoHeader dw width height; sz = dword_to_int (bfSize bmfh) in
        case pOut of
          None \<Rightarrow> Inl Null_dereference
        | Some out \<Rightarrow>
            if pIn = None \<and> 0 < width \<and> 0 < height then Inl Null_dereference
            else ebind (bottom_up (case pIn of None \<Rightarrow> [] | Some b \<Rightarrow> b) width height) (\<lambda>pixels.
                 ebind (blit 0 (bmp_bytes dw bmfh bmih pixels) out) (\<lambda>out1. Inr (sz, Some out1)))))"

text \<open>
  \<open>encode_bmp\<close> allocates its result; \<open>mem n\<close> is what \<open>malloc(n)\<close> returns.  The test
  \<open>bmp_ptr < 0\<close> is never true, so that a failed allocation is written through.
\<close>

definition encode_bmp :: "nat \<Rightarrow> (nat \<Rightarrow> byte list option) \<Rightarrow> byte list \<Rightarrow> int \<Rightarrow> int \<Rightarrow> (byte list \<times> int) res" where
  "encode_bmp dw mem buff width height =
     ebind (WriteFileHeader dw width height) (\<lambda>bmfh.
       let bmih = WriteInfoHeader dw width height in
       if bfSize bmfh = 0 then Inl Indeterminate
       else case mem (bfSize bmfh) of
              None \<Rightarrow> Inl Null_dereference
            | Some out \<Rightarrow> ebind (bottom_up buff width height) (\<lambda>pixels.
                ebind (blit 0 (bmp_bytes dw bmfh bmih pixels) out) (\<lambda>out1.
                  Inr (out1, dword_to_int (bfSize bmfh)))))"

section \<open>Reading\<close>

definition GetLineBytes :: "nat \<Rightarrow> int \<Rightarrow> int \<Rightarrow> nat res" where
  "GetLineBytes dw width bitcount =
     (if bitcount < 8 then ebind (checked (width + 7)) (\<lambda>n. Inr (to_dword dw (n sdiv 8)))
      else ebind (checked (width * bitcount)) (\<lambda>m. ebind (checked (m + 31)) (\<lambda>n.
             Inr (to_dword dw (n sdiv 32 * 4)))))"

text \<open>
  \<open>fread\<close> of the fields one after the other: at the end of the file it stores what is left and
  keeps the other bytes of the variable.
\<close>

fun read_fields :: "(nat \<times> nat) list \<Rightarrow> byte list \<Rightarrow> nat list" where
  "read_fields [] bs = []"
| "read_fields ((n, old) # fs) bs =
     le_value (take n bs @ drop (length (take n bs)) (le_bytes n old)) # read_fields fs (drop n bs)"

definition ReadFileHeader :: "nat \<Rightarrow> (string \<Rightarrow> byte list option) \<Rightarrow> string \<Rightarrow> bmp_file_header \<Rightarrow> int \<times> bmp_file_header" where
  "ReadFileHeader dw files filepath bmfh =
     (case files filepath of
        None \<Rightarrow> (-1, bmfh)
      | Some f \<Rightarrow>
          let v = read_fields [(2, bfType bmfh), (dw, bfSize bmfh), (2, bfReserved1 bmfh), (2, bfReserved2 bmfh),
                    (dw, bfOffBits bmfh)] f
          in (0, \<lparr>bfType = v ! 0, bfSize = v ! 1, bfReserved1 = v ! 2, bfReserved2 = v ! 3, bfOffBits = v ! 4\<rparr>))"

definition ReadInfoHeader :: "nat \<Rightarrow> (string \<Rightarrow> byte list option) \<Rightarrow> string \<Rightarrow> bmp_info_header \<Rightarrow> int \<times> bmp_info_header" where
  "ReadInfoHeader dw files filepath bmih =
     (case files filepath of
        None \<Rightarrow> (-1, bmih)
      | Some f \<Rightarrow>
          let v = read_fields [(dw, biSize bmih), (dw, biWidth bmih), (dw, biHeight bmih), (2, biPlanes bmih),
                    (2, biBitCount bmih), (dw, biCompression bmih), (dw, biSizeImage bmih),
                    (dw, biXPelsPerMeter bmih), (dw, biYPelsPerMeter bmih), (dw, biClrUsed bmih),
                    (dw, biClrImportant bmih)] (drop 14 f)
          in (0, \<lparr>biSize = v ! 0, biWidth = v ! 1, biHeight = v ! 2, biPlanes = v ! 3, biBitCount = v ! 4,
                 biCompression = v ! 5, biSizeImage = v ! 6, biXPelsPerMeter = v ! 7, biYPelsPerMeter = v ! 8,
                 biClrUsed = v ! 9, biClrImportant = v ! 10\<rparr>))"

text \<open>
  Reading the pixel memory: \<open>n\<close> bytes were allocated, of which the file filled \<open>img\<close>.
\<close>

definition img_at :: "nat \<Rightarrow> byte list \<Rightarrow> nat \<Rightarrow> byte res" where
  "img_at n img k =
     (if n \<le> k then Inl Out_of_bounds else if length img \<le> k then Inl Indeterminate else Inr (img ! k))"

text \<open>The bits of one byte of a row, the number of them as the code computes it in a \<open>BYTE\<close>.\<close>

definition shiftbits :: "nat \<Rightarrow> int \<Rightarrow> nat \<Rightarrow> nat" where
  "shiftbits L width w =
     (if int (8 * L) \<noteq> width \<and> w = L - 1 then nat ((width - int (8 * (L - 1))) mod 256) else 8)"

definition bits_of :: "nat \<Rightarrow> byte \<Rightarrow> byte list" where
  "bits_of k pixel = map (\<lambda>i. if drop_bit (k - 1 - i) pixel AND 1 \<noteq> 0 then 0xff else 0) [0..<k]"

definition bit_row :: "nat \<Rightarrow> byte list \<Rightarrow> nat \<Rightarrow> int \<Rightarrow> nat \<Rightarrow> byte list res" where
  "bit_row n img L width base =
     ebind (mapE (\<lambda>w. ebind (img_at n img (base + w)) (\<lambda>pixel. Inr (bits_of (shiftbits L width w) pixel))) [0..<L])
       (\<lambda>bs. Inr (concat bs))"

text \<open>Every other depth is read as four bytes per pixel, of which the first is taken.\<close>

definition quad_row :: "nat \<Rightarrow> byte list \<Rightarrow> int \<Rightarrow> nat \<Rightarrow> byte list res" where
  "quad_row n img width base = mapE (\<lambda>w. img_at n img (base + 4 * w)) [0..<nat width]"

definition read_rows :: "nat \<Rightarrow> byte list \<Rightarrow> nat \<Rightarrow> int \<Rightarrow> int \<Rightarrow> int \<Rightarrow> byte list res" where
  "read_rows n img L width height bitCount =
     ebind (mapE (\<lambda>h. let base = L * (nat height - 1 - h) in
                      if bitCount = 1 then bit_row n img L width base else quad_row n img width base) [0..<nat height])
       (\<lambda>rows. Inr (concat rows))"

text \<open>
  \<open>alloc n\<close> says whether \<open>malloc(n)\<close> succeeds; the headers start as uninitialised variables
  \<open>bmfh0\<close> and \<open>bmih0\<close>.  The result is the pixel pointer with \<open>*img_width\<close>, \<open>*img_height\<close>
  and \<open>*bitc\<close>.
\<close>

definition ReadPixelData :: "nat \<Rightarrow> (nat \<Rightarrow> bool) \<Rightarrow> (string \<Rightarrow> byte list option) \<Rightarrow>
    bmp_file_header \<Rightarrow> bmp_info_header \<Rightarrow> string \<Rightarrow> (byte list option \<times> int \<times> int \<times> int) res" where
  "ReadPixelData dw alloc files bmfh0 bmih0 filepath =
     (let bmfh = snd (ReadFileHeader dw files filepath bmfh0);
          bmih = snd (ReadInfoHeader dw files filepath bmih0);
          width = dword_to_int (biWidth bmih); height = dword_to_int (biHeight bmih);
          bitCount = int (biBitCount bmih)
      in ebind (GetLineBytes dw width bitCount) (\<lambda>L.
         case files filepath of
           None \<Rightarrow> Inr (None, width, height, bitCount)
         | Some f \<Rightarrow>
             let n = L * to_dword dw height mod 256 ^ dw in
             if \<not> alloc n then Inr (None, width, height, bitCount)
             else ebind (checked (width * height)) (\<lambda>area.
                  ebind (read_rows n (take n (drop (bfOffBits bmfh) f)) L width height bitCount) (\<lambda>raw.
                    if raw = [] then Inr (Some raw, width, height, bitCount)
                    else if \<not> alloc (to_dword dw area) then Inl Null_dereference
                    else if to_dword dw area < length raw then Inl Out_of_bounds
                    else Inr (Some raw, width, height, bitCount)))))"

text \<open>\<open>get_data\<close> copies the name into \<open>filepath[20]\<close>, which must keep a terminating zero.\<close>

definition get_data :: "nat \<Rightarrow> (nat \<Rightarrow> bool) \<Rightarrow> (string \<Rightarrow> byte list option) \<Rightarrow>
    bmp_file_header \<Rightarrow> bmp_info_header \<Rightarrow> string \<Rightarrow> (byte list option \<times> int \<times> int \<times> int) res" where
  "get_data dw alloc files bmfh0 bmih0 nm =
     (if 20 \<le> length nm then Inl Out_of_bounds else ReadPixelData dw alloc files bmfh0 bmih0 nm)"

section \<open>Lemmas\<close>

lemma length_fields [simp]: "length (fields fs) = sum_list (map fst fs)"
  by (induction fs) (auto simp: fields_def)

lemma fields_Cons: "fields ((n, x) # fs) = le_bytes n x @ fields fs"
  by (simp add: fields_def)

lemma read_fields_fields:
  assumes "\<forall>(n, x) \<in> set fs. x < 256 ^ n" and "map fst gs = map fst fs"
  shows "read_fields gs (fields fs @ rest) = map snd fs"
  using assms
proof (induction fs arbitrary: gs)
  case Nil
  then show ?case by simp
next
  case (Cons p fs)
  obtain n x where p: "p = (n, x)" by force
  obtain old gs' where gs: "gs = (n, old) # gs'" "map fst gs' = map fst fs"
    using Cons.prems(2) p by (cases gs) auto
  have "x mod 256 ^ n = x" using Cons.prems(1) p by simp
  then show ?case using Cons.IH[of gs'] Cons.prems(1) gs p
    by (simp add: fields_Cons le_value_le_bytes)
qed

lemma mapE_Inr: "mapE f xs = Inr ys \<longleftrightarrow> length ys = length xs \<and> (\<forall>i < length xs. f (xs ! i) = Inr (ys ! i))"
proof (induction xs arbitrary: ys)
  case (Cons x xs)
  show ?case
    by (cases ys) (auto simp: ebind_eq_Inr Cons.IH nth_Cons split: nat.splits)
qed auto

lemma mapE_Inl: "mapE f xs = Inl e \<Longrightarrow> \<exists>x \<in> set xs. f x = Inl e"
  by (induction xs) (auto simp: ebind_eq_Inl)

lemma mapE_fails: "x \<in> set xs \<Longrightarrow> f x = Inl e \<Longrightarrow> \<exists>e'. mapE f xs = Inl e'"
proof (induction xs)
  case (Cons y ys)
  show ?case
  proof (cases "f y")
    case (Inr b)
    then show ?thesis using Cons by auto
  qed simp
qed simp

lemma checked_ok: "- (2 ^ 31) \<le> i \<Longrightarrow> i < 2 ^ 31 \<Longrightarrow> checked i = Inr i"
  by (simp add: checked_def)

lemma to_dword_small: "0 \<le> i \<Longrightarrow> i < 2 ^ 31 \<Longrightarrow> 4 \<le> dw \<Longrightarrow> to_dword dw i = nat i"
proof -
  assume i: "0 \<le> i" "i < 2 ^ 31" and dw: "4 \<le> dw"
  have "(256 :: int) ^ 4 \<le> 256 ^ dw" using dw by (rule power_increasing) simp
  then have "i < 256 ^ dw" using i by simp
  then show ?thesis using i by (simp add: to_dword_def)
qed

lemma dword_to_int_small: "n < 2 ^ 31 \<Longrightarrow> dword_to_int n = int n"
  by (simp add: dword_to_int_def)

lemma mapE_map: "\<forall>x \<in> set xs. f x = Inr (g x) \<Longrightarrow> mapE f xs = Inr (map g xs)"
  by (induction xs) auto

lemma bottom_up_eq:
  assumes "w * h \<le> length buff"
  shows "bottom_up buff (int w) (int h) =
    Inr (concat (map (\<lambda>i. map (\<lambda>j. buff ! (i * w + j)) [0..<w]) (rev [0..<h])))"
proof -
  have "read_at buff (int i * int w + int j) = Inr (buff ! (i * w + j))" if "i < h" "j < w" for i j
  proof -
    have "i * w + j < Suc i * w" using that by simp
    also have "\<dots> \<le> h * w" using that by (intro mult_le_mono1) simp
    finally have "i * w + j < length buff" using assms by (simp add: mult.commute)
    moreover have "nat (int i * int w + int j) = i * w + j"
      by (simp only: flip: of_nat_mult of_nat_add)
    ultimately show ?thesis by (simp add: read_at_def)
  qed
  then have row: "mapE (\<lambda>j. read_at buff (int i * int w + j)) (map int [0..<w]) = Inr (map (\<lambda>j. buff ! (i * w + j)) [0..<w])"
    if "i < h" for i
    using that mapE_map[of "map int [0..<w]" "\<lambda>j. read_at buff (int i * int w + j)" "\<lambda>j. buff ! (i * w + nat j)"]
    by simp
  have "mapE (\<lambda>i. mapE (\<lambda>j. read_at buff (i * int w + j)) (map int [0..<w])) (map int (rev [0..<h])) =
      Inr (map (\<lambda>i. map (\<lambda>j. buff ! (nat i * w + j)) [0..<w]) (map int (rev [0..<h])))"
    by (rule mapE_map) (use row in auto)
  then show ?thesis by (simp add: bottom_up_def rev_map comp_def)
qed

lemma concat_rows_nth:
  assumes "\<forall>r \<in> set rows. length r = w" "r < length rows" "j < w"
  shows "concat rows ! (r * w + j) = rows ! r ! j"
  using assms
proof (induction rows arbitrary: r)
  case (Cons x rows)
  show ?case
  proof (cases r)
    case (Suc q)
    then show ?thesis using Cons by (simp add: nth_append)
  qed (use Cons in \<open>simp add: nth_append\<close>)
qed simp

lemma length_concat_rows: "\<forall>r \<in> set rows. length r = w \<Longrightarrow> length (concat rows) = length rows * w"
  by (induction rows) auto

lemma length_clr_table [simp]: "length clr_table = 1024"
proof -
  have "length (concat (map (\<lambda>i. [word_of_nat i, word_of_nat i, word_of_nat i, 0 :: byte]) is)) = 4 * length is" for "is" :: "nat list"
    by (induction "is") auto
  then show ?thesis by (simp add: clr_table_def)
qed

lemma WriteFileHeader_ok:
  assumes "w * h + 1078 < 2 ^ 31" "4 \<le> dw"
  shows "WriteFileHeader dw (int w) (int h) =
    Inr \<lparr>bfType = 0x4D42, bfSize = 1078 + w * h, bfReserved1 = 0, bfReserved2 = 0, bfOffBits = 1078\<rparr>"
proof -
  have "checked (int w * int h) = Inr (int (w * h))" "checked (1078 + int (w * h)) = Inr (int (1078 + w * h))"
    using assms(1) by (auto intro!: checked_ok simp flip: of_nat_mult)
  moreover have "to_dword dw (int (1078 + w * h)) = 1078 + w * h"
  proof -
    have "int (1078 + w * h) < 2 ^ 31"
      using of_nat_less_iff[where 'a = int, THEN iffD2, OF assms(1)] by simp
    then show ?thesis using to_dword_small[of "int (1078 + w * h)" dw] assms(2) by (simp only: nat_int)
  qed
  ultimately show ?thesis by (simp add: WriteFileHeader_def FILEHEADSIZE_def INFOHEADSIZE_def clr_table_size_def)
qed

text \<open>The pixel of row \<open>i\<close> and column \<open>j\<close> as stored after \<open>RawToBmp\<close> or \<open>encode_bmp\<close>.\<close>

definition raster :: "byte list \<Rightarrow> nat \<Rightarrow> nat \<Rightarrow> byte list" where
  "raster buff w h = concat (map (\<lambda>i. map (\<lambda>j. buff ! (i * w + j)) [0..<w]) (rev [0..<h]))"

lemma length_raster [simp]: "length (raster buff w h) = h * w"
  using length_concat_rows[of "map (\<lambda>i. map (\<lambda>j. buff ! (i * w + j)) [0..<w]) (rev [0..<h])" w]
  by (simp add: raster_def)

lemma raster_nth:
  assumes "i < h" "j < w" shows "raster buff w h ! ((h - 1 - i) * w + j) = buff ! (i * w + j)"
proof -
  let ?rows = "map (\<lambda>i. map (\<lambda>j. buff ! (i * w + j)) [0..<w]) (rev [0..<h])"
  have "concat ?rows ! ((h - 1 - i) * w + j) = ?rows ! (h - 1 - i) ! j"
    by (rule concat_rows_nth) (use assms in auto)
  also have "\<dots> = buff ! (i * w + j)" using assms by (simp add: rev_nth)
  finally show ?thesis by (simp add: raster_def)
qed

lemma RawToBmp_ok:
  assumes "w * h + 1078 < 2 ^ 31" "4 \<le> dw" "w * h \<le> length pix" "w * h + 1078 \<le> length out"
    and "bmfh = \<lparr>bfType = 0x4D42, bfSize = 1078 + w * h, bfReserved1 = 0, bfReserved2 = 0, bfOffBits = 1078\<rparr>"
    and len: "length (bmp_bytes dw bmfh (WriteInfoHeader dw (int w) (int h)) (raster pix w h)) = 1078 + w * h"
  shows "RawToBmp dw (Some pix) (Some out) (int w) (int h) =
    Inr (int (1078 + w * h), Some (bmp_bytes dw bmfh (WriteInfoHeader dw (int w) (int h)) (raster pix w h) @ drop (1078 + w * h) out))"
proof -
  have "dword_to_int (1078 + w * h) = int (1078 + w * h)" using assms(1) by (intro dword_to_int_small) simp
  then show ?thesis
    using WriteFileHeader_ok[OF assms(1,2)] bottom_up_eq[OF assms(3)] assms(4) len
    unfolding assms(5) by (simp add: RawToBmp_def Let_def blit_def raster_def)
qed

section \<open>Properties\<close>

lemma bmp_bytes_32:
  assumes "bmfh = \<lparr>bfType = 0x4D42, bfSize = n, bfReserved1 = 0, bfReserved2 = 0, bfOffBits = 1078\<rparr>"
  shows "bmp_bytes 4 bmfh bmih px = file_header_image 4 bmfh @ info_header_image 4 bmih @ clr_table @ px"
  by (simp add: bmp_bytes_def FILEHEADSIZE_def INFOHEADSIZE_def file_header_image_def info_header_image_def)

lemma file_header_reads_back:
  assumes "img = file_header_image 4 bmfh @ rest"
    and "bmfh = \<lparr>bfType = 0x4D42, bfSize = n, bfReserved1 = 0, bfReserved2 = 0, bfOffBits = 1078\<rparr>" "n < 2 ^ 31"
  shows "ReadFileHeader 4 [p \<mapsto> img] p f0 = (0, bmfh)"
proof -
  have "read_fields [(2, bfType f0), (4, bfSize f0), (2, bfReserved1 f0), (2, bfReserved2 f0), (4, bfOffBits f0)] img
      = [0x4D42, n, 0, 0, 1078]"
    using read_fields_fields[of "[(2, 0x4D42), (4, n), (2, 0), (2, 0), (4, 1078)]"
        "[(2, bfType f0), (4, bfSize f0), (2, bfReserved1 f0), (2, bfReserved2 f0), (4, bfOffBits f0)]" rest] assms
    by (simp add: file_header_image_def)
  then show ?thesis using assms(2) by (simp add: ReadFileHeader_def Let_def)
qed

lemma info_header_reads_back:
  assumes "drop 14 img = info_header_image 4 (WriteInfoHeader 4 (int w) (int h)) @ rest" "w < 2 ^ 31" "h < 2 ^ 31"
  shows "ReadInfoHeader 4 [p \<mapsto> img] p i0 = (0, WriteInfoHeader 4 (int w) (int h))"
proof -
  have wh: "to_dword 4 (int w) = w" "to_dword 4 (int h) = h"
    using assms(2,3) to_dword_small[of "int w" 4] to_dword_small[of "int h" 4] by simp_all
  let ?fs = "[(4, 40), (4, w), (4, h), (2, 1), (2, 8), (4, 0), (4, 0), (4, 0), (4, 0), (4, 0), (4, 0)] :: (nat \<times> nat) list"
  let ?gs = "[(4, biSize i0), (4, biWidth i0), (4, biHeight i0), (2, biPlanes i0), (2, biBitCount i0), (4, biCompression i0),
    (4, biSizeImage i0), (4, biXPelsPerMeter i0), (4, biYPelsPerMeter i0), (4, biClrUsed i0), (4, biClrImportant i0)]"
  have "info_header_image 4 (WriteInfoHeader 4 (int w) (int h)) = fields ?fs"
    by (simp add: info_header_image_def WriteInfoHeader_def INFOHEADSIZE_def wh)
  then have "read_fields ?gs (drop 14 img) = map snd ?fs"
    using read_fields_fields[of ?fs ?gs rest] assms by simp
  then show ?thesis by (simp add: ReadInfoHeader_def Let_def WriteInfoHeader_def INFOHEADSIZE_def wh)
qed

lemma bitmap_written:
  assumes "w * h + 1078 < 2 ^ 31" "w < 2 ^ 31" "h < 2 ^ 31" and "w * h \<le> length pix" "w * h + 1078 \<le> length out"
  shows "\<exists>img. RawToBmp 4 (Some pix) (Some out) (int w) (int h) = Inr (int (1078 + w * h), Some img) \<and>
     ReadFileHeader 4 [p \<mapsto> img] p f0 =
       (0, \<lparr>bfType = 0x4D42, bfSize = 1078 + w * h, bfReserved1 = 0, bfReserved2 = 0, bfOffBits = 1078\<rparr>) \<and>
     ReadInfoHeader 4 [p \<mapsto> img] p i0 = (0, WriteInfoHeader 4 (int w) (int h)) \<and>
     (\<forall>i < h. \<forall>j < w. img ! (1078 + ((h - 1 - i) * w + j)) = pix ! (i * w + j)) \<and> length img = length out"
proof -
  let ?f = "\<lparr>bfType = 0x4D42, bfSize = 1078 + w * h, bfReserved1 = 0, bfReserved2 = 0, bfOffBits = 1078\<rparr>"
  let ?i = "WriteInfoHeader 4 (int w) (int h)"
  let ?rest = "clr_table @ raster pix w h @ drop (1078 + w * h) out"
  let ?img = "file_header_image 4 ?f @ info_header_image 4 ?i @ ?rest"
  have l14: "length (file_header_image 4 ?f) = 14" and l40: "length (info_header_image 4 ?i) = 40"
    by (simp_all add: file_header_image_def info_header_image_def)
  have b: "bmp_bytes 4 ?f ?i (raster pix w h) = file_header_image 4 ?f @ info_header_image 4 ?i @ clr_table @ raster pix w h"
    by (rule bmp_bytes_32) simp
  have "RawToBmp 4 (Some pix) (Some out) (int w) (int h) = Inr (int (1078 + w * h), Some ?img)"
    using RawToBmp_ok[of w h 4 pix out ?f] assms b l14 l40 by (simp add: mult.commute)
  moreover have "ReadFileHeader 4 [p \<mapsto> ?img] p f0 = (0, ?f)"
    by (rule file_header_reads_back[OF refl refl]) (use assms(1) in simp)
  moreover have "ReadInfoHeader 4 [p \<mapsto> ?img] p i0 = (0, ?i)"
    by (rule info_header_reads_back[OF _ assms(2,3)]) (simp add: l14)
  moreover have "?img ! (1078 + ((h - 1 - i) * w + j)) = pix ! (i * w + j)" if "i < h" "j < w" for i j
  proof -
    have "(h - 1 - i) * w + j < h * w"
    proof -
      have "(h - 1 - i) * w + j < Suc (h - 1 - i) * w" using that by simp
      also have "\<dots> \<le> h * w" using that by (intro mult_le_mono1) simp
      finally show ?thesis .
    qed
    then show ?thesis using raster_nth[OF that] l14 l40 by (simp add: nth_append)
  qed
  moreover have "length ?img = length out" using assms(5) l14 l40 by simp
  ultimately show ?thesis by blast
qed

text \<open>Where a \<open>DWORD\<close> has 64 bits, as on the 64-bit Linux the networking code targets, the same
  call produces a file no bitmap reader accepts: the 14 and 40 bytes copied from the wider
  structures leave zeros where the format has the pixel offset and the width.\<close>
lemma bitmap_corrupt_on_lp64:
  assumes "w * h + 1078 < 2 ^ 31" "w < 2 ^ 31" "h < 2 ^ 31" and "w * h \<le> length pix" "w * h + 1078 \<le> length out"
  shows "\<exists>img. RawToBmp 8 (Some pix) (Some out) (int w) (int h) = Inr (int (1078 + w * h), Some img) \<and>
     le_value (slice 10 14 img) = 0 \<and> le_value (slice 18 22 img) = 0"
proof -
  let ?f = "\<lparr>bfType = 0x4D42, bfSize = 1078 + w * h, bfReserved1 = 0, bfReserved2 = 0, bfOffBits = 1078\<rparr>"
  let ?i = "WriteInfoHeader 8 (int w) (int h)"
  have two: "le_bytes 2 0 = [0, 0]" by (simp add: numeral_2_eq_2)
  obtain s :: "byte list" where s: "le_bytes 8 (1078 + w * h) = s" "length s = 8" by simp
  have fh: "take 14 (file_header_image 8 ?f) = le_bytes 2 0x4D42 @ s @ [0, 0, 0, 0]"
    by (simp add: file_header_image_def fields_def s two)
  have forty: "le_bytes 8 40 = [40, 0, 0, 0, 0, 0, 0, 0]"
    by code_simp
  obtain t where t: "take 40 (info_header_image 8 ?i) = [40, 0, 0, 0, 0, 0, 0, 0] @ t" "length t = 32"
    by (simp add: info_header_image_def fields_Cons WriteInfoHeader_def INFOHEADSIZE_def forty)
  have b: "bmp_bytes 8 ?f ?i px = le_bytes 2 0x4D42 @ s @ [0, 0, 0, 0] @ [40, 0, 0, 0, 0, 0, 0, 0] @ t @ clr_table @ px" for px
    using fh t by (simp add: bmp_bytes_def FILEHEADSIZE_def INFOHEADSIZE_def)
  have "RawToBmp 8 (Some pix) (Some out) (int w) (int h) =
      Inr (int (1078 + w * h), Some (bmp_bytes 8 ?f ?i (raster pix w h) @ drop (1078 + w * h) out))"
    using assms s t by (intro RawToBmp_ok) (simp_all add: b)
  then show ?thesis using s by (auto simp: b slice_def)
qed

lemma bitmap_corrupt_on_lp64_witness:
  "\<exists>img. RawToBmp 8 (Some [1, 2, 3, 4, 5, 6]) (Some (replicate 1084 0)) 3 2 = Inr (1084, Some img) \<and>
     le_value (slice 10 14 img) = 0"
  using bitmap_corrupt_on_lp64[of 3 2 "[1, 2, 3, 4, 5, 6]" "replicate 1084 0"] by auto

lemma img_at_fails: "img_at n img k = Inl e \<Longrightarrow> e \<in> {Out_of_bounds, Indeterminate}"
  by (auto simp: img_at_def split: if_splits)

lemma GetLineBytes_8:
  assumes "8 * w + 31 < 2 ^ 31" shows "GetLineBytes 4 (int w) 8 = Inr ((8 * w + 31) div 32 * 4)"
proof -
  have "int (8 * w + 31) < 2 ^ 31" using of_nat_less_iff[where 'a = int, THEN iffD2, OF assms] by simp
  then have c: "checked (int w * 8) = Inr (int w * 8)" "checked (int w * 8 + 31) = Inr (int w * 8 + 31)"
    by (auto intro!: checked_ok)
  have e: "(int w * 8 + 31) sdiv 32 * 4 = int ((8 * w + 31) div 32 * 4)"
    by (simp add: signed_divide_int_def sgn_if zdiv_int mult.commute)
  have "(8 * w + 31) div 32 * 4 < 2 ^ 31" using assms by simp
  then have "to_dword 4 (int ((8 * w + 31) div 32 * 4)) = (8 * w + 31) div 32 * 4"
    using to_dword_small[of "int ((8 * w + 31) div 32 * 4)" 4] by simp
  then show ?thesis using c e by (simp add: GetLineBytes_def)
qed

lemma read_rows_8_fails:
  assumes "2 \<le> w" "1 \<le> h" and L: "L \<le> 4 * (w - 1)"
  shows "\<exists>e. read_rows (L * h) img L (int w) (int h) 8 = Inl e \<and> e \<in> {Out_of_bounds, Indeterminate}"
proof -
  let ?row = "\<lambda>g. let base = L * (nat (int h) - 1 - g) in
    if (8 :: int) = 1 then bit_row (L * h) img L (int w) base else quad_row (L * h) img (int w) base"
  have "L * h = L * (h - 1) + L" using assms(2) by (cases h) auto
  then have "L * h \<le> L * (h - 1) + 4 * (w - 1)" using L by linarith
  then have "img_at (L * h) img (L * (h - 1) + 4 * (w - 1)) = Inl Out_of_bounds" by (simp add: img_at_def)
  then have "\<exists>e. quad_row (L * h) img (int w) (L * (h - 1)) = Inl e"
    unfolding quad_row_def by (intro mapE_fails[of "w - 1"]) (use assms(1) in auto)
  then obtain e1 where "?row 0 = Inl e1" by auto
  then obtain e where e: "mapE ?row [0..<nat (int h)] = Inl e"
    using mapE_fails[of 0 "[0..<nat (int h)]" ?row] assms(2) by auto
  then obtain g where "?row g = Inl e" using mapE_Inl by blast
  then have "e \<in> {Out_of_bounds, Indeterminate}"
    using mapE_Inl img_at_fails unfolding quad_row_def by fastforce
  then show ?thesis using e by (simp add: read_rows_def)
qed

text \<open>The library cannot read back the grey images it writes.  They have 8 bits per pixel, but
  \<open>ReadPixelData\<close> reads four bytes for each pixel of every depth other than 1, so that loading
  any such image at least two pixels wide reads beyond the pixel memory or beyond what the
  file filled of it.\<close>
lemma grey_images_unreadable:
  assumes "w * h + 1078 < 2 ^ 31" "8 * w + 31 < 2 ^ 31" "h < 2 ^ 31" "((8 * w + 31) div 32 * 4) * h < 2 ^ 31"
    and "2 \<le> w" "1 \<le> h" "w * h \<le> length pix" "w * h + 1078 \<le> length out" and "\<And>n. alloc n"
  shows "\<exists>img e. RawToBmp 4 (Some pix) (Some out) (int w) (int h) = Inr (int (1078 + w * h), Some img) \<and>
     ReadPixelData 4 alloc [p \<mapsto> img] f0 i0 p = Inl e \<and> e \<in> {Out_of_bounds, Indeterminate}"
proof -
  let ?L = "(8 * w + 31) div 32 * 4"
  have w: "w < 2 ^ 31" using assms(2) by simp
  obtain img where img: "RawToBmp 4 (Some pix) (Some out) (int w) (int h) = Inr (int (1078 + w * h), Some img)"
    "snd (ReadFileHeader 4 [p \<mapsto> img] p f0) =
      \<lparr>bfType = 0x4D42, bfSize = 1078 + w * h, bfReserved1 = 0, bfReserved2 = 0, bfOffBits = 1078\<rparr>"
    "snd (ReadInfoHeader 4 [p \<mapsto> img] p i0) = WriteInfoHeader 4 (int w) (int h)"
    using bitmap_written[OF assms(1) w assms(3,7,8), of p f0 i0] by auto
  have wh: "to_dword 4 (int w) = w" "to_dword 4 (int h) = h" "dword_to_int w = int w" "dword_to_int h = int h"
    using w assms(3) to_dword_small[of "int w" 4] to_dword_small[of "int h" 4] by (simp_all add: dword_to_int_small)
  have area: "checked (int w * int h) = Inr (int (w * h))"
  proof -
    have "int (w * h + 1078) < 2 ^ 31" using of_nat_less_iff[where 'a = int, THEN iffD2, OF assms(1)] by simp
    then show ?thesis by (auto intro!: checked_ok simp flip: of_nat_mult)
  qed
  have n: "?L * h mod 256 ^ 4 = ?L * h" using assms(4) by simp
  have "?L \<le> 4 * (w - 1)"
  proof -
    have "(8 * w + 31) div 32 < w" using assms(5) by (simp add: less_mult_imp_div_less)
    then show ?thesis by simp
  qed
  from read_rows_8_fails[OF assms(5,6) this, of "take (?L * h) (drop 1078 img)"] obtain e where
    e: "read_rows (?L * h) (take (?L * h) (drop 1078 img)) ?L (int w) (int h) 8 = Inl e"
      "e \<in> {Out_of_bounds, Indeterminate}" by blast
  have "ReadPixelData 4 alloc [p \<mapsto> img] f0 i0 p = Inl e"
    using e(1) n area assms(9) GetLineBytes_8[OF assms(2)]
    by (simp add: ReadPixelData_def img(2,3) WriteInfoHeader_def wh Let_def)
  then show ?thesis using img(1) e(2) by blast
qed

text \<open>
  \<open>RawToBmp\<close> writes the rows one after the other, while the format and \<open>GetLineBytes\<close> round the
  length of a row up to a multiple of four bytes.
\<close>
lemma GetLineBytes_unpadded:
  assumes "8 * w + 31 < 2 ^ 31" shows "GetLineBytes 4 (int w) 8 = Inr w \<longleftrightarrow> 4 dvd w"
proof -
  have "(8 * w + 31) div 32 * 4 = w \<longleftrightarrow> 4 dvd w" by presburger
  then show ?thesis by (simp add: GetLineBytes_8[OF assms])
qed

text \<open>C38: What \<open>RawToBmp\<close> writes where a \<open>DWORD\<close> has 32 bits, for every size that fits: it returns the
  file size 1078 + w h; both headers are understood by the library's readers; and the pixel in
  row \<open>i\<close> and column \<open>j\<close> of the source is the byte 1078 + (h - 1 - i) w + j of the file, the last
  row first.  The library cannot load the file again: the rows have the length \<open>GetLineBytes\<close>
  expects only when the width is a multiple of four, and whatever the width, from two pixels
  on, \<open>ReadPixelData\<close>, which takes four bytes for each pixel, reads outside the pixel memory or
  what the file filled of it.\<close>
theorem grey_bitmap_written:
  assumes "w * h + 1078 < 2 ^ 31" "w < 2 ^ 31" "h < 2 ^ 31" and "w * h \<le> length pix" "w * h + 1078 \<le> length out"
  shows "\<exists>img. RawToBmp 4 (Some pix) (Some out) (int w) (int h) = Inr (int (1078 + w * h), Some img) \<and>
     ReadFileHeader 4 [p \<mapsto> img] p f0 =
       (0, \<lparr>bfType = 0x4D42, bfSize = 1078 + w * h, bfReserved1 = 0, bfReserved2 = 0, bfOffBits = 1078\<rparr>) \<and>
     ReadInfoHeader 4 [p \<mapsto> img] p i0 = (0, WriteInfoHeader 4 (int w) (int h)) \<and>
     (\<forall>i < h. \<forall>j < w. img ! (1078 + ((h - 1 - i) * w + j)) = pix ! (i * w + j)) \<and>
     (8 * w + 31 < 2 ^ 31 \<longrightarrow> (GetLineBytes 4 (int w) 8 = Inr w \<longleftrightarrow> 4 dvd w)) \<and>
     (8 * w + 31 < 2 ^ 31 \<longrightarrow> (8 * w + 31) div 32 * 4 * h < 2 ^ 31 \<longrightarrow> 2 \<le> w \<longrightarrow> 1 \<le> h \<longrightarrow> (\<forall>n. alloc n) \<longrightarrow>
        (\<exists>e. ReadPixelData 4 alloc [p \<mapsto> img] f0 i0 p = Inl e \<and> e \<in> {Out_of_bounds, Indeterminate}))"
proof -
  obtain img where img: "RawToBmp 4 (Some pix) (Some out) (int w) (int h) = Inr (int (1078 + w * h), Some img)"
    "ReadFileHeader 4 [p \<mapsto> img] p f0 =
       (0, \<lparr>bfType = 0x4D42, bfSize = 1078 + w * h, bfReserved1 = 0, bfReserved2 = 0, bfOffBits = 1078\<rparr>)"
    "ReadInfoHeader 4 [p \<mapsto> img] p i0 = (0, WriteInfoHeader 4 (int w) (int h))"
    "\<forall>i < h. \<forall>j < w. img ! (1078 + ((h - 1 - i) * w + j)) = pix ! (i * w + j)"
    using bitmap_written[OF assms, of p f0 i0] by blast
  have "\<exists>e. ReadPixelData 4 alloc [p \<mapsto> img] f0 i0 p = Inl e \<and> e \<in> {Out_of_bounds, Indeterminate}"
    if "8 * w + 31 < 2 ^ 31" "(8 * w + 31) div 32 * 4 * h < 2 ^ 31" "2 \<le> w" "1 \<le> h" "\<forall>n. alloc n"
    using grey_images_unreadable[OF assms(1) that(1) assms(3) that(2,3,4) assms(4,5), of alloc p f0 i0] that(5) img(1)
    by auto
  with img GetLineBytes_unpadded[of w] show ?thesis by blast
qed

lemma grey_bitmap_written_witness:
  "\<exists>img. RawToBmp 4 (Some [1, 2, 3, 4, 5, 6]) (Some (replicate 1084 0)) 3 2 = Inr (1084, Some img) \<and>
     img ! 1078 = 4 \<and> img ! 1081 = 1 \<and> GetLineBytes 4 3 8 \<noteq> Inr 3 \<and>
     (\<exists>e. ReadPixelData 4 (\<lambda>_. True) [''a.bmp'' \<mapsto> img]
       \<lparr>bfType = 0, bfSize = 0, bfReserved1 = 0, bfReserved2 = 0, bfOffBits = 0\<rparr> (WriteInfoHeader 4 0 0) ''a.bmp'' = Inl e)"
proof -
  let ?pix = "[1, 2, 3, 4, 5, 6] :: byte list" and ?out = "replicate 1084 0 :: byte list"
  let ?f = "\<lparr>bfType = 0, bfSize = 0, bfReserved1 = 0, bfReserved2 = 0, bfOffBits = 0\<rparr>"
  obtain img where img: "RawToBmp 4 (Some ?pix) (Some ?out) (int 3) (int 2) = Inr (int (1078 + 3 * 2), Some img)"
    "\<forall>i < 2. \<forall>j < 3. img ! (1078 + ((2 - 1 - i) * 3 + j)) = ?pix ! (i * 3 + j)"
    "GetLineBytes 4 (int 3) 8 = Inr 3 \<longleftrightarrow> 4 dvd (3 :: nat)"
    "\<exists>e. ReadPixelData 4 (\<lambda>_. True) [''a.bmp'' \<mapsto> img] ?f (WriteInfoHeader 4 0 0) ''a.bmp'' = Inl e"
    using grey_bitmap_written[of 3 2 ?pix ?out "''a.bmp''" ?f "WriteInfoHeader 4 0 0" "\<lambda>_. True"] by fastforce
  from img(2)[rule_format, of 1 0] img(2)[rule_format, of 0 0] img(1,3,4) show ?thesis by auto
qed

end
