(* ===== verification/Logging.thy ===== *)
theory Logging
  imports Prelude
begin

text \<open>
  The logger (logging.h, logging.cpp): a global level, a global list of tags separated by
  \<open>+\<close>, and registered callbacks.  A C string that may be null is an option.  What a call emits
  is a list of outputs in order; the formatting of the arguments is not modelled, the format
  string stands for the message.
\<close>

section \<open>State and output\<close>

definition LOG_ERR :: nat where "LOG_ERR = 3"
definition LOG_PRINT :: nat where "LOG_PRINT = 8"
definition LOG_NONE :: nat where "LOG_NONE = 9"

record logger =
  log_level :: nat
  log_tag :: "string option"
  callbacks :: "nat list"

definition initial_logger :: logger where
  "initial_logger = \<lparr>log_level = LOG_ERR, log_tag = Some [], callbacks = []\<rparr>"

datatype emission = Console string string | Syslog nat string | Callback nat string

text \<open>\<open>level\<close> is an \<open>unsigned char\<close>.\<close>

definition log_set_level :: "nat \<Rightarrow> logger \<Rightarrow> logger" where
  "log_set_level level s = s\<lparr>log_level := level mod 256\<rparr>"

definition log_set_tag :: "string option \<Rightarrow> logger \<Rightarrow> logger" where
  "log_set_tag tag s = s\<lparr>log_tag := tag\<rparr>"

definition log_register_callback :: "nat \<Rightarrow> logger \<Rightarrow> logger" where
  "log_register_callback f s = s\<lparr>callbacks := callbacks s @ [f]\<rparr>"

section \<open>Filtering\<close>

text \<open>
  \<open>strtok\<close> with the separator \<open>+\<close>: leading separators are skipped and a token ends before the
  next one; \<open>None\<close> is the null pointer at the end.
\<close>

definition strtok :: "string \<Rightarrow> (string \<times> string) option" where
  "strtok s =
     (let t = dropWhile (\<lambda>c. c = CHR ''+'') s
      in if t = [] then None
         else Some (takeWhile (\<lambda>c. c \<noteq> CHR ''+'') t, drop 1 (dropWhile (\<lambda>c. c \<noteq> CHR ''+'') t)))"

lemma strtok_shorter: "strtok s = Some (tok, rest) \<Longrightarrow> length rest < length s"
proof -
  assume a: "strtok s = Some (tok, rest)"
  let ?t = "dropWhile (\<lambda>c. c = CHR ''+'') s"
  have t: "?t \<noteq> []" "rest = drop 1 (dropWhile (\<lambda>c. c \<noteq> CHR ''+'') ?t)"
    using a by (auto simp: strtok_def Let_def split: if_splits)
  then have "hd ?t \<noteq> CHR ''+''" using hd_dropWhile[of "\<lambda>c. c = CHR ''+''" s] by simp
  then obtain c u where u: "?t = c # u" "c \<noteq> CHR ''+''" using t(1) by (cases ?t) auto
  then have "length rest \<le> length u"
    using t(2) length_dropWhile_le[of "\<lambda>c. c \<noteq> CHR ''+''" u] by simp
  moreover have "length (c # u) \<le> length s" using length_dropWhile_le[of "\<lambda>c. c = CHR ''+''" s] u(1) by simp
  ultimately show ?thesis by simp
qed

text \<open>The loop over the tokens: it stops at the first one that equals the tag.\<close>

function blocked :: "string \<Rightarrow> string \<Rightarrow> bool" where
  "blocked tag tags =
     (case strtok tags of None \<Rightarrow> True | Some (tok, rest) \<Rightarrow> if tok = tag then False else blocked tag rest)"
  by pat_completeness auto
termination by (relation "measure (length \<circ> snd)") (auto dest: strtok_shorter)

declare blocked.simps [simp del]

text \<open>
  The filter.  \<open>malloc\<close> for the copy of the tag list can fail; then the message is blocked.
  The null tag list is replaced by the empty one.
\<close>

definition messageIsFilteredOut :: "bool \<Rightarrow> nat \<Rightarrow> string option \<Rightarrow> logger \<Rightarrow> bool \<times> logger" where
  "messageIsFilteredOut mem level tag s0 =
     (if log_level s0 < level then (True, s0)
      else (let s = (if log_tag s0 = None then s0\<lparr>log_tag := Some []\<rparr> else s0)
            in case tag of
                 None \<Rightarrow> (False, s)
               | Some t \<Rightarrow>
                   if t = [] then (False, s)
                   else (case log_tag s of
                           None \<Rightarrow> (False, s)
                         | Some tagList \<Rightarrow>
                             if 0 < length tagList then (if mem then blocked t tagList else True, s) else (False, s))))"

text \<open>
  \<open>log_print\<close>.  \<open>std::string\<close> built from a null tag is a fault.  \<open>Callback f m\<close> is the call of the
  registered function \<open>f\<close>.
\<close>

definition log_print :: "bool \<Rightarrow> nat \<Rightarrow> string option \<Rightarrow> string \<Rightarrow> logger \<Rightarrow> (emission list \<times> logger) res" where
  "log_print mem level tag format s0 =
     (if level = LOG_NONE then Inr ([], s0)
      else (case messageIsFilteredOut mem level tag s0 of (filtered, s) \<Rightarrow>
        if filtered then
          (if level = LOG_PRINT
           then Inr ([Console (case tag of None \<Rightarrow> ''(null)'' | Some t \<Rightarrow> t) format], s) else Inr ([], s))
        else (case tag of
                None \<Rightarrow> Inl Null_dereference
              | Some t \<Rightarrow>
                  (let new_format = (if t \<noteq> [] then t @ '': '' @ format else format)
                   in if level \<le> log_level s
                      then Inr (Syslog level new_format # map (\<lambda>f. Callback f format) (callbacks s), s)
                      else Inr ([], s)))))"

section \<open>The tag list\<close>

text \<open>The tokens of a list: its maximal parts without the separator that are not empty.\<close>

fun tokens :: "string \<Rightarrow> string \<Rightarrow> string list" where
  "tokens acc [] = (if acc = [] then [] else [acc])"
| "tokens acc (c # cs) =
     (if c = CHR ''+'' then (if acc = [] then [] else [acc]) @ tokens [] cs else tokens (acc @ [c]) cs)"

lemma tokens_word:
  "CHR ''+'' \<notin> set u \<Longrightarrow> tokens acc (u @ CHR ''+'' # cs) = (if acc @ u = [] then [] else [acc @ u]) @ tokens [] cs"
  by (induction u arbitrary: acc) auto

lemma tokens_last: "CHR ''+'' \<notin> set u \<Longrightarrow> tokens acc u = (if acc @ u = [] then [] else [acc @ u])"
  by (induction u arbitrary: acc) auto

lemma tokens_skip: "tokens [] (dropWhile (\<lambda>c. c = CHR ''+'') s) = tokens [] s"
  by (induction s) auto

lemma tokens_strtok:
  "tokens [] s = (case strtok s of None \<Rightarrow> [] | Some (tok, rest) \<Rightarrow> tok # tokens [] rest)"
proof -
  let ?t = "dropWhile (\<lambda>c. c = CHR ''+'') s" and ?P = "\<lambda>c. c \<noteq> CHR ''+''"
  show ?thesis
  proof (cases "?t = []")
    case True
    have "tokens [] s = []" using tokens_skip[of s] unfolding True by simp
    then show ?thesis using True by (simp add: strtok_def)
  next
    case False
    then have hd: "hd ?t \<noteq> CHR ''+''" using hd_dropWhile[of "\<lambda>c. c = CHR ''+''" s] by simp
    let ?u = "takeWhile ?P ?t" and ?r = "dropWhile ?P ?t"
    have ne: "?u \<noteq> []" using False hd by (cases ?t) auto
    have u: "CHR ''+'' \<notin> set ?u" by (auto dest: set_takeWhileD)
    have split: "?t = ?u @ ?r" by simp
    have "tokens [] ?t = ?u # tokens [] (drop 1 ?r)"
    proof (cases ?r)
      case Nil
      then have tu: "?t = ?u" using split by (metis append_Nil2)
      show ?thesis using tokens_last[OF u, of "[]"] ne unfolding tu[symmetric] Nil by simp
    next
      case (Cons c cs)
      then have "c = CHR ''+''" using hd_dropWhile[of ?P ?t] by simp
      then have tu: "?t = ?u @ CHR ''+'' # cs" using split Cons by metis
      have "tokens [] (?u @ CHR ''+'' # cs) = ?u # tokens [] cs" using tokens_word[OF u, of "[]" cs] ne by simp
      then show ?thesis unfolding tu[symmetric] Cons by simp
    qed
    then show ?thesis using False tokens_skip[of s] by (simp add: strtok_def Let_def)
  qed
qed

lemma blocked_iff: "blocked tag tags \<longleftrightarrow> tag \<notin> set (tokens [] tags)"
proof (induction tag tags rule: blocked.induct)
  case (1 tag tags)
  show ?case
    using 1 by (auto simp: blocked.simps[of tag tags] tokens_strtok[of tags] split: option.splits prod.splits)
qed

section \<open>Properties\<close>

text \<open>C39: The tag filter decides by membership: a message within the level passes exactly if it has
  no tag, or no tag list is set, or its tag is one of the \<open>+\<close>-separated tokens of the list;
  the loop over \<open>strtok\<close> always ends.  Above the level nothing passes.  The tag must equal the token
  exactly, upper and lower case included: the code compares with \<open>strcmp\<close>, although the comment
  on the function (logging.cpp, line 31) says that the comparison is case insensitive; with the
  list Network+IPC the tag ipc is filtered out and IPC is not.\<close>
theorem filter_by_membership:
  "(fst (messageIsFilteredOut True level tag s) \<longleftrightarrow>
     log_level s < level \<or>
     (\<exists>t tags. tag = Some t \<and> log_tag s = Some tags \<and> t \<noteq> [] \<and> tags \<noteq> [] \<and> t \<notin> set (tokens [] tags))) \<and>
   (let u = log_set_tag (Some ''Network+IPC'') initial_logger in
      fst (messageIsFilteredOut True LOG_ERR (Some ''ipc'') u) \<and>
      \<not> fst (messageIsFilteredOut True LOG_ERR (Some ''IPC'') u))"
proof
  show "fst (messageIsFilteredOut True level tag s) \<longleftrightarrow>
     log_level s < level \<or>
     (\<exists>t tags. tag = Some t \<and> log_tag s = Some tags \<and> t \<noteq> [] \<and> tags \<noteq> [] \<and> t \<notin> set (tokens [] tags))"
    by (auto simp: messageIsFilteredOut_def Let_def blocked_iff split: option.splits)
qed (simp add: messageIsFilteredOut_def log_set_tag_def initial_logger_def blocked_iff LOG_ERR_def Let_def)

text \<open>Every call of the logger with a tag delivers its message at most one way: within the level
  and the tag list to syslog and then to each callback in the order of registration; else, at
  level LOG_PRINT, to the console; else nowhere.  It never changes level, tags or callbacks
  beyond replacing a null tag list by the empty one.\<close>
lemma log_delivery:
  "\<exists>s'. log_print True level (Some t) format s = Inr
      (if level = LOG_NONE then []
       else if fst (messageIsFilteredOut True level (Some t) s)
         then (if level = LOG_PRINT then [Console t format] else [])
       else Syslog level (if t = [] then format else t @ '': '' @ format) # map (\<lambda>f. Callback f format) (callbacks s), s') \<and>
     log_level s' = log_level s \<and> callbacks s' = callbacks s \<and> (log_tag s = None \<or> s' = s)"
  by (auto simp: log_print_def messageIsFilteredOut_def Let_def split: option.splits)

text \<open>The comparison of tags is case sensitive, although its description says otherwise: with
  the tag list Network+IPC a message tagged ipc is dropped while one tagged IPC is logged; and
  a message with a null tag within the level makes the logger fail.\<close>
lemma tag_case_matters:
  "let s = log_set_tag (Some ''Network+IPC'') initial_logger in
   log_print True LOG_ERR (Some ''IPC'') ''m'' s = Inr ([Syslog LOG_ERR ''IPC: m''], s) \<and>
   log_print True LOG_ERR (Some ''ipc'') ''m'' s = Inr ([], s) \<and>
   log_print True LOG_ERR None ''m'' s = Inl Null_dereference"
  by (simp add: log_print_def messageIsFilteredOut_def log_set_tag_def initial_logger_def blocked_iff
      LOG_ERR_def LOG_PRINT_def LOG_NONE_def)

end
