(* ===== verification/Realtime.thy ===== *)
theory Realtime
  imports Prelude
begin

text \<open>
  Scheduling and thread names (realtime.h, realtime.cpp).  The kernel's calls are the fields of
  \<open>sched_calls\<close>, functions on an arbitrary state \<open>'o\<close> that return a result and the value of
  \<open>errno\<close>.  The retry of \<open>setscheduler\<close> is a loop that need not end for every kernel, hence a
  partial function; \<open>None\<close> means that it does not return.
\<close>

section \<open>Definitions\<close>

record 'o sched_calls =
  sc_priority_max :: "int \<Rightarrow> 'o \<Rightarrow> (int \<times> int) \<times> 'o"
  sc_getrlimit :: "'o \<Rightarrow> (int \<times> int \<times> nat \<times> nat) \<times> 'o"
  sc_setrlimit :: "nat \<Rightarrow> nat \<Rightarrow> 'o \<Rightarrow> (int \<times> int) \<times> 'o"
  sc_setscheduler :: "int \<Rightarrow> int \<Rightarrow> int \<Rightarrow> 'o \<Rightarrow> (int \<times> int) \<times> 'o"
  sc_setname :: "string \<Rightarrow> 'o \<Rightarrow> int \<times> 'o"

definition EPERM :: int where "EPERM = 1"
definition RLIM_INFINITY :: nat where "RLIM_INFINITY = 2 ^ 64 - 1"
definition SCHED_OTHER :: int where "SCHED_OTHER = 0"
definition SCHED_FIFO :: int where "SCHED_FIFO = 1"

text \<open>A limit as an \<open>int\<close>: infinity stands for the largest priority of the policy.\<close>

definition limit_as_int :: "int \<Rightarrow> nat \<Rightarrow> int" where
  "limit_as_int policy_max l = (if l = RLIM_INFINITY then policy_max else size_to_int l)"

definition raise_soft_prio :: "'o sched_calls \<Rightarrow> int \<Rightarrow> int \<Rightarrow> 'o \<Rightarrow> int \<times> 'o" where
  "raise_soft_prio C policy prio k =
     (case sc_priority_max C policy k of ((policy_max, errno1), k1) \<Rightarrow>
        if policy_max = -1 then (errno1, k1)
        else (case sc_getrlimit C k1 of ((err, errno2, cur, hard), k2) \<Rightarrow>
          if err \<noteq> 0 then (errno2, k2)
          else (let soft_max = limit_as_int policy_max cur; hard_max = limit_as_int policy_max hard in
                if soft_max < prio \<and> prio \<le> hard_max then
                  (case sc_setrlimit C (int_to_size prio) hard k2 of ((r, errno3), k3) \<Rightarrow>
                     (if r \<noteq> 0 then errno3 else r, k3))
                else (-1, k2))))"

partial_function (option) setscheduler :: "'o sched_calls \<Rightarrow> int \<Rightarrow> int \<Rightarrow> int \<Rightarrow> 'o \<Rightarrow> (int \<times> 'o) option" where
  "setscheduler C pid policy prio k =
     (case sc_setscheduler C pid policy prio k of ((r, errno), k1) \<Rightarrow>
        if r = 0 then Some (r, k1)
        else if errno = EPERM then
          (case raise_soft_prio C policy prio k1 of (err1, k2) \<Rightarrow>
             if err1 = 0 then setscheduler C pid policy prio k2 else Some (errno, k2))
        else Some (errno, k1))"

definition set_sched_fifo :: "'o sched_calls \<Rightarrow> int \<Rightarrow> 'o \<Rightarrow> (int \<times> 'o) option" where
  "set_sched_fifo C priority k = setscheduler C 0 SCHED_FIFO priority k"

definition set_sched_other :: "'o sched_calls \<Rightarrow> int \<Rightarrow> 'o \<Rightarrow> int \<times> 'o" where
  "set_sched_other C priority k = (case sc_setscheduler C 0 SCHED_OTHER priority k of ((r, e), k1) \<Rightarrow> (r, k1))"

text \<open>A thread name is cut to the 15 characters the kernel takes; a failure is only logged.\<close>

definition set_thread_name :: "'o sched_calls \<Rightarrow> string \<Rightarrow> 'o \<Rightarrow> 'o" where
  "set_thread_name C nm k =
     (let threadname = (if length nm < 16 then nm else take 15 nm) in snd (sc_setname C threadname k))"

section \<open>The kernel's contract\<close>

text \<open>
  \<open>lim\<close> reads the soft and hard limit off the state.  \<open>getrlimit\<close> reports them, a successful
  \<open>setrlimit\<close> stores its argument and a failing one changes nothing and sets \<open>errno\<close>, and the
  other calls leave the limits alone.
\<close>

definition sched_contract :: "'o sched_calls \<Rightarrow> ('o \<Rightarrow> nat \<times> nat) \<Rightarrow> bool" where
  "sched_contract C lim \<longleftrightarrow>
     (\<forall>policy k. lim (snd (sc_priority_max C policy k)) = lim k) \<and>
     (\<forall>policy k. fst (fst (sc_priority_max C policy k)) = -1 \<longrightarrow> snd (fst (sc_priority_max C policy k)) \<noteq> 0) \<and>
     (\<forall>k. lim (snd (sc_getrlimit C k)) = lim k) \<and>
     (\<forall>k. if fst (fst (sc_getrlimit C k)) = 0 then snd (snd (fst (sc_getrlimit C k))) = lim k
          else fst (snd (fst (sc_getrlimit C k))) \<noteq> 0) \<and>
     (\<forall>c m k. if fst (fst (sc_setrlimit C c m k)) = 0 then lim (snd (sc_setrlimit C c m k)) = (c, m)
              else snd (fst (sc_setrlimit C c m k)) \<noteq> 0) \<and>
     (\<forall>pid policy prio k. lim (snd (sc_setscheduler C pid policy prio k)) = lim k)"

lemma raise_soft_prio_success:
  assumes "sched_contract C lim" "0 \<le> prio" "prio < 2 ^ 31" "raise_soft_prio C policy prio k = (0, k')"
  shows "fst (lim k') = nat prio"
proof -
  obtain pm e1 k1 where p: "sc_priority_max C policy k = ((pm, e1), k1)" by (metis prod.collapse)
  obtain err e2 cur hard k2 where g: "sc_getrlimit C k1 = ((err, e2, cur, hard), k2)" by (metis prod.collapse)
  obtain r e3 k3 where s: "sc_setrlimit C (int_to_size prio) hard k2 = ((r, e3), k3)" by (metis prod.collapse)
  have 1: "pm = -1 \<Longrightarrow> e1 \<noteq> 0" using assms(1) p by (auto simp: sched_contract_def dest!: spec[of _ policy] spec[of _ k])
  have 2: "err \<noteq> 0 \<Longrightarrow> e2 \<noteq> 0"
    using assms(1) g unfolding sched_contract_def by (metis fst_conv snd_conv)
  have 3: "if r = 0 then lim k3 = (int_to_size prio, hard) else e3 \<noteq> 0"
    using assms(1) s unfolding sched_contract_def by (metis fst_conv snd_conv)
  have "pm \<noteq> -1" "err = 0" "r = 0" "k' = k3"
    using assms(4) p g s 1 2 3 by (auto simp: raise_soft_prio_def Let_def split: if_splits)
  then show ?thesis using 3 assms(2,3) by (simp add: size_simps)
qed

lemma raise_soft_prio_refused:
  assumes "sched_contract C lim" "0 \<le> prio" "prio < 2 ^ 31" "fst (lim k) = nat prio"
  shows "fst (raise_soft_prio C policy prio k) \<noteq> 0"
proof -
  obtain pm e1 k1 where p: "sc_priority_max C policy k = ((pm, e1), k1)" by (metis prod.collapse)
  obtain err e2 cur hard k2 where g: "sc_getrlimit C k1 = ((err, e2, cur, hard), k2)" by (metis prod.collapse)
  have 1: "pm = -1 \<longrightarrow> e1 \<noteq> 0" "lim k1 = lim k"
    using assms(1) p unfolding sched_contract_def by (metis fst_conv snd_conv)+
  have 2: "if err = 0 then (cur, hard) = lim k1 else e2 \<noteq> 0"
    using assms(1) g unfolding sched_contract_def by (metis fst_conv snd_conv)
  have "nat prio \<noteq> RLIM_INFINITY" using assms(2,3) by (simp add: RLIM_INFINITY_def)
  then have "limit_as_int pm (nat prio) = prio"
    using assms(2,3) by (simp add: limit_as_int_def size_to_int_small)
  moreover have "err = 0 \<Longrightarrow> cur = nat prio" using 1(2) 2 assms(4) by (metis fst_conv)
  ultimately show ?thesis using p g 1(1) 2 by (auto simp: raise_soft_prio_def Let_def)
qed

section \<open>Properties\<close>

text \<open>Raising the scheduling class always returns: although \<open>setscheduler\<close> jumps back whenever
  raising the limit succeeded, a kernel that keeps its limits as documented sends it back at
  most once, so that \<open>set_sched_fifo\<close> makes at most two attempts and never loops forever.\<close>
lemma set_sched_fifo_returns:
  assumes "sched_contract C lim" and "0 \<le> prio" "prio < 2 ^ 31"
  shows "\<exists>err k'. set_sched_fifo C prio k = Some (err, k')"
proof -
  have second: "\<exists>err k'. setscheduler C pid policy prio u = Some (err, k')" if "fst (lim u) = nat prio" for pid policy u
  proof -
    obtain r e k1 where s: "sc_setscheduler C pid policy prio u = ((r, e), k1)" by (metis prod.collapse)
    have "lim k1 = lim u" using assms(1) s unfolding sched_contract_def by (metis snd_conv)
    then have "fst (raise_soft_prio C policy prio k1) \<noteq> 0"
      using raise_soft_prio_refused[OF assms] that by simp
    then show ?thesis using s by (subst setscheduler.simps) (simp add: case_prod_beta)
  qed
  have "\<exists>err k'. setscheduler C pid policy prio k = Some (err, k')" for pid policy
  proof -
    obtain r e k1 where s: "sc_setscheduler C pid policy prio k = ((r, e), k1)" by (metis prod.collapse)
    obtain err1 k2 where w: "raise_soft_prio C policy prio k1 = (err1, k2)" by force
    show ?thesis
    proof (cases "err1 = 0")
      case True
      then have "fst (lim k2) = nat prio" using raise_soft_prio_success[OF assms] w by blast
      then show ?thesis using second s w by (subst setscheduler.simps) simp
    next
      case False
      then show ?thesis using s w by (subst setscheduler.simps) simp
    qed
  qed
  then show ?thesis by (simp add: set_sched_fifo_def)
qed

text \<open>A kernel whose state is the pair of limits and that refuses until the soft limit allows it.\<close>

definition strict_kernel :: "(nat \<times> nat) sched_calls" where
  "strict_kernel =
     \<lparr>sc_priority_max = (\<lambda>_ k. ((99, 0), k)), sc_getrlimit = (\<lambda>k. ((0, 0, k), k)),
      sc_setrlimit = (\<lambda>c m k. if c \<le> snd k then ((0, 0), (c, m)) else ((-1, 1), k)),
      sc_setscheduler = (\<lambda>_ _ prio k. if prio \<le> int (fst k) then ((0, 0), k) else ((-1, EPERM), k)),
      sc_setname = (\<lambda>_ k. (0, k))\<rparr>"

lemma set_sched_fifo_returns_witness:
  "\<exists>err k'. set_sched_fifo strict_kernel 50 (0, 60) = Some (err, k') \<and> err = 0 \<and> k' = (50, 60)"
proof -
  have "sched_contract strict_kernel id" by (simp add: sched_contract_def strict_kernel_def)
  then obtain err k' where "set_sched_fifo strict_kernel 50 (0, 60) = Some (err, k')"
    using set_sched_fifo_returns[of strict_kernel id 50 "(0, 60)"] by auto
  moreover have "set_sched_fifo strict_kernel 50 (0, 60) = Some (0, (50, 60))"
    by (simp add: set_sched_fifo_def setscheduler.simps raise_soft_prio_def strict_kernel_def limit_as_int_def
        RLIM_INFINITY_def size_to_int_def int_to_size_def EPERM_def)
  ultimately show ?thesis by simp
qed

end
