(* ===== verification/Synchronization.thy ===== *)
theory Synchronization
  imports Prelude
begin

text \<open>
  The timed mutexes of Synchronization.h.  A mutex is the thread that holds it, if any, and
  lives in a heap (\<open>mutexes\<close>, \<open>None\<close> for an address that is not allocated).  Whether the holder
  releases it while another thread waits is decided by the rest of the program and is the
  parameter \<open>released\<close>; a call that does not return is the value \<open>None\<close>.  Locking a mutex the
  thread already holds, and unlocking one it does not hold, are undefined.
\<close>

definition INFINITE :: int where "INFINITE = -1"

type_synonym mutexes = "nat \<rightharpoonup> nat option"

definition MT_CreateMutex :: "nat \<Rightarrow> bool \<Rightarrow> mutexes \<Rightarrow> nat \<times> mutexes" where
  "MT_CreateMutex fresh xxx ms = (fresh, ms(fresh \<mapsto> None))"

definition MT_CloseMutex :: "nat \<Rightarrow> mutexes \<Rightarrow> mutexes res" where
  "MT_CloseMutex m ms =
     (case ms m of None \<Rightarrow> Inl Use_after_free
      | Some None \<Rightarrow> Inr (ms(m := None))
      | Some (Some t) \<Rightarrow> Inl Indeterminate)"

definition MT_WaitMutex :: "bool \<Rightarrow> nat \<Rightarrow> nat \<Rightarrow> int \<Rightarrow> mutexes \<Rightarrow> (bool \<times> mutexes) option res" where
  "MT_WaitMutex released t m delay ms =
     (case ms m of
        None \<Rightarrow> Inl Use_after_free
      | Some None \<Rightarrow> Inr (Some (True, ms(m \<mapsto> Some t)))
      | Some (Some u) \<Rightarrow>
          if u = t then Inl Indeterminate
          else if released \<and> (delay = INFINITE \<or> 0 < delay) then Inr (Some (True, ms(m \<mapsto> Some t)))
          else if delay = INFINITE then Inr None
          else Inr (Some (False, ms)))"

definition MT_ReleaseMutex :: "nat \<Rightarrow> nat \<Rightarrow> mutexes \<Rightarrow> (bool \<times> mutexes) res" where
  "MT_ReleaseMutex t m ms =
     (case ms m of
        None \<Rightarrow> Inl Use_after_free
      | Some holder \<Rightarrow> if holder = Some t then Inr (True, ms(m \<mapsto> None)) else Inl Indeterminate)"

text \<open>A thread that waited and got the mutex holds it and can release it; one that did not changed nothing.\<close>

lemma wait_then_release:
  assumes "MT_WaitMutex released t m delay ms = Inr (Some (got, ms1))"
  shows "if got then ms1 m = Some (Some t) \<and> MT_ReleaseMutex t m ms1 = Inr (True, ms(m \<mapsto> None)) else ms1 = ms"
  using assms by (auto simp: MT_WaitMutex_def MT_ReleaseMutex_def split: option.splits if_splits)

end
