(* ===== verification/Spec2Isabelle.thy ===== *)
theory Spec2Isabelle
  imports Buffer InetAddress MyServer OutputQueue ServerProps Registration Bindings ServerThreadProps IpcProps
    ServerProcessProps DataParser ClientSockets NetworkApp FifoIpc Timeout TimerCallback Bitmap Logging Realtime
    Synchronization
begin

text \<open>
  \<^bold>\<open>What is modelled.\<close>  The repository is a network server in C++ (src/src).  It has two
  generations of socket code and a few libraries beside them.

  \<^item> \<^bold>\<open>The reactor\<close> (src/src/Network): an epoll event loop with channels, buffers and TCP
    connections, on which the application \<open>MyServer\<close> runs.  \<open>InitNetworkServer\<close> of Network.cpp
    builds it and starts the loop in its own thread.
  \<^item> \<^bold>\<open>The older socket layer\<close> (the same directory): \<open>TcpServerSocket\<close> with a thread or a child
    process per server, \<open>FdManager\<close> for its connections, \<open>IPC\<close> between the processes, the class
    \<open>Network\<close> that owns the servers, \<open>UdpSocket\<close>, \<open>TcpClientSocket\<close> and \<open>NetworkConfig\<close>.
  \<^item> \<^bold>\<open>Libraries\<close>: time-outs, timers and scheduling (src/src/OSAL), the logger (src/src/Logging),
    bitmaps and the timer device (src/src/Tools); and the menu of src/src/App/main.cpp.

  \<^bold>\<open>How programs are modelled.\<close>  A class is a record, an enumeration a datatype, a member function a
  function on the state that returns the new state.  Whatever stops a run abnormally (a failing
  assertion, an uncaught exception, \<open>exit\<close>, an undefined behaviour the code can reach) is a value
  of \<open>fault\<close>, and an operation that may stop has a result in \<open>'a res\<close> (theory \<open>Prelude\<close>).  The
  kernel is a parameter: the record \<open>os_calls\<close> (theory \<open>System\<close>), extended by \<open>host_calls\<close> and
  \<open>ioctl_calls\<close>, has one function on an arbitrary kernel state per system call, and the process
  keeps the list of the calls it made (\<open>trace\<close>).  The properties that speak of what reaches the
  kernel are statements about that list.  Integers have their width where the code depends on
  it (words in \<open>Buffer\<close>, \<open>InetAddress\<close>, \<open>Timeout\<close>; explicit ranges in \<open>FdManager\<close> and \<open>Bitmap\<close>).

  \<^bold>\<open>The theories.\<close>

  \<^item> \<open>Prelude\<close>: faults, sequencing (\<open>ebind\<close>, \<open>foldE\<close>), \<open>size_t\<close> arithmetic, copying of ranges,
    decimal printing, and the collections \<open>size_simps\<close> and \<open>fault_simps\<close>.
  \<^item> \<open>ByteOrder\<close> (SocketOps.h), \<open>Buffer\<close> (Buffer.h, Buffer.cpp), \<open>InetAddress\<close> (InetAddress.cpp and
    the printing functions of SocketOps.cpp).  The buffer is shown to implement a byte queue.
  \<^item> \<open>System\<close> (SocketOps.cpp, class \<open>Socket\<close>), \<open>Channel\<close>, \<open>Poller\<close>, \<open>EventLoop\<close>, \<open>ChannelEvents\<close>
    (the operations of a channel that reach the loop), \<open>LoopThread\<close> (the loop itself),
    \<open>TcpConnection\<close>, \<open>Acceptor\<close>, \<open>TcpServer\<close>, \<open>MyServer\<close>: one per class, each a group of members
    and operations.  \<open>Poller\<close> relates the poller's map to the set the kernel watches.
  \<^item> \<open>ConnectionFrame\<close>, \<open>OutputQueue\<close>, \<open>ServerSteps\<close>, \<open>ServerRuns\<close>, \<open>DemoRun\<close>, \<open>ServerProps\<close>: what each
    step leaves alone, the output of a connection as a byte stream, the effect of every task on
    the connections, the reachable states of the whole program, a run used by the witnesses,
    and the properties of all runs.  The loop knows its client only through the locales
    \<open>loop_client\<close> and \<open>loop_invariant\<close>; they are interpreted on the complete program.
  \<^item> \<open>LoopOwnership\<close>, \<open>Ownership\<close>, \<open>OwnershipSteps\<close>, \<open>ServerSafety\<close>: shared ownership of the connections.
    The locale \<open>owned_loop\<close> says what keeps a loop safe whose functors own what they run on; the
    invariant \<open>safe\<close> counts the owners of every connection (the server's map, queued functors, those
    on the stack) and types every function object; each operation is shown to keep it, and the
    interpretation on the program gives memory safety of the reactor.
    \<open>owned_invariant\<close> extends the contract by a further invariant that the tasks keep.
  \<^item> \<open>Retirement\<close>: the way of a closed connection out of the server.  \<open>tracked\<close> ties the state of
    each connection to the server's map and to the queued removal or destruction; an
    interpretation of \<open>owned_invariant\<close> carries it through the loop, and two iterations end the way.
  \<^item> \<open>ConnectionInvariant\<close>: the locale \<open>connection_invariant\<close> lists the few basic steps that the
    handlers of the connections consist of; what these keep, every reachable state has.  It is
    interpreted three times.  \<open>Descriptors\<close> reads the calls of \<open>accept\<close> and \<open>close\<close> as a ledger of the
    connections (\<open>ledger\<close>; \<open>tidy\<close> are the steps that make no entry).  \<open>Registration\<close> shows that the
    server keeps to the protocol of the poller: \<open>watched\<close> ties the kernel's table to the states of
    the connections, with the descriptors numbered as documented (\<open>numbers_descriptors\<close>).  \<open>Bindings\<close>
    says what each slot of a channel calls, to which living connections the queued functors are
    bound, and that the host of \<open>MyServer\<close> is chosen once and not replaced when it is gone (\<open>bound\<close>).
  \<^item> \<open>FdManager\<close>: the registry of descriptors, with the locale \<open>fd_registry\<close> as its interface, and
    the named registries, which implement a finite map.
  \<^item> \<open>HostCalls\<close> (further calls, the epoll helpers of socket.cpp), \<open>TcpServerSocket\<close> (the classes
    \<open>TcpServerSocket\<close> and \<open>TcpInterfaceSocket\<close>), \<open>ServerThreads\<close> (the two server threads, starting
    and stopping, the image packets), \<open>ServerThreadInv\<close> and \<open>ServerThreadProps\<close> (their invariant and
    properties), \<open>ServerProcess\<close> and \<open>ServerProcessProps\<close> (the server as a child process).
  \<^item> \<open>Ipc\<close> and \<open>IpcProps\<close> (Ipc.h, Ipc.cpp), \<open>ClientSockets\<close> (UdpSocket.cpp, TcpClientSocket.cpp),
    \<open>DataParser\<close> (DataParser.cpp and its earlier copy test.cpp), \<open>NetworkConfig\<close> (NetworkConfig.cpp,
    timer.cpp), \<open>NetworkApp\<close> (the class \<open>Network\<close> and main.cpp), \<open>FifoIpc\<close> (the named pipe of Tools).
  \<^item> \<open>Timeout\<close> and \<open>TimerCallback\<close> (timeout.h), \<open>Bitmap\<close> (bmp.h, bmp.cpp), \<open>Logging\<close> (logging.cpp),
    \<open>Realtime\<close> (realtime.cpp), \<open>Synchronization\<close> (Synchronization.h).

  \<^bold>\<open>What the properties show.\<close>  For every run, on any kernel that keeps to what its
  documentation says (where a property needs it, as a hypothesis): the server's counter equals its open
  connections, no queued functor is left without a wake-up, the messages a connection
  sends reach the kernel whole, in order and once, save those that \<open>sendInLoop\<close> gives up because
  the direct write failed with \<open>EPIPE\<close> or \<open>ECONNRESET\<close>, connections only move forward in their life cycle, no handler runs on
  a destroyed connection, its reference count is the number of its owners, two iterations after it
  is closed a connection is destroyed, an accepted descriptor is closed once, with its connection,
  every stored function object has the type its holder calls it with and is bound to a living
  connection or guarded by a tie, the poller never contradicts what it asked of the kernel before, and in the running server the kernel watches the wake-up descriptor, the
  listening socket and the open connections, and nothing else.  The older servers never fault, never
  exceed their limits and close every connection they accepted; the IPC server writes only to
  an open connection.  The data structures implement a queue and a map, integers prepended to
  a buffer are read back, the bytes of a written bitmap lie where its headers say, time-outs are
  exact across a wrap of the clock, a stopped timer runs only if it had passed its test before,
  and the loops with a retry end.  Where the code goes wrong the development proves that too: the properties of kind
  error are the reachable faults, each with the input that leads to it.

  \<^bold>\<open>Loops and fuel.\<close>  The event loop is a \<open>partial_function\<close>: its value \<open>None\<close> is a loop that does
  not return, and reachability ranges over all iterations.  The loops of the older servers run
  while another thread leaves a flag set; their models take the number \<open>n\<close> of rounds, and the
  properties hold for every \<open>n\<close>.  \<open>child_loop\<close> and \<open>udp_loop\<close> return \<open>None\<close> when \<open>n\<close> rounds do not
  suffice.  The retry of \<open>setscheduler\<close> is a partial function shown to return.

  \<^bold>\<open>Conventions.\<close>  A function declared to return \<open>int\<close> that never returns a value is modelled by its
  effect; one that does so on some paths has an optional result, and using the missing value
  is the fault \<open>Indeterminate\<close>.  Log and console output is not modelled outside \<open>Logging\<close>.  The
  reactor has one thread of its own; a functor is queued atomically, as its lock ensures.

  \<^bold>\<open>Not modelled.\<close>  The class \<open>HSTRING\<close>, the decoder and the reader's menu are not in the
  repository and are parameters of \<open>DataParser\<close>.  ScanDriver.cpp has empty bodies, \<open>MT_Delay\<close> only
  sleeps, and AppRevision.h is a version string.  The threads that send images and decoder results
  have their bodies compiled out; only their start and stop are modelled.  So are the older
  \<open>NoneConcurrentThread\<close>, the second half of Network.cpp, the end of the thread in Ipc.cpp and the
  test program at the end of timeout.h; a large part of the remaining lines are such blocks, comments and
  class declarations.  The IPv6 overloads of SocketOps.cpp and its forwarder \<open>connect\<close> are never called;
  its forwarder \<open>readv\<close> is the parameter of \<open>readFd\<close>.
\<close>

end
